(* ===== verification/Tbox_Prelude.thy ===== *)
theory Tbox_Prelude
  imports Main "HOL-Library.Word" "HOL-Library.Code_Target_Nat"
begin

text \<open>
  Shared vocabulary of the tbox development: the result type of fallible Go functions, the
  part of Go's \<^verbatim>\<open>strings\<close> and \<^verbatim>\<open>strconv\<close> packages the sources use, bytes and big-endian
  integers, and two generic interfaces that several components instantiate: a list of rules
  that admits a subject when some rule matches it, and a state machine whose operations keep
  an invariant.

  Go strings are byte sequences and Isabelle's \<open>char\<close> has 256 values, so a Go string is a
  \<open>string\<close> here and \<open>length\<close> counts what \<^verbatim>\<open>len\<close> counts. Case folding and white space are
  the ASCII ones (what Go's own fast path does on ASCII input).
\<close>

unbundle bit_operations_syntax

named_theorems go_strings \<open>characterisations of the string functions\<close>
named_theorems codec \<open>round-trip facts of encoders and decoders\<close>

subsection \<open>Types\<close>

type_synonym byte = "8 word"
type_synonym bytes = "byte list"
type_synonym u16 = "16 word"
type_synonym time = int \<comment> \<open>nanoseconds: both instants and durations\<close>

subsection \<open>Fallible loops\<close>

text \<open>
  The pattern \<^verbatim>\<open>for _, x := range xs { y, err := f(x); if err != nil { return err };
  out = append(out, y) }\<close>: the first error ends the loop.
\<close>

fun traverse_result :: "('a \<Rightarrow> 'e + 'b) \<Rightarrow> 'a list \<Rightarrow> 'e + 'b list" where
  "traverse_result f [] = Inr []"
| "traverse_result f (x # xs) =
     (case f x of
        Inl e \<Rightarrow> Inl e
      | Inr y \<Rightarrow> (case traverse_result f xs of Inl e \<Rightarrow> Inl e | Inr ys \<Rightarrow> Inr (y # ys)))"

text \<open>The pattern of a validation loop: the first error, or none.\<close>

fun first_error :: "('a \<Rightarrow> 'e option) \<Rightarrow> 'a list \<Rightarrow> 'e option" where
  "first_error f [] = None"
| "first_error f (x # xs) = (case f x of Some e \<Rightarrow> Some e | None \<Rightarrow> first_error f xs)"

subsection \<open>Go strings\<close>

definition lower_char :: "char \<Rightarrow> char" where
  "lower_char c =
     (let n = (of_char c :: nat) in if 65 \<le> n \<and> n \<le> 90 then char_of (n + 32) else c)"

definition upper_char :: "char \<Rightarrow> char" where
  "upper_char c =
     (let n = (of_char c :: nat) in if 97 \<le> n \<and> n \<le> 122 then char_of (n - 32) else c)"

definition ToLower :: "string \<Rightarrow> string" where "ToLower = map lower_char"
definition ToUpper :: "string \<Rightarrow> string" where "ToUpper = map upper_char"

definition is_space :: "char \<Rightarrow> bool" where
  "is_space c = (let n = (of_char c :: nat) in n = 32 \<or> (9 \<le> n \<and> n \<le> 13))"

definition TrimSpace :: "string \<Rightarrow> string" where
  "TrimSpace s = rev (dropWhile is_space (rev (dropWhile is_space s)))"

definition HasPrefix :: "string \<Rightarrow> string \<Rightarrow> bool" where
  "HasPrefix s p = (take (length p) s = p)"

definition HasSuffix :: "string \<Rightarrow> string \<Rightarrow> bool" where
  "HasSuffix s p = (length p \<le> length s \<and> drop (length s - length p) s = p)"

definition TrimPrefix :: "string \<Rightarrow> string \<Rightarrow> string" where
  "TrimPrefix s p = (if HasPrefix s p then drop (length p) s else s)"

definition TrimSuffix :: "string \<Rightarrow> string \<Rightarrow> string" where
  "TrimSuffix s p = (if HasSuffix s p then take (length s - length p) s else s)"

fun IndexByte :: "string \<Rightarrow> char \<Rightarrow> nat option" where
  "IndexByte [] c = None"
| "IndexByte (x # xs) c = (if x = c then Some 0 else map_option Suc (IndexByte xs c))"

fun LastIndexByte :: "string \<Rightarrow> char \<Rightarrow> nat option" where
  "LastIndexByte [] c = None"
| "LastIndexByte (x # xs) c =
     (case LastIndexByte xs c of
        Some i \<Rightarrow> Some (Suc i)
      | None \<Rightarrow> if x = c then Some 0 else None)"

text \<open>\<^verbatim>\<open>strings.Fields\<close>: the maximal runs of non-space characters.\<close>

fun fields_aux :: "string \<Rightarrow> string \<Rightarrow> string list" where
  "fields_aux acc [] = (if acc = [] then [] else [rev acc])"
| "fields_aux acc (c # cs) =
     (if is_space c then (if acc = [] then fields_aux [] cs else rev acc # fields_aux [] cs)
      else fields_aux (c # acc) cs)"

definition Fields :: "string \<Rightarrow> string list" where "Fields s = fields_aux [] s"

subsection \<open>Decimal numbers\<close>

definition is_digit :: "char \<Rightarrow> bool" where
  "is_digit c = (let n = (of_char c :: nat) in 48 \<le> n \<and> n \<le> 57)"

definition digit_val :: "char \<Rightarrow> nat" where
  "digit_val c = of_char c - 48"

datatype num_error = ErrSyntax | ErrRange

text \<open>
  \<^verbatim>\<open>strconv.ParseUint(s, 10, bits)\<close>: a pair of value and error, because one caller drops the
  error and uses the value (\<open>0\<close> on a syntax error, the largest value on a range error). The
  digits are scanned from the left, so a range error can win over a later bad digit.
\<close>

fun parse_uint_loop :: "nat \<Rightarrow> nat \<Rightarrow> string \<Rightarrow> nat \<times> num_error option" where
  "parse_uint_loop maxv n [] = (n, None)"
| "parse_uint_loop maxv n (c # cs) =
     (if \<not> is_digit c then (0, Some ErrSyntax)
      else let n' = n * 10 + digit_val c in
        if n' > maxv then (maxv, Some ErrRange) else parse_uint_loop maxv n' cs)"

definition ParseUint :: "nat \<Rightarrow> string \<Rightarrow> nat \<times> num_error option" where
  "ParseUint bits s =
     (if s = [] then (0, Some ErrSyntax) else parse_uint_loop (2 ^ bits - 1) 0 s)"

text \<open>Decimal output (\<^verbatim>\<open>strconv.Itoa\<close> on a non-negative number).\<close>

definition digit_char :: "nat \<Rightarrow> char" where
  "digit_char d = char_of (48 + d)"

fun Itoa :: "nat \<Rightarrow> string" where
  "Itoa n = (if n < 10 then [digit_char n] else Itoa (n div 10) @ [digit_char (n mod 10)])"

declare Itoa.simps [simp del]

subsection \<open>Bytes\<close>

definition char_of_byte :: "byte \<Rightarrow> char" where
  "char_of_byte b = char_of (unat b)"

definition byte_of_char :: "char \<Rightarrow> byte" where
  "byte_of_char c = of_nat (of_char c)"

definition string_of_bytes :: "bytes \<Rightarrow> string" where
  "string_of_bytes = map char_of_byte"

definition bytes_of_string :: "string \<Rightarrow> bytes" where
  "bytes_of_string = map byte_of_char"

text \<open>Big-endian numbers: the value of a byte sequence, and the two fixed widths in use.\<close>

fun be_val :: "bytes \<Rightarrow> nat" where
  "be_val [] = 0"
| "be_val (b # bs) = unat b * 256 ^ length bs + be_val bs"

definition put_u16 :: "nat \<Rightarrow> bytes" where
  "put_u16 n = [of_nat (n div 256), of_nat n]"

definition put_u32 :: "nat \<Rightarrow> bytes" where
  "put_u32 n = [of_nat (n div 256 ^ 3), of_nat (n div 256 ^ 2), of_nat (n div 256), of_nat n]"

text \<open>
  \<^verbatim>\<open>io.ReadFull\<close> on a stream that holds the given bytes and then ends: the bytes read and the
  rest, or none when the stream is too short.
\<close>

definition ReadFull :: "nat \<Rightarrow> bytes \<Rightarrow> (bytes \<times> bytes) option" where
  "ReadFull n s = (if n \<le> length s then Some (take n s, drop n s) else None)"

subsection \<open>Lemmas: fallible loops\<close>

lemma traverse_result_Inr_length:
  "traverse_result f xs = Inr ys \<Longrightarrow> length ys = length xs"
  by (induction xs arbitrary: ys) (auto split: sum.splits)

lemma traverse_result_Inr_iff:
  "traverse_result f xs = Inr ys \<longleftrightarrow> list_all2 (\<lambda>x y. f x = Inr y) xs ys"
proof (induction xs arbitrary: ys)
  case Nil
  then show ?case by auto
next
  case (Cons x xs)
  show ?case
  proof (cases "f x")
    case (Inl e)
    then show ?thesis by (auto simp: list_all2_Cons1)
  next
    case (Inr y)
    have "traverse_result f (x # xs) = Inr ys \<longleftrightarrow>
        (\<exists>zs. traverse_result f xs = Inr zs \<and> ys = y # zs)"
      using Inr by (auto split: sum.splits)
    also have "\<dots> \<longleftrightarrow> list_all2 (\<lambda>x y. f x = Inr y) (x # xs) ys"
      using Inr Cons.IH by (auto simp: list_all2_Cons1)
    finally show ?thesis .
  qed
qed

lemma traverse_result_Inl_iff:
  "(\<exists>e. traverse_result f xs = Inl e) \<longleftrightarrow> (\<exists>x \<in> set xs. \<exists>e. f x = Inl e)"
proof (induction xs)
  case Nil
  then show ?case by simp
next
  case (Cons x xs)
  show ?case
  proof (cases "f x")
    case (Inl e)
    then show ?thesis by auto
  next
    case (Inr y)
    with Cons show ?thesis by (cases "traverse_result f xs") auto
  qed
qed

lemma first_error_None_iff: "first_error f xs = None \<longleftrightarrow> (\<forall>x \<in> set xs. f x = None)"
  by (induction xs) (auto split: option.splits)

subsection \<open>Lemmas: strings\<close>

lemma HasPrefix_iff [go_strings]: "HasPrefix s p \<longleftrightarrow> (\<exists>t. s = p @ t)"
  unfolding HasPrefix_def by (metis append_eq_conv_conj append_take_drop_id)

lemma HasSuffix_iff [go_strings]: "HasSuffix s p \<longleftrightarrow> (\<exists>t. s = t @ p)"
proof
  assume "HasSuffix s p"
  then have "s = take (length s - length p) s @ p"
    unfolding HasSuffix_def by (metis append_take_drop_id)
  then show "\<exists>t. s = t @ p" by blast
next
  assume "\<exists>t. s = t @ p"
  then show "HasSuffix s p" by (auto simp: HasSuffix_def)
qed

lemma HasPrefix_append [simp]: "HasPrefix (p @ t) p"
  by (simp add: HasPrefix_def)

lemma HasSuffix_append [simp]: "HasSuffix (t @ p) p"
  by (simp add: HasSuffix_def)

lemma TrimPrefix_append [simp]: "TrimPrefix (p @ t) p = t"
  by (simp add: TrimPrefix_def)

lemma TrimSuffix_append [simp]: "TrimSuffix (t @ p) p = t"
  by (simp add: TrimSuffix_def)

lemma IndexByte_None_iff [go_strings]: "IndexByte s c = None \<longleftrightarrow> c \<notin> set s"
  by (induction s) auto

lemma IndexByte_Some [go_strings]:
  "IndexByte s c = Some i \<Longrightarrow> i < length s \<and> s ! i = c \<and> c \<notin> set (take i s)"
  by (induction s arbitrary: i) (auto split: if_splits)

lemma LastIndexByte_None_iff [go_strings]: "LastIndexByte s c = None \<longleftrightarrow> c \<notin> set s"
  by (induction s) (auto split: option.splits)

lemma LastIndexByte_Some [go_strings]:
  "LastIndexByte s c = Some i \<Longrightarrow> i < length s \<and> s ! i = c \<and> c \<notin> set (drop (Suc i) s)"
  by (induction s arbitrary: i)
    (auto split: option.splits if_splits simp: LastIndexByte_None_iff)

lemma LastIndexByte_append:
  "c \<notin> set t \<Longrightarrow> LastIndexByte (s @ c # t) c = Some (length s)"
proof (induction s)
  case Nil
  then show ?case by (simp add: LastIndexByte_None_iff[THEN iffD2])
qed auto

lemma lower_char_idem [simp]: "lower_char (lower_char c) = lower_char c"
  by (auto simp: lower_char_def Let_def)

lemma ToLower_idem [simp]: "ToLower (ToLower s) = ToLower s"
  by (simp add: ToLower_def)

lemma ToLower_append [simp]: "ToLower (s @ t) = ToLower s @ ToLower t"
  by (simp add: ToLower_def)

lemma length_ToLower [simp]: "length (ToLower s) = length s"
  by (simp add: ToLower_def)

subsection \<open>Lemmas: numbers and bytes\<close>

lemma digit_val_digit_char [simp]: "d < 10 \<Longrightarrow> digit_val (digit_char d) = d"
  by (simp add: digit_val_def digit_char_def)

lemma is_digit_digit_char [simp]: "d < 10 \<Longrightarrow> is_digit (digit_char d)"
  by (simp add: is_digit_def digit_char_def Let_def)

lemma Itoa_nonempty [simp]: "Itoa n \<noteq> []"
  by (subst Itoa.simps) simp

lemma Itoa_digits: "c \<in> set (Itoa n) \<Longrightarrow> is_digit c"
proof (induction n rule: Itoa.induct)
  case (1 n)
  then show ?case
    by (subst (asm) (2) Itoa.simps) (auto split: if_splits)
qed

lemma parse_uint_loop_append:
  "parse_uint_loop m n (xs @ ys) =
     (case parse_uint_loop m n xs of
        (v, None) \<Rightarrow> parse_uint_loop m v ys
      | (v, Some e) \<Rightarrow> (v, Some e))"
  by (induction xs arbitrary: n) (auto simp: Let_def)

lemma parse_uint_loop_Itoa: "k \<le> m \<Longrightarrow> parse_uint_loop m 0 (Itoa k) = (k, None)"
proof (induction k rule: Itoa.induct)
  case (1 k)
  show ?case
  proof (cases "k < 10")
    case True
    then show ?thesis using 1 by (simp add: Itoa.simps[of k])
  next
    case False
    then show ?thesis using 1 by (simp add: Itoa.simps[of k] parse_uint_loop_append)
  qed
qed

lemma ParseUint_Itoa [codec]: "k < 2 ^ bits \<Longrightarrow> ParseUint bits (Itoa k) = (k, None)"
  by (simp add: ParseUint_def parse_uint_loop_Itoa)

lemma unat_byte_less [simp]: "unat (b :: byte) < 256"
  using unsigned_less[of b, where ?'a = nat] by simp

lemma be_val_bound: "be_val bs < 256 ^ length bs"
proof (induction bs)
  case Nil
  then show ?case by simp
next
  case (Cons b bs)
  have "unat b \<le> 255" using unat_byte_less[of b] by linarith
  then have "unat b * 256 ^ length bs \<le> 255 * 256 ^ length bs"
    by (rule mult_right_mono) simp
  with Cons have "unat b * 256 ^ length bs + be_val bs < 256 * 256 ^ length bs"
    by linarith
  then show ?case by simp
qed

lemma be_val_append: "be_val (xs @ ys) = be_val xs * 256 ^ length ys + be_val ys"
  by (induction xs) (auto simp: algebra_simps power_add)

lemma be_val_inject:
  "length xs = length ys \<Longrightarrow> be_val xs = be_val ys \<Longrightarrow> xs = ys"
proof (induction xs ys rule: list_induct2)
  case Nil
  then show ?case by simp
next
  case (Cons x xs y ys)
  let ?k = "256 ^ length ys :: nat"
  have bx: "be_val xs < ?k" using be_val_bound[of xs] Cons.hyps by simp
  have bound_ys: "be_val ys < ?k" by (rule be_val_bound)
  have eq: "unat x * ?k + be_val xs = unat y * ?k + be_val ys"
    using Cons.prems Cons.hyps by simp
  from arg_cong[OF eq, of "\<lambda>n. n div ?k"] have "unat x = unat y"
    using bx bound_ys by simp
  with eq Cons.IH show ?case by (simp add: word_unat_eq_iff)
qed

lemma be_val_put_u16 [codec]: "n < 65536 \<Longrightarrow> be_val (put_u16 n) = n"
  by (simp add: put_u16_def unat_of_nat take_bit_eq_mod)

lemma length_put_u16 [simp]: "length (put_u16 n) = 2"
  by (simp add: put_u16_def)

lemma be_val_put_u32 [codec]: "n < 256 ^ 4 \<Longrightarrow> be_val (put_u32 n) = n"
proof -
  assume "n < 256 ^ 4"
  then have top: "n div 16777216 < 256" by simp
  have "n = n div 256 * 256 + n mod 256" by simp
  moreover have "n div 256 = n div 65536 * 256 + n div 256 mod 256"
    using div_mult_mod_eq[of "n div 256" 256] by (simp add: div_mult2_eq[symmetric])
  moreover have "n div 65536 = n div 16777216 * 256 + n div 65536 mod 256"
    using div_mult_mod_eq[of "n div 65536" 256] by (simp add: div_mult2_eq[symmetric])
  ultimately have "n div 16777216 * 16777216 +
      (n div 65536 mod 256 * 65536 + (n div 256 mod 256 * 256 + n mod 256)) = n"
    by linarith
  then show ?thesis
    using top by (simp add: put_u32_def unat_of_nat take_bit_eq_mod)
qed

lemma length_put_u32 [simp]: "length (put_u32 n) = 4"
  by (simp add: put_u32_def)

lemma ReadFull_append [codec]: "length xs = n \<Longrightarrow> ReadFull n (xs @ ys) = Some (xs, ys)"
  by (simp add: ReadFull_def)

lemma ReadFull_Some: "ReadFull n s = Some (xs, ys) \<Longrightarrow> s = xs @ ys \<and> length xs = n"
  by (auto simp: ReadFull_def split: if_splits)

lemma ReadFull_None_iff: "ReadFull n s = None \<longleftrightarrow> length s < n"
  by (auto simp: ReadFull_def)

lemma char_byte_roundtrip [simp]: "char_of_byte (byte_of_char c) = c"
  by (simp add: char_of_byte_def byte_of_char_def unat_of_nat take_bit_eq_mod)

lemma byte_char_roundtrip [simp]: "byte_of_char (char_of_byte b) = b"
  by (simp add: char_of_byte_def byte_of_char_def)

lemma string_bytes_roundtrip [simp]: "string_of_bytes (bytes_of_string s) = s"
  by (induction s) (simp_all add: string_of_bytes_def bytes_of_string_def)

lemma length_bytes_of_string [simp]: "length (bytes_of_string s) = length s"
  by (simp add: bytes_of_string_def)

lemma length_string_of_bytes [simp]: "length (string_of_bytes s) = length s"
  by (simp add: string_of_bytes_def)

subsection \<open>Interface: a list of rules\<close>

text \<open>
  The source-IP allow list, the destination allow list, the exempt list of the throttle and
  the anti-spoofing lists of a switch port all decide by the same contract: the subject is
  admitted exactly when some rule of the list matches it.
\<close>

locale rule_list =
  fixes matches :: "'rule \<Rightarrow> 'subject \<Rightarrow> bool"
    and admits :: "'rule list \<Rightarrow> 'subject \<Rightarrow> bool"
  assumes admits_iff: "admits rs x \<longleftrightarrow> (\<exists>r \<in> set rs. matches r x)"
begin

lemma admits_Nil: "\<not> admits [] x"
  by (simp add: admits_iff)

lemma admits_append: "admits (rs @ qs) x \<longleftrightarrow> admits rs x \<or> admits qs x"
  by (auto simp: admits_iff)

lemma admits_mono: "set rs \<subseteq> set qs \<Longrightarrow> admits rs x \<Longrightarrow> admits qs x"
  by (auto simp: admits_iff)

lemma admits_order_irrelevant: "set rs = set qs \<Longrightarrow> admits rs x = admits qs x"
  by (simp add: admits_iff)

end

subsection \<open>Interface: a machine with an invariant\<close>

text \<open>
  A component is a state and an operation per event. When every enabled operation keeps an
  invariant, so does every run; the components instantiate this once and get the run lemma.
\<close>

fun all_enabled ::
    "('event \<Rightarrow> 'state \<Rightarrow> bool) \<Rightarrow> ('event \<Rightarrow> 'state \<Rightarrow> 'state) \<Rightarrow> 'event list \<Rightarrow> 'state \<Rightarrow> bool" where
  "all_enabled en step [] s = True"
| "all_enabled en step (e # es) s = (en e s \<and> all_enabled en step es (step e s))"

lemma all_enabled_True [simp]: "all_enabled (\<lambda>_ _. True) step es s"
  by (induction es arbitrary: s) simp_all

locale invariant_machine =
  fixes step :: "'event \<Rightarrow> 'state \<Rightarrow> 'state"
    and enabled :: "'event \<Rightarrow> 'state \<Rightarrow> bool"
    and inv :: "'state \<Rightarrow> bool"
  assumes step_inv: "inv s \<Longrightarrow> enabled e s \<Longrightarrow> inv (step e s)"
begin

lemma run_inv: "inv s \<Longrightarrow> all_enabled enabled step es s \<Longrightarrow> inv (fold step es s)"
  by (induction es arbitrary: s) (auto simp: step_inv)

lemma run_append:
  "all_enabled enabled step (es @ fs) s \<longleftrightarrow>
     all_enabled enabled step es s \<and> all_enabled enabled step fs (fold step es s)"
  by (induction es arbitrary: s) auto

end

end
