(* ===== verification/Go_Netip.thy ===== *)
theory Go_Netip
  imports Tbox_Prelude
begin

text \<open>
  The part of Go's \<^verbatim>\<open>net/netip\<close> and \<^verbatim>\<open>net\<close> packages that tbox decides with: addresses, prefixes
  and their membership test, the address, prefix and \<^verbatim>\<open>host:port\<close> parsers, and the textual form
  of addresses. An address is a 32-bit or a 128-bit word, the latter with its zone; a
  \<^verbatim>\<open>net.IP\<close> is its byte sequence. The zero \<^verbatim>\<open>netip.Prefix\<close> (the invalid one) is the value
  \<open>None\<close> of an optional prefix where the source uses it.
\<close>

subsection \<open>Addresses and prefixes\<close>

datatype addr = Addr4 "32 word" | Addr6 "128 word" string

datatype prefix = Prefix addr nat

fun BitLen :: "addr \<Rightarrow> nat" where
  "BitLen (Addr4 _) = 32"
| "BitLen (Addr6 _ _) = 128"

fun Is4 :: "addr \<Rightarrow> bool" where
  "Is4 (Addr4 _) = True"
| "Is4 (Addr6 _ _) = False"

fun Is4In6 :: "addr \<Rightarrow> bool" where
  "Is4In6 (Addr4 _) = False"
| "Is4In6 (Addr6 w _) = (drop_bit 32 w = 0xffff)"

fun Unmap :: "addr \<Rightarrow> addr" where
  "Unmap (Addr4 w) = Addr4 w"
| "Unmap (Addr6 w z) = (if Is4In6 (Addr6 w z) then Addr4 (ucast w) else Addr6 w z)"

fun WithoutZone :: "addr \<Rightarrow> addr" where
  "WithoutZone (Addr4 w) = Addr4 w"
| "WithoutZone (Addr6 w _) = Addr6 w []"

text \<open>\<^verbatim>\<open>netip.PrefixFrom\<close>: the zone is dropped, host bits are kept.\<close>

definition PrefixFrom :: "addr \<Rightarrow> nat \<Rightarrow> prefix" where
  "PrefixFrom a b = Prefix (WithoutZone a) b"

text \<open>
  \<^verbatim>\<open>Prefix.Contains\<close>: the families must agree, an address with a zone is in no prefix, and the
  leading bits must be equal.
\<close>

fun Contains :: "prefix \<Rightarrow> addr \<Rightarrow> bool" where
  "Contains (Prefix (Addr4 a) b) (Addr4 x) = (b \<le> 32 \<and> drop_bit (32 - b) (x XOR a) = 0)"
| "Contains (Prefix (Addr6 a _) b) (Addr6 x z) =
     (z = [] \<and> b \<le> 128 \<and> drop_bit (128 - b) (x XOR a) = 0)"
| "Contains _ _ = False"

text \<open>\<^verbatim>\<open>Addr.Prefix(b)\<close>: the prefix of an address with its host bits cleared.\<close>

fun addr_prefix :: "nat \<Rightarrow> addr \<Rightarrow> prefix" where
  "addr_prefix b (Addr4 a) = Prefix (Addr4 (push_bit (32 - b) (drop_bit (32 - b) a))) b"
| "addr_prefix b (Addr6 a _) = Prefix (Addr6 (push_bit (128 - b) (drop_bit (128 - b) a)) []) b"

subsection \<open>Textual form\<close>

definition addr4_bytes :: "32 word \<Rightarrow> bytes" where
  "addr4_bytes w = [ucast (drop_bit 24 w), ucast (drop_bit 16 w), ucast (drop_bit 8 w), ucast w]"

fun join :: "string \<Rightarrow> string list \<Rightarrow> string" where
  "join sep [] = []"
| "join sep [x] = x"
| "join sep (x # y # ys) = x @ sep @ join sep (y # ys)"

definition dotted :: "bytes \<Rightarrow> string" where
  "dotted bs = join ''.'' (map (Itoa \<circ> unat) bs)"

definition hex_char :: "nat \<Rightarrow> char" where
  "hex_char d = (if d < 10 then char_of (48 + d) else char_of (87 + d))"

fun hex_string :: "nat \<Rightarrow> string" where
  "hex_string n = (if n < 16 then [hex_char n] else hex_string (n div 16) @ [hex_char (n mod 16)])"

declare hex_string.simps [simp del]

text \<open>The eight groups of an IPv6 address, and the leftmost longest run of at least two zeros.\<close>

fun groups16 :: "bytes \<Rightarrow> nat list" where
  "groups16 (a # b # rest) = (unat a * 256 + unat b) # groups16 rest"
| "groups16 _ = []"

definition zero_run :: "nat list \<Rightarrow> nat \<Rightarrow> nat" where
  "zero_run gs i = length (takeWhile (\<lambda>g. g = 0) (drop i gs))"

definition best_zero_run :: "nat list \<Rightarrow> (nat \<times> nat) option" where
  "best_zero_run gs = fold (\<lambda>i best.
       let l = zero_run gs i in
       case best of
         None \<Rightarrow> if 2 \<le> l then Some (i, l) else None
       | Some (j, k) \<Rightarrow> if 2 \<le> l \<and> l > k then Some (i, l) else best) [0 ..< length gs] None"

definition v6_string :: "bytes \<Rightarrow> string" where
  "v6_string bs =
     (let gs = groups16 bs in
      case best_zero_run gs of
        None \<Rightarrow> join '':'' (map hex_string gs)
      | Some (i, l) \<Rightarrow>
          join '':'' (map hex_string (take i gs)) @ ''::''
            @ join '':'' (map hex_string (drop (i + l) gs)))"

text \<open>\<^verbatim>\<open>net.IP\<close>: \<open>To4\<close>, \<open>Equal\<close> and \<open>String\<close> on a 4-byte or 16-byte address.\<close>

definition v4in6_prefix :: bytes where
  "v4in6_prefix = replicate 10 0 @ [0xff, 0xff]"

definition To4 :: "bytes \<Rightarrow> bytes option" where
  "To4 ip =
     (if length ip = 4 then Some ip
      else if length ip = 16 \<and> take 12 ip = v4in6_prefix then Some (drop 12 ip)
      else None)"

definition ip_equal :: "bytes \<Rightarrow> bytes \<Rightarrow> bool" where
  "ip_equal x y =
     (if length x = length y then x = y
      else if length x = 4 \<and> length y = 16 then take 12 y = v4in6_prefix \<and> x = drop 12 y
      else if length x = 16 \<and> length y = 4 then take 12 x = v4in6_prefix \<and> drop 12 x = y
      else False)"

definition ip_string :: "bytes \<Rightarrow> string" where
  "ip_string ip =
     (if ip = [] then ''<nil>''
      else case To4 ip of
             Some p4 \<Rightarrow> dotted p4
           | None \<Rightarrow> if length ip = 16 then v6_string ip
                    else ''?'' @ concat (map (\<lambda>b. [hex_char (unat b div 16), hex_char (unat b mod 16)]) ip))"

subsection \<open>Parsing addresses\<close>

text \<open>
  Dotted decimal: exactly four octets, each with at least one digit, no leading zero and a
  value of at most 255.
\<close>

fun parse4_loop :: "nat list \<Rightarrow> nat \<Rightarrow> nat \<Rightarrow> string \<Rightarrow> nat list option" where
  "parse4_loop fs v dig [] = (if dig = 0 \<or> length fs \<noteq> 3 then None else Some (fs @ [v]))"
| "parse4_loop fs v dig (c # cs) =
     (if is_digit c then
        (if dig = 1 \<and> v = 0 then None
         else let v' = v * 10 + digit_val c in
           if v' > 255 then None else parse4_loop fs v' (dig + 1) cs)
      else if c = CHR ''.'' then
        (if dig = 0 \<or> cs = [] \<or> length fs = 3 then None else parse4_loop (fs @ [v]) 0 0 cs)
      else None)"

definition parse4_fields :: "string \<Rightarrow> bytes option" where
  "parse4_fields s = map_option (map of_nat) (parse4_loop [] 0 0 s)"

definition word_of_bytes :: "bytes \<Rightarrow> 'a::len word" where
  "word_of_bytes bs = of_nat (be_val bs)"

definition parseIPv4 :: "string \<Rightarrow> addr option" where
  "parseIPv4 s = map_option (\<lambda>bs. Addr4 (word_of_bytes bs)) (parse4_fields s)"

definition hex_val :: "char \<Rightarrow> nat option" where
  "hex_val c =
     (let n = (of_char c :: nat) in
      if 48 \<le> n \<and> n \<le> 57 then Some (n - 48)
      else if 97 \<le> n \<and> n \<le> 102 then Some (n - 87)
      else if 65 \<le> n \<and> n \<le> 70 then Some (n - 55)
      else None)"

fun hex_loop :: "nat \<Rightarrow> nat \<Rightarrow> string \<Rightarrow> (nat \<times> nat \<times> string) option" where
  "hex_loop off acc [] = Some (acc, off, [])"
| "hex_loop off acc (c # cs) =
     (case hex_val c of
        None \<Rightarrow> Some (acc, off, c # cs)
      | Some d \<Rightarrow> let acc' = acc * 16 + d in
          if off > 3 \<or> acc' > 65535 then None else hex_loop (off + 1) acc' cs)"

function v6_loop :: "bytes \<Rightarrow> nat option \<Rightarrow> string \<Rightarrow> (bytes \<times> nat option \<times> string) option" where
  "v6_loop bs ell s =
     (if length bs \<ge> 16 then Some (bs, ell, s)
      else case hex_loop 0 0 s of
        None \<Rightarrow> None
      | Some (acc, off, rest) \<Rightarrow>
          if off = 0 then None
          else if HasPrefix rest ''.'' then
            (if ell = None \<and> length bs \<noteq> 12 then None
             else if length bs + 4 > 16 then None
             else case parse4_fields s of
                    None \<Rightarrow> None
                  | Some fs \<Rightarrow> Some (bs @ fs, ell, []))
          else (let bs' = bs @ put_u16 acc in
            case rest of
              [] \<Rightarrow> Some (bs', ell, [])
            | c # cs \<Rightarrow>
                if c \<noteq> CHR '':'' then None
                else (case cs of
                    [] \<Rightarrow> None
                  | d # ds \<Rightarrow>
                      if d = CHR '':'' then
                        (if ell \<noteq> None then None
                         else if ds = [] then Some (bs', Some (length bs'), [])
                         else v6_loop bs' (Some (length bs')) ds)
                      else v6_loop bs' ell cs)))"
  by pat_completeness auto
termination
  by (relation "measure (\<lambda>(bs, _, _). 16 - length bs)") auto

declare v6_loop.simps [simp del]

definition parseIPv6 :: "string \<Rightarrow> addr option" where
  "parseIPv6 s0 =
     (case (case IndexByte s0 (CHR ''%'') of
              None \<Rightarrow> Some (s0, [])
            | Some i \<Rightarrow> if drop (i + 1) s0 = [] then None else Some (take i s0, drop (i + 1) s0)) of
        None \<Rightarrow> None
      | Some (s, zone) \<Rightarrow>
          if s = ''::'' then Some (Addr6 0 zone)
          else (case (if HasPrefix s ''::'' then v6_loop [] (Some 0) (drop 2 s) else v6_loop [] None s) of
              None \<Rightarrow> None
            | Some (bs, ell, rest) \<Rightarrow>
                if rest \<noteq> [] then None
                else if length bs < 16 then
                  (case ell of
                     None \<Rightarrow> None
                   | Some e \<Rightarrow>
                       Some (Addr6 (word_of_bytes (take e bs @ replicate (16 - length bs) 0 @ drop e bs)) zone))
                else if ell \<noteq> None then None
                else Some (Addr6 (word_of_bytes bs) zone)))"

text \<open>\<^verbatim>\<open>netip.ParseAddr\<close>: the first separator decides the family.\<close>

fun first_separator :: "string \<Rightarrow> char option" where
  "first_separator [] = None"
| "first_separator (c # cs) =
     (if c \<in> {CHR ''.'', CHR '':'', CHR ''%''} then Some c else first_separator cs)"

definition ParseAddr :: "string \<Rightarrow> addr option" where
  "ParseAddr s =
     (case first_separator s of
        None \<Rightarrow> None
      | Some c \<Rightarrow>
          if c = CHR ''.'' then parseIPv4 s
          else if c = CHR '':'' then parseIPv6 s
          else None)"

text \<open>\<^verbatim>\<open>netip.ParsePrefix\<close>: no zone, no sign and no leading zero in the length.\<close>

definition ParsePrefix :: "string \<Rightarrow> prefix option" where
  "ParsePrefix s =
     (case LastIndexByte s (CHR ''/'') of
        None \<Rightarrow> None
      | Some i \<Rightarrow>
          (case ParseAddr (take i s) of
             None \<Rightarrow> None
           | Some a \<Rightarrow>
               let bits = drop (i + 1) s in
               if WithoutZone a \<noteq> a then None
               else if bits = [] \<or> (length bits > 1 \<and> hd bits = CHR ''0'') then None
               else (case ParseUint 63 bits of
                       (n, None) \<Rightarrow> if n > BitLen a then None else Some (PrefixFrom a n)
                     | (n, Some _) \<Rightarrow> None)))"

subsection \<open>Host and port\<close>

text \<open>\<^verbatim>\<open>net.SplitHostPort\<close>.\<close>

datatype split_error = MissingPort | TooManyColons | BadBracket

definition SplitHostPort :: "string \<Rightarrow> split_error + (string \<times> string)" where
  "SplitHostPort hp =
     (case LastIndexByte hp (CHR '':'') of
        None \<Rightarrow> Inl MissingPort
      | Some i \<Rightarrow>
          (case (if HasPrefix hp ''['' then
                   (case IndexByte hp (CHR '']'') of
                      None \<Rightarrow> Inl BadBracket
                    | Some e \<Rightarrow>
                        if e + 1 = length hp then Inl MissingPort
                        else if e + 1 = i then Inr (take (e - 1) (drop 1 hp), 1, e + 1)
                        else if hp ! (e + 1) = CHR '':'' then Inl TooManyColons
                        else Inl MissingPort)
                 else if CHR '':'' \<in> set (take i hp) then Inl TooManyColons
                 else Inr (take i hp, 0, 0)) of
             Inl e \<Rightarrow> Inl e
           | Inr (host, j, k) \<Rightarrow>
               if CHR ''['' \<in> set (drop j hp) then Inl BadBracket
               else if CHR '']'' \<in> set (drop k hp) then Inl BadBracket
               else Inr (host, drop (i + 1) hp)))"

text \<open>
  The idiom the sources use on a remote address: the host part when the text splits, the
  whole text otherwise, parsed as an address.
\<close>

definition host_part :: "string \<Rightarrow> string" where
  "host_part s = (case SplitHostPort s of Inl _ \<Rightarrow> s | Inr (h, _) \<Rightarrow> h)"

definition addr_of_hostport :: "string \<Rightarrow> addr option" where
  "addr_of_hostport s = ParseAddr (host_part s)"

subsection \<open>\<^verbatim>\<open>net.IP\<close>, masks and networks\<close>

definition addr6_bytes :: "128 word \<Rightarrow> bytes" where
  "addr6_bytes w = map (\<lambda>i. ucast (drop_bit (8 * (15 - i)) w)) [0 ..< 16]"

text \<open>\<^verbatim>\<open>net.ParseIP\<close>: the 16-byte form, none for a malformed address or one with a zone.\<close>

definition ParseIP :: "string \<Rightarrow> bytes option" where
  "ParseIP s =
     (case ParseAddr s of
        None \<Rightarrow> None
      | Some (Addr4 w) \<Rightarrow> Some (v4in6_prefix @ addr4_bytes w)
      | Some (Addr6 w z) \<Rightarrow> if z = [] then Some (addr6_bytes w) else None)"

record ipnet =
  net_ip :: bytes
  net_mask :: bytes

definition map2_bytes :: "(byte \<Rightarrow> byte \<Rightarrow> byte) \<Rightarrow> bytes \<Rightarrow> bytes \<Rightarrow> bytes" where
  "map2_bytes f xs ys = map (\<lambda>(x, y). f x y) (zip xs ys)"

text \<open>\<^verbatim>\<open>IP.Mask\<close>: \<open>[]\<close> is nil.\<close>

definition ip_mask :: "bytes \<Rightarrow> bytes \<Rightarrow> bytes" where
  "ip_mask ip0 mask0 =
     (let mask = (if length mask0 = 16 \<and> length ip0 = 4 \<and> take 12 mask0 = replicate 12 0xff
                  then drop 12 mask0 else mask0);
          ip = (if length mask = 4 \<and> length ip0 = 16 \<and> take 12 ip0 = v4in6_prefix
                then drop 12 ip0 else ip0)
      in if length ip \<noteq> length mask then [] else map2_bytes (AND) ip mask)"

text \<open>\<^verbatim>\<open>IPNet.Contains\<close>, with \<^verbatim>\<open>networkNumberAndMask\<close> inlined.\<close>

definition net_number_mask :: "ipnet \<Rightarrow> bytes \<times> bytes" where
  "net_number_mask n =
     (let ip = (case To4 (net_ip n) of Some x \<Rightarrow> x | None \<Rightarrow> net_ip n) in
      if To4 (net_ip n) = None \<and> length ip \<noteq> 16 then ([], [])
      else if length (net_mask n) = 4 then
        (if length ip \<noteq> 4 then ([], []) else (ip, net_mask n))
      else if length (net_mask n) = 16 then
        (if length ip = 4 then (ip, drop 12 (net_mask n)) else (ip, net_mask n))
      else ([], []))"

definition net_Contains :: "ipnet \<Rightarrow> bytes \<Rightarrow> bool" where
  "net_Contains n ip0 =
     (let (nn, m) = net_number_mask n;
          ip = (case To4 ip0 of Some x \<Rightarrow> x | None \<Rightarrow> ip0)
      in length ip = length nn \<and> map2_bytes (AND) nn m = map2_bytes (AND) ip m)"

text \<open>\<^verbatim>\<open>net.CIDRMask\<close> and \<^verbatim>\<open>net.ParseCIDR\<close> (which reads leading zeros in the length).\<close>

fun mask_bytes :: "nat \<Rightarrow> nat \<Rightarrow> bytes" where
  "mask_bytes 0 ones = []"
| "mask_bytes (Suc n) ones =
     (if ones \<ge> 8 then 0xff # mask_bytes n (ones - 8)
      else NOT (drop_bit ones 0xff) # mask_bytes n 0)"

definition CIDRMask :: "nat \<Rightarrow> nat \<Rightarrow> bytes" where
  "CIDRMask ones bits = mask_bytes (bits div 8) ones"

definition ParseCIDR :: "string \<Rightarrow> (bytes \<times> ipnet) option" where
  "ParseCIDR s =
     (case IndexByte s (CHR ''/'') of
        None \<Rightarrow> None
      | Some i \<Rightarrow>
          (case ParseAddr (take i s) of
             None \<Rightarrow> None
           | Some a \<Rightarrow>
               if WithoutZone a \<noteq> a then None
               else (case ParseUint 24 (drop (i + 1) s) of
                   (n, Some _) \<Rightarrow> None
                 | (n, None) \<Rightarrow>
                     if n > BitLen a then None
                     else let ip16 = (case a of Addr4 w \<Rightarrow> v4in6_prefix @ addr4_bytes w
                                              | Addr6 w _ \<Rightarrow> addr6_bytes w);
                              m = CIDRMask n (BitLen a)
                          in Some (ip16, \<lparr>net_ip = ip_mask ip16 m, net_mask = m\<rparr>))))"

subsection \<open>Lemmas: membership\<close>

lemma xor_eq_0_iff [simp]: "x XOR a = 0 \<longleftrightarrow> x = a" for x a :: "'a::len word"
proof
  assume "x XOR a = 0"
  then have "(x XOR a) XOR a = 0 XOR a" by simp
  then show "x = a" by (simp add: xor.assoc)
qed simp

lemma Contains4_iff:
  "Contains (Prefix (Addr4 a) b) (Addr4 x) \<longleftrightarrow> b \<le> 32 \<and> drop_bit (32 - b) x = drop_bit (32 - b) a"
  by simp

lemma Contains6_iff:
  "Contains (Prefix (Addr6 a z') b) (Addr6 x z) \<longleftrightarrow>
     z = [] \<and> b \<le> 128 \<and> drop_bit (128 - b) x = drop_bit (128 - b) a"
  by simp

text \<open>A prefix of full length holds exactly its address.\<close>

lemma Contains_full4: "Contains (PrefixFrom (Addr4 a) 32) y \<longleftrightarrow> y = Addr4 a"
  by (cases y) (auto simp: PrefixFrom_def)

lemma Contains_full6: "Contains (PrefixFrom (Addr6 a z) 128) y \<longleftrightarrow> y = Addr6 a []"
  by (cases y) (auto simp: PrefixFrom_def)

lemma Contains_same_family: "Contains (Prefix p b) y \<Longrightarrow> Is4 p = Is4 y"
  by (cases p; cases y) auto

lemma Unmap_not_4in6: "\<not> Is4In6 (Unmap a)"
  by (cases a) auto

lemma Unmap_idem [simp]: "Unmap (Unmap a) = Unmap a"
  by (cases a) auto

text \<open>Two addresses have the same prefix exactly when each is in the other's prefix.\<close>

lemma drop_push_drop [simp]:
  fixes a :: "'a::len word"
  shows "drop_bit n (push_bit n (drop_bit n a)) = drop_bit n a"
  by (rule bit_word_eqI) (auto simp: bit_simps dest: bit_imp_le_length)

lemma push_drop_inject:
  fixes a x :: "'a::len word"
  shows "push_bit n (drop_bit n x) = push_bit n (drop_bit n a) \<longleftrightarrow> drop_bit n x = drop_bit n a"
  by (metis drop_push_drop)

lemma addr_prefix4_contains:
  assumes "b \<le> 32"
  shows "Contains (addr_prefix b (Addr4 a)) y \<longleftrightarrow>
    (\<exists>x. y = Addr4 x \<and> addr_prefix b (Addr4 x) = addr_prefix b (Addr4 a))"
  using assms by (cases y) (simp_all add: push_drop_inject)

subsection \<open>Lemmas: dotted decimal\<close>

text \<open>
  Reading back an octet: its decimal form is scanned to its value and leaves the scanner
  with at least one digit seen.
\<close>

lemma Itoa_snoc: "0 < n \<Longrightarrow> d < 10 \<Longrightarrow> Itoa (n * 10 + d) = Itoa n @ [digit_char d]"
  by (subst Itoa.simps) auto

lemma Itoa_digit: "n < 10 \<Longrightarrow> Itoa n = [digit_char n]"
  by (subst Itoa.simps) simp

lemma octet_cases:
  fixes n :: nat
  assumes "n < 256"
  obtains (one) "n < 10"
  | (two) d e where "n = d * 10 + e" "0 < d" "d < 10" "e < 10"
  | (three) c d e where "n = (c * 10 + d) * 10 + e" "0 < c" "c < 10" "d < 10" "e < 10"
proof -
  have n: "n = n div 10 * 10 + n mod 10" by simp
  have m: "n div 10 = n div 10 div 10 * 10 + n div 10 mod 10" by simp
  consider "n < 10" | "10 \<le> n" "n < 100" | "100 \<le> n" by linarith
  then show thesis
  proof cases
    case 1
    then show ?thesis by (rule one)
  next
    case 2
    then show ?thesis by (intro two[OF n]) linarith+
  next
    case 3
    have h: "n div 10 div 10 = n div 100" by (simp add: div_mult2_eq[symmetric])
    have "0 < n div 100" "n div 100 < 10" using 3 assms by linarith+
    then show ?thesis
      by (intro three[of "n div 10 div 10" "n div 10 mod 10" "n mod 10"]) (simp_all add: h[symmetric])
  qed
qed

lemma parse4_loop_octet:
  assumes "n < 256"
  shows "parse4_loop fs 0 0 (Itoa n @ rest) = parse4_loop fs n (length (Itoa n)) rest"
  using assms
proof (cases n rule: octet_cases)
  case one
  then show ?thesis by (simp add: Itoa_digit)
next
  case (two d e)
  then show ?thesis using assms by (simp add: Itoa_snoc Itoa_digit Let_def)
next
  case (three c d e)
  then have "c * 10 + d \<le> 255" using assms by linarith
  moreover have "Itoa n = [digit_char c, digit_char d, digit_char e]"
    unfolding three(1) using three(2-) by (subst Itoa_snoc; simp add: Itoa_snoc Itoa_digit)
  ultimately show ?thesis using three assms by (simp add: Let_def)
qed

lemma parse4_fields_dotted [codec]:
  assumes "length bs = 4"
  shows "parse4_fields (dotted bs) = Some bs"
proof -
  from assms obtain a b c d where bs: "bs = [a, b, c, d]"
    by (auto simp: length_Suc_conv numeral_eq_Suc)
  have dot: "\<not> is_digit (CHR ''.'')" by (simp add: is_digit_def)
  have "parse4_loop [] 0 0 (dotted bs) = Some [unat a, unat b, unat c, unat d]"
    using parse4_loop_octet[of "unat d" "[unat a, unat b, unat c]" "[]"]
    by (simp add: bs dotted_def parse4_loop_octet dot)
  then show ?thesis by (simp add: parse4_fields_def bs)
qed

lemma dotted_inject:
  "length xs = 4 \<Longrightarrow> length ys = 4 \<Longrightarrow> dotted xs = dotted ys \<Longrightarrow> xs = ys"
  by (drule arg_cong[of _ _ parse4_fields]) (simp add: parse4_fields_dotted)

lemma not_digit [simp]:
  "\<not> is_digit (CHR ''.'')" "\<not> is_digit (CHR '':'')" "\<not> is_digit (CHR ''%'')"
  by (simp_all add: is_digit_def)

lemma first_separator_skip:
  "(\<And>c. c \<in> set xs \<Longrightarrow> is_digit c) \<Longrightarrow> first_separator (xs @ CHR ''.'' # ys) = Some (CHR ''.'')"
proof (induction xs)
  case Nil
  then show ?case by simp
next
  case (Cons x xs)
  then have "is_digit x" by simp
  then have "x \<notin> {CHR ''.'', CHR '':'', CHR ''%''}" using not_digit by blast
  with Cons show ?case by simp
qed

lemma first_separator_dotted:
  assumes "length bs = 4"
  shows "first_separator (dotted bs) = Some (CHR ''.'')"
proof -
  from assms obtain a b c d where "bs = [a, b, c, d]"
    by (auto simp: length_Suc_conv numeral_eq_Suc)
  then show ?thesis
    using first_separator_skip[of "Itoa (unat a)"] by (simp add: dotted_def Itoa_digits)
qed

lemma ParseAddr_dotted [codec]:
  "length bs = 4 \<Longrightarrow> ParseAddr (dotted bs) = Some (Addr4 (word_of_bytes bs))"
  by (simp add: ParseAddr_def first_separator_dotted parseIPv4_def parse4_fields_dotted)

lemma length_addr4_bytes [simp]: "length (addr4_bytes w) = 4"
  by (simp add: addr4_bytes_def)

lemma dotted_nonempty [simp]: "length bs = 4 \<Longrightarrow> dotted bs \<noteq> []"
  using first_separator_dotted[of bs] by auto

lemma ip_string_4 [simp]: "length ip = 4 \<Longrightarrow> ip_string ip = dotted ip"
  by (auto simp: ip_string_def To4_def)

subsection \<open>Lemmas: \<^verbatim>\<open>net.IP\<close>\<close>

lemma of_nat_div_byte: "(of_nat (n div 2 ^ k) :: byte) = of_nat (n div 2 ^ k mod 256)"
  by (rule word_unat_eq_iff[THEN iffD2]) (simp add: unat_of_nat take_bit_eq_mod)

lemma ucast_drop_of_nat:
  assumes "n < 2 ^ 32"
  shows "ucast (drop_bit k (of_nat n :: 32 word)) = (of_nat (n div 2 ^ k) :: byte)"
proof -
  have u: "unat (of_nat n :: 32 word) = n" using assms by (simp add: unat_of_nat take_bit_eq_mod)
  have "unat (drop_bit k (of_nat n :: 32 word)) = n div 2 ^ k"
    unfolding unat_drop_bit_eq u by (rule drop_bit_eq_div)
  then show ?thesis by (metis of_nat_unat)
qed

lemma addr4_bytes_word_of_bytes [codec]:
  assumes "length bs = 4"
  shows "addr4_bytes (word_of_bytes bs) = bs"
proof -
  let ?w = "addr4_bytes (word_of_bytes bs)"
  have b: "be_val bs < 2 ^ 32" using be_val_bound[of bs] assms by simp
  have e: "?w = put_u32 (be_val bs)"
    using ucast_drop_of_nat[OF b, of 24] ucast_drop_of_nat[OF b, of 16]
      ucast_drop_of_nat[OF b, of 8] ucast_drop_of_nat[OF b, of 0]
    by (simp add: addr4_bytes_def word_of_bytes_def put_u32_def)
  show ?thesis
    using assms b by (intro be_val_inject) (simp_all add: e be_val_put_u32)
qed

lemma ParseIP_dotted [codec]: "length bs = 4 \<Longrightarrow> ParseIP (dotted bs) = Some (v4in6_prefix @ bs)"
  by (simp add: ParseIP_def ParseAddr_dotted addr4_bytes_word_of_bytes)

lemma length_v4in6_prefix [simp]: "length v4in6_prefix = 12"
  by (simp add: v4in6_prefix_def)

lemma To4_Some: "To4 ip = Some q \<Longrightarrow> length q = 4 \<and> ip_string ip = dotted q"
  by (auto simp: To4_def ip_string_def split: if_splits)

lemma ip_equal_mapped:
  "length p = 4 \<Longrightarrow> To4 ip = Some q \<Longrightarrow> ip_equal (v4in6_prefix @ p) ip \<longleftrightarrow> p = q"
  by (auto simp: To4_def ip_equal_def split: if_splits) (metis append_take_drop_id)

end
