(* ===== verification/DhcpServer.thy ===== *)
theory DhcpServer
  imports Go_Netip
begin

text \<open>
  \<^verbatim>\<open>internal/dhcpserver/server.go\<close>: the embedded DHCPv4 server, the sole authority that hands
  out addresses of the virtual segment. The three maps of the server are \<open>used\<close> (only \<open>true\<close> is
  ever stored, so it is a predicate), \<open>byChid\<close> and \<open>expiry\<close>. Every handler is one atomic step
  under the mutex and reads the clock once, at \<open>now\<close>. The message library is outside the
  repository: a request is what its accessors return, a reply is the list of what the source
  puts into it, and \<open>lib_err\<close> is the error \<^verbatim>\<open>NewReplyFromRequest\<close> returns on this call, if any.
  A nil \<^verbatim>\<open>net.IP\<close> is \<open>[]\<close>.
\<close>

subsection \<open>State and messages\<close>

record config =
  Iface :: string
  Pool :: "ipnet option" \<comment> \<open>a pointer that may be nil\<close>
  Gateway :: bytes
  LeaseTime :: time
  OfferDefaultRoute :: bool

record server =
  pool :: ipnet
  gateway :: bytes
  leaseTime :: time
  offerDefaultRoute :: bool
  used :: "string \<Rightarrow> bool"
  byChid :: "string \<rightharpoonup> string"
  expiry :: "string \<rightharpoonup> time"

datatype message_type = Discover | Request | Release | Decline | OtherMessage

record request =
  MessageType :: message_type
  ClientHWAddr :: bytes
  RequestedIPAddress :: bytes
  ClientIPAddr :: bytes

datatype reply_type = Offer | Ack | Nak

record reply =
  reply_kind :: reply_type
  yourIP :: bytes
  serverIdentifier :: bytes
  subnetMask :: bytes
  leaseSeconds :: "32 word"
  router :: "bytes option"
  message :: string

datatype new_error = NilPool | NilGateway

definition hour :: time where "hour = 3600 * 10 ^ 9"

definition New :: "config \<Rightarrow> new_error + server" where
  "New cfg =
     (case Pool cfg of
        None \<Rightarrow> Inl NilPool
      | Some n \<Rightarrow>
          if Gateway cfg = [] then Inl NilGateway
          else Inr \<lparr>pool = n, gateway = Gateway cfg,
                    leaseTime = (if LeaseTime cfg = 0 then hour else LeaseTime cfg),
                    offerDefaultRoute = OfferDefaultRoute cfg,
                    used = (\<lambda>_. False), byChid = Map.empty, expiry = Map.empty\<rparr>)"

subsection \<open>Addresses of the pool\<close>

text \<open>\<^verbatim>\<open>incIP\<close>: the carry runs from the last byte to the first.\<close>

fun incIP_rev :: "bytes \<Rightarrow> bytes" where
  "incIP_rev [] = []"
| "incIP_rev (b # bs) = (if b + 1 \<noteq> 0 then (b + 1) # bs else (b + 1) # incIP_rev bs)"

definition incIP :: "bytes \<Rightarrow> bytes" where
  "incIP ip = rev (incIP_rev (rev ip))"

definition broadcast :: "ipnet \<Rightarrow> bytes" where
  "broadcast n = map2_bytes (\<lambda>i m. i OR NOT m) (ip_mask (net_ip n) (net_mask n)) (net_mask n)"

subsection \<open>Leases\<close>

definition expired :: "time \<Rightarrow> server \<Rightarrow> string \<Rightarrow> bool" where
  "expired now s ip = (case expiry s ip of None \<Rightarrow> True | Some t \<Rightarrow> now > t)"

text \<open>A map read in Go: the zero value for an absent key.\<close>

definition chid_lease :: "server \<Rightarrow> string \<Rightarrow> string" where
  "chid_lease s c = (case byChid s c of None \<Rightarrow> '''' | Some v \<Rightarrow> v)"

definition free_lease :: "string \<Rightarrow> server \<Rightarrow> server" where
  "free_lease ip s = s\<lparr>used := (used s)(ip := False), expiry := (expiry s)(ip := None)\<rparr>"

definition unbind_ip :: "string \<Rightarrow> server \<Rightarrow> server" where
  "unbind_ip ip s = s\<lparr>byChid := (\<lambda>c. if byChid s c = Some ip then None else byChid s c)\<rparr>"

definition unbind_chid :: "string \<Rightarrow> server \<Rightarrow> server" where
  "unbind_chid c s = s\<lparr>byChid := (byChid s)(c := None)\<rparr>"

definition commit :: "time \<Rightarrow> string \<Rightarrow> string \<Rightarrow> server \<Rightarrow> server" where
  "commit now chid ip s =
     s\<lparr>used := (used s)(ip := True), byChid := (byChid s)(chid \<mapsto> ip),
       expiry := (expiry s)(ip \<mapsto> now + leaseTime s)\<rparr>"

text \<open>
  The scan of \<^verbatim>\<open>allocLocked\<close>. The source loops until an address leaves the pool or is the
  broadcast address; \<open>alloc_scan\<close> is that loop with fuel (\<open>None\<close> when it runs out), and the fuel
  given below is the number of addresses of the pool's width.
\<close>

fun alloc_scan :: "nat \<Rightarrow> time \<Rightarrow> bytes \<Rightarrow> bytes \<Rightarrow> server \<Rightarrow> (bytes option \<times> server) option" where
  "alloc_scan 0 now bcast ip s = None"
| "alloc_scan (Suc fuel) now bcast ip0 s =
     (let ip = incIP ip0; sip = ip_string ip in
      if \<not> net_Contains (pool s) ip \<or> ip_equal ip bcast then Some (None, s)
      else if sip = ip_string (gateway s) then alloc_scan fuel now bcast ip s
      else if used s sip \<and> \<not> expired now s sip then alloc_scan fuel now bcast ip s
      else if used s sip then Some (Some ip, unbind_ip sip (free_lease sip s))
      else Some (Some ip, s))"

definition pool_network :: "ipnet \<Rightarrow> bytes" where
  "pool_network n = ip_mask (net_ip n) (net_mask n)"

definition allocLocked :: "time \<Rightarrow> server \<Rightarrow> bytes option \<times> server" where
  "allocLocked now s =
     (let network = pool_network (pool s) in
      case alloc_scan (256 ^ length network) now (broadcast (pool s)) network s of
        Some r \<Rightarrow> r
      | None \<Rightarrow> (None, s))"

definition drop_stale :: "string \<Rightarrow> string \<Rightarrow> server \<Rightarrow> server" where
  "drop_stale chid old s = unbind_chid chid (free_lease old s)"

definition allocFor :: "time \<Rightarrow> string \<Rightarrow> bytes \<Rightarrow> server \<Rightarrow> bytes option \<times> server" where
  "allocFor now chid requested s0 =
     (let old = chid_lease s0 chid in
      if old \<noteq> '''' \<and> \<not> expired now s0 old then (ParseIP old, s0)
      else
        let s = (if old \<noteq> '''' then drop_stale chid old s0 else s0);
            (ip, s1) = (if requested \<noteq> [] \<and> To4 requested \<noteq> None \<and> net_Contains (pool s) requested
                          \<and> \<not> used s (ip_string requested)
                        then (Some requested, s) else allocLocked now s)
        in case ip of
             None \<Rightarrow> (None, s1)
           | Some a \<Rightarrow> (Some a, commit now chid (ip_string a) s1))"

subsection \<open>Handlers\<close>

definition hex_byte :: "byte \<Rightarrow> string" where
  "hex_byte b = [hex_char (unat b div 16), hex_char (unat b mod 16)]"

text \<open>\<^verbatim>\<open>net.HardwareAddr.String\<close>.\<close>

definition hwaddr_string :: "bytes \<Rightarrow> string" where
  "hwaddr_string hw = join '':'' (map hex_byte hw)"

definition chid_of :: "request \<Rightarrow> string" where
  "chid_of req = hwaddr_string (ClientHWAddr req)"

definition lease_seconds :: "time \<Rightarrow> 32 word" where
  "lease_seconds t = of_int (t div 10 ^ 9)"

definition lease_reply :: "reply_type \<Rightarrow> bytes \<Rightarrow> server \<Rightarrow> reply" where
  "lease_reply k ip s =
     \<lparr>reply_kind = k, yourIP = ip, serverIdentifier = gateway s, subnetMask = net_mask (pool s),
      leaseSeconds = lease_seconds (leaseTime s),
      router = (if offerDefaultRoute s then Some (gateway s) else None), message = ''''\<rparr>"

type_synonym outcome = "server \<times> (string + reply option)"

definition finish :: "string option \<Rightarrow> reply \<Rightarrow> server \<Rightarrow> outcome" where
  "finish lib_err r s = (case lib_err of Some e \<Rightarrow> (s, Inl e) | None \<Rightarrow> (s, Inr (Some r)))"

definition nak :: "string option \<Rightarrow> string \<Rightarrow> server \<Rightarrow> outcome" where
  "nak lib_err msg s =
     finish lib_err \<lparr>reply_kind = Nak, yourIP = [], serverIdentifier = gateway s, subnetMask = [],
                     leaseSeconds = 0, router = None, message = msg\<rparr> s"

definition buildOffer :: "string option \<Rightarrow> time \<Rightarrow> request \<Rightarrow> server \<Rightarrow> outcome" where
  "buildOffer lib_err now req s =
     (case allocFor now (chid_of req) (RequestedIPAddress req) s of
        (None, s1) \<Rightarrow> (s1, Inr None)
      | (Some ip, s1) \<Rightarrow> finish lib_err (lease_reply Offer ip s1) s1)"

text \<open>
  \<^verbatim>\<open>buildACK\<close>: \<open>ack_choice\<close> is the part under the mutex, up to the chosen address; it ends in a
  refusal or in the address to commit.
\<close>

definition wanted :: "request \<Rightarrow> bytes" where
  "wanted req = (if RequestedIPAddress req = [] then ClientIPAddr req else RequestedIPAddress req)"

definition is_ip4 :: "bytes \<Rightarrow> bool" where
  "is_ip4 ip \<longleftrightarrow> ip \<noteq> [] \<and> To4 ip \<noteq> None"

text \<open>\<^verbatim>\<open>net.ParseIP(current).Equal(want)\<close>, where a failed parse gives nil.\<close>

definition same_ip :: "string \<Rightarrow> bytes \<Rightarrow> bool" where
  "same_ip current want = ip_equal (case ParseIP current of None \<Rightarrow> [] | Some p \<Rightarrow> p) want"

definition ack_choice :: "time \<Rightarrow> request \<Rightarrow> server \<Rightarrow> (string + string) \<times> server" where
  "ack_choice now req s =
     (let want = wanted req; current = chid_lease s (chid_of req) in
      if is_ip4 want \<and> \<not> net_Contains (pool s) want then (Inl ''requested IP out of pool'', s)
      else if current = '''' then
        (if is_ip4 want \<and> \<not> used s (ip_string want) then (Inr (ip_string want), s)
         else (case allocLocked now s of
                 (None, s1) \<Rightarrow> (Inl ''pool exhausted'', s1)
               | (Some ip, s1) \<Rightarrow> (Inr (ip_string ip), s1)))
      else if is_ip4 want \<and> \<not> same_ip current want then
        (if used s (ip_string want) \<and> \<not> expired now s (ip_string want)
         then (Inl ''requested IP unavailable'', s)
         else (Inr (ip_string want), free_lease current s))
      else (Inr current, s))"

definition buildACK :: "string option \<Rightarrow> time \<Rightarrow> request \<Rightarrow> server \<Rightarrow> outcome" where
  "buildACK lib_err now req s =
     (case ack_choice now req s of
        (Inl msg, s1) \<Rightarrow> nak lib_err msg s1
      | (Inr current, s1) \<Rightarrow>
          let s2 = commit now (chid_of req) current s1;
              ip = (case ParseIP current of None \<Rightarrow> [] | Some p \<Rightarrow> p)
          in finish lib_err (lease_reply Ack ip s2) s2)"

definition release :: "bytes \<Rightarrow> server \<Rightarrow> server" where
  "release hw s =
     (let chid = hwaddr_string hw; ip = chid_lease s chid in
      if ip = '''' then s else unbind_chid chid (free_lease ip s))"

definition releaseIP :: "string \<Rightarrow> server \<Rightarrow> server" where
  "releaseIP ip s = (if \<not> used s ip then s else unbind_ip ip (free_lease ip s))"

definition buildReply :: "string option \<Rightarrow> time \<Rightarrow> request \<Rightarrow> server \<Rightarrow> outcome" where
  "buildReply lib_err now req s =
     (case MessageType req of
        Discover \<Rightarrow> buildOffer lib_err now req s
      | Request \<Rightarrow> buildACK lib_err now req s
      | Release \<Rightarrow> (release (ClientHWAddr req) s, Inr None)
      | Decline \<Rightarrow>
          (if RequestedIPAddress req \<noteq> [] then releaseIP (ip_string (RequestedIPAddress req)) s else s,
           Inr None)
      | OtherMessage \<Rightarrow> (s, Inr None))"

text \<open>\<^verbatim>\<open>handle\<close>: an error is logged, a nil reply is silence; the value is what is written back.\<close>

definition handle :: "string option \<Rightarrow> time \<Rightarrow> request \<Rightarrow> server \<Rightarrow> server \<times> reply option" where
  "handle lib_err now req s =
     (case buildReply lib_err now req s of
        (s1, Inl _) \<Rightarrow> (s1, None)
      | (s1, Inr r) \<Rightarrow> (s1, r))"

subsection \<open>Lemmas: counting through the pool\<close>

lemma incIP_Nil [simp]: "incIP [] = []"
  by (simp add: incIP_def)

lemma incIP_snoc:
  "incIP (xs @ [b]) = (if b + 1 \<noteq> 0 then xs @ [b + 1] else incIP xs @ [0])"
  by (auto simp: incIP_def)

lemma length_incIP_rev [simp]: "length (incIP_rev bs) = length bs"
  by (induction bs) auto

lemma length_incIP [simp]: "length (incIP ip) = length ip"
  by (simp add: incIP_def)

lemma unat_byte_Suc: "b + 1 \<noteq> 0 \<Longrightarrow> unat (b + 1 :: byte) = unat b + 1"
  by (metis add.commute unatSuc Suc_eq_plus1)

lemma unat_byte_wrap: "b + 1 = 0 \<Longrightarrow> unat (b :: byte) = 255"
proof -
  assume "b + 1 = 0"
  then have "b = - 1" by (simp add: eq_neg_iff_add_eq_0)
  then show ?thesis by (simp add: unsigned_minus_1_eq_mask mask_eq_exp_minus_1)
qed

lemma be_val_incIP: "be_val (incIP ip) = (be_val ip + 1) mod 256 ^ length ip"
proof (induction ip rule: rev_induct)
  case Nil
  then show ?case by simp
next
  case (snoc b xs)
  have bound: "be_val xs < 256 ^ length xs" by (rule be_val_bound)
  show ?case
  proof (cases "b + 1 = 0")
    case True
    have "be_val (incIP (xs @ [b])) = (be_val xs + 1) mod 256 ^ length xs * 256"
      using True snoc by (simp add: incIP_snoc be_val_append)
    also have "\<dots> = ((be_val xs + 1) * 256) mod (256 ^ length xs * 256)"
      by (simp only: mult_mod_left)
    also have "\<dots> = (be_val (xs @ [b]) + 1) mod 256 ^ length (xs @ [b])"
      using unat_byte_wrap[OF True] by (simp add: be_val_append algebra_simps)
    finally show ?thesis .
  next
    case False
    have "be_val (xs @ [b + 1]) < 256 ^ length (xs @ [b])"
      using be_val_bound[of "xs @ [b + 1]"] by simp
    then show ?thesis
      using False unat_byte_Suc[OF False] by (simp add: incIP_snoc be_val_append)
  qed
qed

lemma length_walk [simp]: "length ((incIP ^^ k) ip) = length ip"
  by (induction k) auto

lemma be_val_walk: "be_val ((incIP ^^ k) ip) = (be_val ip + k) mod 256 ^ length ip"
proof (induction k)
  case 0
  then show ?case using be_val_bound[of ip] by simp
next
  case (Suc k)
  then show ?case by (simp add: be_val_incIP mod_Suc_eq)
qed

lemma length_map2_bytes [simp]: "length (map2_bytes f xs ys) = min (length xs) (length ys)"
  by (simp add: map2_bytes_def)

lemma length_ip_mask: "ip_mask ip m \<noteq> [] \<Longrightarrow> length (ip_mask ip m) \<le> length m"
  by (auto simp: ip_mask_def Let_def split: if_splits)

lemma length_broadcast [simp]: "length (broadcast n) = length (pool_network n)"
  using length_ip_mask[of "net_ip n" "net_mask n"]
  by (cases "ip_mask (net_ip n) (net_mask n) = []") (simp_all add: broadcast_def pool_network_def)

text \<open>The walk from the network address meets the broadcast address within one round.\<close>

lemma walk_meets:
  assumes "length ip = length b"
  shows "\<exists>k. 1 \<le> k \<and> k \<le> 256 ^ length ip \<and> (incIP ^^ k) ip = b"
proof -
  let ?N = "256 ^ length ip :: nat"
  have b: "be_val b < ?N" and i: "be_val ip < ?N"
    using be_val_bound[of b] be_val_bound[of ip] assms by auto
  define k where "k = (if be_val ip < be_val b then be_val b - be_val ip
                       else ?N + be_val b - be_val ip)"
  have "1 \<le> k" "k \<le> ?N" using b i by (auto simp: k_def)
  moreover have "be_val ((incIP ^^ k) ip) = be_val b"
    using b i by (auto simp: be_val_walk k_def)
  then have "(incIP ^^ k) ip = b" using assms by (intro be_val_inject) auto
  ultimately show ?thesis by blast
qed

subsection \<open>Lemmas: the scan\<close>

definition scan_stops :: "server \<Rightarrow> bytes \<Rightarrow> bool" where
  "scan_stops s ip \<longleftrightarrow> \<not> net_Contains (pool s) ip \<or> ip_equal ip (broadcast (pool s))"

definition leasable :: "time \<Rightarrow> server \<Rightarrow> bytes \<Rightarrow> bool" where
  "leasable now s ip \<longleftrightarrow>
     ip_string ip \<noteq> ip_string (gateway s) \<and> (used s (ip_string ip) \<longrightarrow> expired now s (ip_string ip))"

definition reclaim :: "string \<Rightarrow> server \<Rightarrow> server" where
  "reclaim sip s = (if used s sip then unbind_ip sip (free_lease sip s) else s)"

abbreviation scan :: "nat \<Rightarrow> time \<Rightarrow> bytes \<Rightarrow> server \<Rightarrow> (bytes option \<times> server) option" where
  "scan fuel now ip s \<equiv> alloc_scan fuel now (broadcast (pool s)) ip s"

lemma alloc_scan_Suc:
  "scan (Suc fuel) now ip s =
     (if scan_stops s (incIP ip) then Some (None, s)
      else if leasable now s (incIP ip)
        then Some (Some (incIP ip), reclaim (ip_string (incIP ip)) s)
      else scan fuel now (incIP ip) s)"
  by (auto simp: scan_stops_def leasable_def reclaim_def Let_def)

declare alloc_scan.simps(2) [simp del]

definition passes :: "time \<Rightarrow> server \<Rightarrow> nat \<Rightarrow> bytes \<Rightarrow> bool" where
  "passes now s k ip \<longleftrightarrow>
     (\<forall>j. 1 \<le> j \<and> j < k \<longrightarrow>
        \<not> scan_stops s ((incIP ^^ j) ip) \<and> \<not> leasable now s ((incIP ^^ j) ip))"

lemma passes_Suc:
  assumes "\<not> scan_stops s (incIP ip)" "\<not> leasable now s (incIP ip)" "passes now s k (incIP ip)"
  shows "passes now s (Suc k) ip"
  unfolding passes_def
proof (intro allI impI)
  fix j assume j: "1 \<le> j \<and> j < Suc k"
  then obtain i where i: "j = Suc i" by (cases j) auto
  then show "\<not> scan_stops s ((incIP ^^ j) ip) \<and> \<not> leasable now s ((incIP ^^ j) ip)"
    using assms j by (cases i) (auto simp: passes_def funpow_swap1)
qed

lemma scan_spec:
  "case scan fuel now ip s of
     None \<Rightarrow> passes now s (Suc fuel) ip
   | Some (None, s') \<Rightarrow>
       s' = s \<and> (\<exists>k \<ge> 1. scan_stops s ((incIP ^^ k) ip) \<and> passes now s k ip)
   | Some (Some a, s') \<Rightarrow>
       s' = reclaim (ip_string a) s \<and> \<not> scan_stops s a \<and> leasable now s a \<and>
       (\<exists>k \<ge> 1. a = (incIP ^^ k) ip \<and> passes now s k ip)"
proof (induction fuel arbitrary: ip)
  case 0
  then show ?case by (simp add: passes_def)
next
  case (Suc fuel)
  have one: "passes now s 1 ip" by (simp add: passes_def)
  show ?case
  proof (cases "scan_stops s (incIP ip) \<or> leasable now s (incIP ip)")
    case True
    then show ?thesis using one
      by (auto simp: alloc_scan_Suc intro!: exI[of _ 1])
  next
    case False
    have step: "scan (Suc fuel) now ip s = scan fuel now (incIP ip) s"
      using False by (simp add: alloc_scan_Suc)
    have shift: "\<exists>k' \<ge> 1. (incIP ^^ k') ip = (incIP ^^ k) (incIP ip) \<and> passes now s k' ip"
      if "passes now s k (incIP ip)" for k
      using passes_Suc[of s ip now k] that False
      by (intro exI[of _ "Suc k"]) (auto simp: funpow_swap1)
    show ?thesis
    proof (cases "scan fuel now (incIP ip) s")
      case None
      with Suc[of "incIP ip"] show ?thesis unfolding step
        using False passes_Suc by auto
    next
      case (Some r)
      obtain a s' where r: "r = (a, s')" by (cases r)
      show ?thesis
      proof (cases a)
        case None
        with Suc[of "incIP ip"] Some r obtain k where
          "s' = s" "scan_stops s ((incIP ^^ k) (incIP ip))" "passes now s k (incIP ip)" by auto
        with shift[of k] Some r None show ?thesis unfolding step by auto
      next
        case (Some b)
        with Suc[of "incIP ip"] \<open>scan fuel now (incIP ip) s = Some r\<close> r obtain k where
          "s' = reclaim (ip_string b) s" "\<not> scan_stops s b" "leasable now s b"
          "b = (incIP ^^ k) (incIP ip)" "passes now s k (incIP ip)" by auto
        with shift[of k] \<open>scan fuel now (incIP ip) s = Some r\<close> r Some show ?thesis
          unfolding step by auto
      qed
    qed
  qed
qed

subsection \<open>Lemmas: CIDR pools are intervals\<close>

lemma unat_and_not_mask:
  fixes x :: byte
  shows "unat (x AND NOT (mask k)) = unat x div 2 ^ k * 2 ^ k"
proof -
  have "x AND NOT (mask k) = push_bit k (drop_bit k x)"
    by (rule bit_word_eqI) (auto simp: bit_simps)
  then have "unat (x AND NOT (mask k)) = take_bit 8 (push_bit k (drop_bit k (unat x)))"
    by (simp only: unsigned_push_bit_eq unat_drop_bit_eq) simp
  also have "\<dots> = (unat x div 2 ^ k * 2 ^ k) mod 256"
    by (simp add: push_bit_eq_mult drop_bit_eq_div take_bit_eq_mod)
  also have "\<dots> = unat x div 2 ^ k * 2 ^ k"
    using unat_byte_less[of x] by (intro mod_less) (meson div_times_less_eq_dividend le_less_trans)
  finally show ?thesis .
qed

lemma byte_ff: "(0xff :: byte) = - 1"
  by code_simp

lemma mask_byte: "i < 8 \<Longrightarrow> drop_bit i (0xff :: byte) = mask (8 - i)"
  unfolding byte_ff by (intro bit_word_eqI) (auto simp: bit_simps)

lemma length_mask_bytes [simp]: "length (mask_bytes n k) = n"
  by (induction n arbitrary: k) auto

lemma map2_bytes_Cons [simp]: "map2_bytes f (x # xs) (y # ys) = f x y # map2_bytes f xs ys"
  by (simp add: map2_bytes_def)

lemma map2_bytes_Nil [simp]: "map2_bytes f [] ys = []"
  by (simp add: map2_bytes_def)

lemma mask_bytes_0: "mask_bytes n 0 = replicate n 0"
  by (induction n) (auto simp: mask_byte mask_eq_exp_minus_1)

text \<open>Masking a big-endian number clears its low bits; the complement of the mask is their value.\<close>

lemma be_val_and_zeros: "be_val (map2_bytes (AND) xs (replicate n 0)) = 0"
proof (induction xs arbitrary: n)
  case (Cons x xs)
  then show ?case by (cases n) (simp_all add: map2_bytes_def)
qed simp

lemma div_pow_split:
  fixes a b :: nat
  assumes "k \<le> m" "b < 2 ^ m"
  shows "(a * 2 ^ m + b) div 2 ^ k * 2 ^ k = a * 2 ^ m + b div 2 ^ k * 2 ^ k"
proof -
  have "(2 :: nat) ^ m = 2 ^ (m - k) * 2 ^ k" using assms by (simp flip: power_add)
  then have "a * 2 ^ m + b = b + (a * 2 ^ (m - k)) * 2 ^ k" by (simp only: ac_simps)
  then have "(a * 2 ^ m + b) div 2 ^ k = a * 2 ^ (m - k) + b div 2 ^ k"
    by (simp only:) (rule div_mult_self1, simp)
  then show ?thesis using \<open>(2 :: nat) ^ m = 2 ^ (m - k) * 2 ^ k\<close> by (simp add: algebra_simps)
qed

lemma pow_256: "(256 :: nat) ^ n = 2 ^ (8 * n)"
  by (simp add: power_mult)

lemma be_val_and_mask:
  "length xs = n \<Longrightarrow> k \<le> 8 * n \<Longrightarrow>
     be_val (map2_bytes (AND) xs (mask_bytes n k)) = be_val xs div 2 ^ (8 * n - k) * 2 ^ (8 * n - k)"
proof (induction xs arbitrary: n k)
  case Nil
  then show ?case by simp
next
  case (Cons x xs)
  then obtain m where n: "n = Suc m" and m: "length xs = m" by (cases n) auto
  have b: "be_val xs < 2 ^ (8 * m)" using be_val_bound[of xs] m by (simp add: pow_256)
  show ?case
  proof (cases "k \<ge> 8")
    case True
    define h where "h = 8 * n - k"
    have h: "8 * m - (k - 8) = h" "h \<le> 8 * m" "k - 8 \<le> 8 * m"
      using True n Cons.prems by (simp_all add: h_def)
    have "x AND 0xff = x" by (simp only: byte_ff and.right_neutral)
    then have "be_val (map2_bytes (AND) (x # xs) (mask_bytes n k)) =
        unat x * 2 ^ (8 * m) + be_val xs div 2 ^ h * 2 ^ h"
      using True n m Cons.IH[OF m h(3)] h(1) by (simp add: pow_256)
    also have "\<dots> = be_val (x # xs) div 2 ^ h * 2 ^ h"
      using div_pow_split[OF h(2) b] m by (simp add: pow_256)
    finally show ?thesis unfolding h_def .
  next
    case False
    define h where "h = 8 * n - k"
    have e: "(2 :: nat) ^ h = 2 ^ (8 - k) * 2 ^ (8 * m)"
      using False n by (simp add: h_def flip: power_add)
    have "be_val (x # xs) div 2 ^ h = unat x div 2 ^ (8 - k)"
      using b m by (simp add: e pow_256 div_mult2_eq mult.commute[of "2 ^ (8 - k)"])
    moreover have "be_val (map2_bytes (AND) (x # xs) (mask_bytes n k)) =
        unat x div 2 ^ (8 - k) * 2 ^ (8 - k) * 2 ^ (8 * m)"
      using False n m
      by (simp add: mask_byte unat_and_not_mask mask_bytes_0 be_val_and_zeros pow_256)
    ultimately show ?thesis by (simp only: e mult.assoc flip: h_def)
  qed
qed

lemma unat_or_not:
  fixes x m :: byte
  shows "unat ((x AND m) OR NOT m) = unat (x AND m) + unat (NOT m)"
proof -
  have "(x AND m) OR NOT m = (x AND m) + NOT m"
    by (rule disjunctive_add[symmetric]) (auto simp: bit_simps)
  moreover have "unat (x AND m) \<le> unat m" by (metis word_and_le1 word_le_nat_alt)
  moreover have "unat (NOT m) = 255 - unat m"
  proof -
    have "unat (NOT m) = unat (- 1 :: byte) - unat m"
      unfolding not_eq_complement by (metis minus_diff_commute unat_sub word_order.extremum)
    then show ?thesis by (simp flip: byte_ff)
  qed
  moreover have "unat (x AND m) + (255 - unat m) < 256"
    using calculation unat_byte_less[of m] by linarith
  ultimately show ?thesis by (simp add: unat_word_ariths)
qed

lemma be_val_or_not:
  "length xs = length ms \<Longrightarrow>
     be_val (map2_bytes (\<lambda>i m. i OR NOT m) (map2_bytes (AND) xs ms) ms) =
       be_val (map2_bytes (AND) xs ms) + be_val (map NOT ms)"
  by (induction xs ms rule: list_induct2) (simp_all add: unat_or_not algebra_simps)

lemma be_val_not: "be_val (map NOT ms) + be_val ms + 1 = 256 ^ length ms"
proof (induction ms)
  case (Cons m ms)
  have "unat (NOT m) + unat m = 255"
    using unat_or_not[of m m] unat_or_not[of "- 1" m] by (simp flip: byte_ff)
  then have "(unat (NOT m) + unat m) * 256 ^ length ms = 255 * 256 ^ length ms" by simp
  with Cons show ?case by (simp add: algebra_simps)
qed simp

lemma be_val_not_mask: "k \<le> 8 * n \<Longrightarrow> be_val (map NOT (mask_bytes n k)) = 2 ^ (8 * n - k) - 1"
proof -
  assume k: "k \<le> 8 * n"
  let ?ones = "replicate n (- 1) :: bytes"
  have "map2_bytes (AND) ?ones (mask_bytes n k) = mask_bytes n k"
    by (rule nth_equalityI) (simp_all add: map2_bytes_def)
  then have "be_val (mask_bytes n k) = be_val ?ones div 2 ^ (8 * n - k) * 2 ^ (8 * n - k)"
    using be_val_and_mask[of ?ones n k] k by simp
  moreover have "be_val ?ones = 2 ^ (8 * n) - 1"
    using be_val_not[of "replicate n 0"] be_val_and_zeros[of "replicate n 0" n]
    by (simp add: pow_256 map2_bytes_def)
  moreover have "((2 :: nat) ^ (8 * n) - 1) div 2 ^ (8 * n - k) * 2 ^ (8 * n - k)
      = 2 ^ (8 * n) - 2 ^ (8 * n - k)"
  proof -
    define h where "h = 8 * n - k"
    have p: "(2 :: nat) ^ (8 * n) = 2 ^ k * 2 ^ h" using k by (simp add: h_def flip: power_add)
    have "(2 :: nat) ^ k * 2 ^ h - 1 = (2 ^ k - 1) * 2 ^ h + (2 ^ h - 1)"
      by (simp add: diff_mult_distrib)
    then have "((2 :: nat) ^ k * 2 ^ h - 1) div 2 ^ h * 2 ^ h = (2 ^ k - 1) * 2 ^ h"
      using div_pow_split[of h h "2 ^ h - 1" "2 ^ k - 1"] by simp
    then show ?thesis unfolding p h_def[symmetric] by (simp add: diff_mult_distrib)
  qed
  ultimately have "be_val (mask_bytes n k) = 2 ^ (8 * n) - 2 ^ (8 * n - k)" by simp
  moreover have "(2 :: nat) ^ (8 * n - k) \<le> 2 ^ (8 * n)" by (rule power_increasing) auto
  moreover have "be_val (map NOT (mask_bytes n k)) + be_val (mask_bytes n k) + 1 = 2 ^ (8 * n)"
    using be_val_not[of "mask_bytes n k"] by (simp add: pow_256)
  ultimately show ?thesis by linarith
qed


text \<open>
  A pool as configured: four address bytes and the mask of a prefix length. Its addresses are
  those between the network and the broadcast address.
\<close>

definition cidr_pool :: "ipnet \<Rightarrow> nat \<Rightarrow> bool" where
  "cidr_pool n p \<longleftrightarrow> p \<le> 32 \<and> length (net_ip n) = 4 \<and> net_mask n = CIDRMask p 32"

abbreviation net_base :: "ipnet \<Rightarrow> nat \<Rightarrow> nat" where
  "net_base n p \<equiv> be_val (net_ip n) div 2 ^ (32 - p) * 2 ^ (32 - p)"

lemma cidr_network: "cidr_pool n p \<Longrightarrow> pool_network n = map2_bytes (AND) (net_ip n) (mask_bytes 4 p)"
  by (simp add: cidr_pool_def pool_network_def ip_mask_def CIDRMask_def)

lemma length_cidr_network: "cidr_pool n p \<Longrightarrow> length (pool_network n) = 4"
  by (simp add: cidr_network) (simp add: cidr_pool_def)

lemma be_val_cidr_network: "cidr_pool n p \<Longrightarrow> be_val (pool_network n) = net_base n p"
  using be_val_and_mask[of "net_ip n" 4 p] by (simp add: cidr_network) (simp add: cidr_pool_def)

lemma be_val_cidr_broadcast:
  assumes "cidr_pool n p"
  shows "be_val (broadcast n) = net_base n p + (2 ^ (32 - p) - 1)"
proof -
  have "broadcast n = map2_bytes (\<lambda>i m. i OR NOT m)
      (map2_bytes (AND) (net_ip n) (mask_bytes 4 p)) (mask_bytes 4 p)"
    using assms cidr_network[OF assms]
    by (simp add: broadcast_def pool_network_def cidr_pool_def CIDRMask_def)
  then show ?thesis
    using assms be_val_or_not[of "net_ip n" "mask_bytes 4 p"] be_val_not_mask[of p 4]
      be_val_cidr_network[OF assms] cidr_network[OF assms]
    by (simp add: cidr_pool_def)
qed

lemma cidr_Contains:
  assumes "cidr_pool n p" "length ip = 4"
  shows "net_Contains n ip \<longleftrightarrow> be_val ip div 2 ^ (32 - p) = be_val (net_ip n) div 2 ^ (32 - p)"
proof -
  have m: "net_number_mask n = (net_ip n, mask_bytes 4 p)"
    using assms(1) by (simp add: net_number_mask_def cidr_pool_def CIDRMask_def To4_def)
  have len: "length (net_ip n) = 4" "p \<le> 32" using assms(1) by (auto simp: cidr_pool_def)
  have "net_Contains n ip \<longleftrightarrow>
      map2_bytes (AND) (net_ip n) (mask_bytes 4 p) = map2_bytes (AND) ip (mask_bytes 4 p)"
    using assms(2) len by (simp add: net_Contains_def m To4_def)
  also have "\<dots> \<longleftrightarrow> be_val (map2_bytes (AND) (net_ip n) (mask_bytes 4 p)) =
      be_val (map2_bytes (AND) ip (mask_bytes 4 p))"
    using be_val_inject[of "map2_bytes (AND) (net_ip n) (mask_bytes 4 p)"] assms(2) len by auto
  also have "\<dots> \<longleftrightarrow> be_val ip div 2 ^ (32 - p) = be_val (net_ip n) div 2 ^ (32 - p)"
    using be_val_and_mask[of "net_ip n" 4 p] be_val_and_mask[of ip 4 p] assms(2) len by auto
  finally show ?thesis .
qed

lemma cidr_interval:
  assumes "cidr_pool n p" "length ip = 4"
  shows "net_Contains n ip \<longleftrightarrow>
    be_val (pool_network n) \<le> be_val ip \<and> be_val ip \<le> be_val (broadcast n)"
proof -
  let ?h = "2 ^ (32 - p) :: nat"
  have d: "be_val ip = be_val ip div ?h * ?h + be_val ip mod ?h"
    by (rule div_mult_mod_eq[symmetric])
  have m: "be_val ip mod ?h < ?h" by simp
  show ?thesis
    unfolding cidr_Contains[OF assms] be_val_cidr_network[OF assms(1)]
      be_val_cidr_broadcast[OF assms(1)]
  proof
    assume "be_val ip div ?h = be_val (net_ip n) div ?h"
    then show "net_base n p \<le> be_val ip \<and> be_val ip \<le> net_base n p + (?h - 1)"
      using d m by (metis le_add1 nat_add_left_cancel_le Suc_pred' add_diff_inverse_nat
          less_Suc_eq_le less_imp_le_nat not_less_zero zero_less_numeral zero_less_power)
  next
    assume r: "net_base n p \<le> be_val ip \<and> be_val ip \<le> net_base n p + (?h - 1)"
    define q where "q = be_val ip - net_base n p"
    have "0 < ?h" by simp
    then have "be_val ip = be_val (net_ip n) div ?h * ?h + q" "q < ?h"
      using r unfolding q_def by linarith+
    then show "be_val ip div ?h = be_val (net_ip n) div ?h" by simp
  qed
qed

subsection \<open>Lemmas: allocation\<close>

abbreviation pool_fuel :: "server \<Rightarrow> nat" where
  "pool_fuel s \<equiv> 256 ^ length (pool_network (pool s))"

lemma ip_equal_refl [simp]: "ip_equal ip ip"
  by (simp add: ip_equal_def)

lemma scan_returns: "\<exists>r. scan (pool_fuel s) now (pool_network (pool s)) s = Some r"
proof (rule ccontr)
  assume "\<not> ?thesis"
  then have "scan (pool_fuel s) now (pool_network (pool s)) s = None"
    by (metis option.exhaust)
  then have "passes now s (Suc (pool_fuel s)) (pool_network (pool s))"
    using scan_spec[of now s "pool_fuel s" "pool_network (pool s)"] by simp
  moreover obtain k where "1 \<le> k" "k \<le> pool_fuel s"
    "(incIP ^^ k) (pool_network (pool s)) = broadcast (pool s)"
    using walk_meets[of "pool_network (pool s)" "broadcast (pool s)"] by auto
  ultimately show False by (auto simp: passes_def scan_stops_def)
qed

lemma allocLocked_Some:
  assumes "allocLocked now s = (Some a, s')"
  shows "s' = reclaim (ip_string a) s" "\<not> scan_stops s a" "leasable now s a"
    "\<exists>k \<ge> 1. a = (incIP ^^ k) (pool_network (pool s)) \<and> passes now s k (pool_network (pool s))"
  using scan_spec[of now s "pool_fuel s" "pool_network (pool s)"] scan_returns[of s now] assms
  by (auto simp: allocLocked_def Let_def)

lemma allocLocked_None:
  assumes "allocLocked now s = (None, s')"
  shows "s' = s" "\<exists>k \<ge> 1. scan_stops s ((incIP ^^ k) (pool_network (pool s))) \<and>
    passes now s k (pool_network (pool s))"
  using scan_spec[of now s "pool_fuel s" "pool_network (pool s)"] scan_returns[of s now] assms
  by (auto simp: allocLocked_def Let_def)

lemma be_val_cidr_walk:
  assumes "cidr_pool n p" "be_val (pool_network n) + k \<le> be_val (broadcast n)"
  shows "be_val ((incIP ^^ k) (pool_network n)) = be_val (pool_network n) + k"
proof -
  have "be_val (broadcast n) < 256 ^ length (pool_network n)"
    using be_val_bound[of "broadcast n"] by simp
  then show ?thesis using assms(2) by (simp add: be_val_walk)
qed

lemma network_le_broadcast: "cidr_pool n p \<Longrightarrow> be_val (pool_network n) \<le> be_val (broadcast n)"
  using be_val_cidr_network[of n p] be_val_cidr_broadcast[of n p] by linarith

text \<open>A host address is met by the walk, and the scan does not stop before it.\<close>

lemma host_on_walk:
  assumes "cidr_pool n p" "length ip = 4"
    and "be_val (pool_network n) < be_val ip" "be_val ip < be_val (broadcast n)"
  shows "ip = (incIP ^^ (be_val ip - be_val (pool_network n))) (pool_network n)"
  using assms be_val_cidr_walk[OF assms(1), of "be_val ip - be_val (pool_network n)"]
  by (intro be_val_inject) (simp_all add: length_cidr_network[OF assms(1)])

lemma ip_equal_same_length: "length x = length y \<Longrightarrow> ip_equal x y \<longleftrightarrow> x = y"
  by (simp add: ip_equal_def)

lemma scan_stops_late:
  assumes "cidr_pool (pool s) p" "1 \<le> k" "scan_stops s ((incIP ^^ k) (pool_network (pool s)))"
  shows "be_val (broadcast (pool s)) \<le> be_val (pool_network (pool s)) + k"
proof (rule ccontr)
  let ?w = "(incIP ^^ k) (pool_network (pool s))"
  assume "\<not> ?thesis"
  then have lt: "be_val (pool_network (pool s)) + k < be_val (broadcast (pool s))" by simp
  have v: "be_val ?w = be_val (pool_network (pool s)) + k"
    using be_val_cidr_walk[OF assms(1)] lt by simp
  have len: "length ?w = 4" by (simp add: length_cidr_network[OF assms(1)])
  have "net_Contains (pool s) ?w" using cidr_interval[OF assms(1) len] v lt by simp
  moreover have "\<not> ip_equal ?w (broadcast (pool s))"
    using ip_equal_same_length[of ?w "broadcast (pool s)"] v lt by auto
  ultimately show False using assms(3) by (simp add: scan_stops_def)
qed

text \<open>A small concrete server, for the examples below: pool 10.0.0.0/30, gateway 10.0.0.1.\<close>

definition pool30 :: ipnet where
  "pool30 = \<lparr>net_ip = [10, 0, 0, 0], net_mask = [255, 255, 255, 252]\<rparr>"

definition server30 :: server where
  "server30 = \<lparr>pool = pool30, gateway = [10, 0, 0, 1], leaseTime = hour, offerDefaultRoute = True,
     used = (\<lambda>_. False), byChid = Map.empty, expiry = Map.empty\<rparr>"

definition req30 :: "message_type \<Rightarrow> byte \<Rightarrow> bytes \<Rightarrow> request" where
  "req30 t hw ip = \<lparr>MessageType = t, ClientHWAddr = [2, 0, 0, 0, 0, hw], RequestedIPAddress = ip,
     ClientIPAddr = []\<rparr>"

lemma cidr_pool30: "cidr_pool (pool server30) 30"
  by code_simp

text \<open>
  C18. The scan for a free address always ends: the fuel given to it, the number of addresses
  of the pool's width, is enough whatever the pool, the leases and the clock are.
\<close>

theorem alloc_scan_terminates:
  "\<exists>r. alloc_scan (256 ^ length (pool_network (pool s))) now (broadcast (pool s))
         (pool_network (pool s)) s = Some r"
  by (rule scan_returns)

text \<open>
  C19. What the allocator hands out: an address of the pool strictly between the network and
  the broadcast address, not the gateway, and not leased to anybody (or leased under a lease
  that has expired); every lower host address is the gateway or under a live lease.
\<close>

theorem allocated_is_lowest_free:
  assumes "cidr_pool (pool s) p" "allocLocked now s = (Some ip, s')"
  shows "net_Contains (pool s) ip \<and> be_val (pool_network (pool s)) < be_val ip \<and>
    be_val ip < be_val (broadcast (pool s)) \<and> leasable now s ip \<and>
    (\<forall>h. length h = 4 \<and> be_val (pool_network (pool s)) < be_val h \<and> be_val h < be_val ip
       \<longrightarrow> \<not> leasable now s h)"
proof -
  let ?n = "pool_network (pool s)" and ?b = "broadcast (pool s)"
  note a = allocLocked_Some[OF assms(2)] and len = length_cidr_network[OF assms(1)]
  from a(4) obtain k where k: "1 \<le> k" "ip = (incIP ^^ k) ?n" "passes now s k ?n" by blast
  have l: "length ip = 4" by (simp add: k len)
  have c: "net_Contains (pool s) ip" "ip \<noteq> ?b" using a(2) by (auto simp: scan_stops_def)
  with l len have "be_val ip \<noteq> be_val ?b" by (metis be_val_inject length_broadcast)
  then have hi: "be_val ip < be_val ?b" and lo: "be_val ?n \<le> be_val ip"
    using cidr_interval[OF assms(1) l] c by auto
  have below: "\<not> leasable now s h" if h: "length h = 4" "be_val ?n < be_val h" "be_val h < be_val ip" for h
  proof -
    have w: "h = (incIP ^^ (be_val h - be_val ?n)) ?n"
      using host_on_walk[OF assms(1) h(1,2)] h(3) hi by simp
    have "be_val ?n + k \<ge> be_val ip" by (simp add: k be_val_walk)
    then have "1 \<le> be_val h - be_val ?n" "be_val h - be_val ?n < k" using h by linarith+
    with k(3) w show ?thesis unfolding passes_def by metis
  qed
  have "be_val ip \<noteq> be_val ?n"
  proof
    assume e: "be_val ip = be_val ?n"
    have "be_val ?b - be_val ?n < k"
    proof (rule ccontr)
      assume "\<not> ?thesis"
      then have "be_val ip = be_val ?n + k"
        using be_val_cidr_walk[OF assms(1), of k] network_le_broadcast[OF assms(1)] k by simp
      with e k(1) show False by simp
    qed
    moreover have "(incIP ^^ (be_val ?b - be_val ?n)) ?n = ?b"
      using be_val_cidr_walk[OF assms(1), of "be_val ?b - be_val ?n"] network_le_broadcast[OF assms(1)]
      by (intro be_val_inject) simp_all
    moreover have "1 \<le> be_val ?b - be_val ?n" using e hi by simp
    ultimately show False using k(3) unfolding passes_def scan_stops_def by (metis ip_equal_refl)
  qed
  then show ?thesis using c hi lo a(3) below by auto
qed

theorem allocated_is_lowest_free_witness:
  "leasable 0 server30 [10, 0, 0, 2]"
proof -
  have "allocLocked 0 server30 = (Some [10, 0, 0, 2], snd (allocLocked 0 server30))"
    by (rule prod_eqI) (code_simp, simp)
  from allocated_is_lowest_free[OF cidr_pool30 this] show ?thesis by blast
qed

text \<open>
  The allocator gives up only when the pool really is exhausted: every host address of the
  pool is the gateway or under a live lease.
\<close>

theorem exhausted_means_all_leased:
  assumes "cidr_pool (pool s) p" "allocLocked now s = (None, s')"
    and "length h = 4" "be_val (pool_network (pool s)) < be_val h" "be_val h < be_val (broadcast (pool s))"
  shows "s' = s \<and> net_Contains (pool s) h \<and> \<not> leasable now s h"
proof -
  let ?n = "pool_network (pool s)"
  note a = allocLocked_None[OF assms(2)]
  from a(2) obtain k where k: "1 \<le> k" "scan_stops s ((incIP ^^ k) ?n)" "passes now s k ?n" by blast
  have "h = (incIP ^^ (be_val h - be_val ?n)) ?n" by (rule host_on_walk[OF assms(1,3-5)])
  moreover have "be_val (broadcast (pool s)) \<le> be_val ?n + k"
    by (rule scan_stops_late[OF assms(1) k(1,2)])
  ultimately have "\<not> leasable now s h"
    using k(3) assms(4,5) unfolding passes_def
    by (metis One_nat_def Suc_leI diff_less_mono2 less_diff_conv2 add.commute less_le_trans
        nat_less_le zero_less_diff)
  then show ?thesis
    using a(1) cidr_interval[OF assms(1,3)] assms(4,5) by simp
qed

theorem exhausted_means_all_leased_witness:
  "\<not> leasable 5 (commit 0 ''c'' ''10.0.0.2'' server30) [10, 0, 0, 2]"
proof -
  let ?s = "commit 0 ''c'' ''10.0.0.2'' server30"
  have p: "cidr_pool (pool ?s) 30" by code_simp
  have "allocLocked 5 ?s = (None, snd (allocLocked 5 ?s))"
    by (rule prod_eqI) (code_simp, simp)
  moreover have "length [10, 0, 0, 2 :: byte] = 4" by simp
  moreover have "be_val (pool_network (pool ?s)) < be_val [10, 0, 0, 2]" by code_simp
  moreover have "be_val [10, 0, 0, 2] < be_val (broadcast (pool ?s))" by code_simp
  ultimately show ?thesis using exhausted_means_all_leased[OF p] by blast
qed

subsection \<open>The lease table\<close>

text \<open>The textual form of an IPv4 address of the pool.\<close>

definition in_pool :: "ipnet \<Rightarrow> string \<Rightarrow> bool" where
  "in_pool n sip \<longleftrightarrow> (\<exists>q. length q = 4 \<and> sip = dotted q \<and> net_Contains n q)"

definition chids_in_pool :: "server \<Rightarrow> bool" where
  "chids_in_pool s \<longleftrightarrow>
     (\<exists>p. cidr_pool (pool s) p) \<and> (\<forall>c ip. byChid s c = Some ip \<longrightarrow> in_pool (pool s) ip)"

text \<open>
  The table is consistent: the leased addresses are exactly those in use, exactly those with
  an expiry, and no two clients hold the same one.
\<close>

definition lease_inv :: "server \<Rightarrow> bool" where
  "lease_inv s \<longleftrightarrow> chids_in_pool s \<and>
     (\<forall>c ip. byChid s c = Some ip \<longrightarrow> used s ip) \<and>
     (\<forall>ip. used s ip \<longrightarrow> (\<exists>c. byChid s c = Some ip)) \<and>
     (\<forall>ip. used s ip \<longleftrightarrow> expiry s ip \<noteq> None) \<and>
     (\<forall>c d ip. byChid s c = Some ip \<longrightarrow> byChid s d = Some ip \<longrightarrow> c = d)"

lemmas table_defs = free_lease_def unbind_ip_def unbind_chid_def commit_def drop_stale_def reclaim_def

lemma pool_table [simp]:
  "pool (free_lease ip s) = pool s" "pool (unbind_ip ip s) = pool s"
  "pool (unbind_chid c s) = pool s" "pool (commit now c ip s) = pool s"
  "pool (drop_stale c ip s) = pool s" "pool (reclaim ip s) = pool s"
  by (simp_all add: table_defs)

lemma in_pool_nonempty: "in_pool n sip \<Longrightarrow> sip \<noteq> []"
  by (auto simp: in_pool_def dotted_nonempty)

lemma chid_lease_empty:
  "chids_in_pool s \<Longrightarrow> chid_lease s c = [] \<longleftrightarrow> byChid s c = None"
  by (auto simp: chids_in_pool_def chid_lease_def dest: in_pool_nonempty split: option.splits)

lemma chid_lease_Some: "byChid s c = Some ip \<Longrightarrow> chid_lease s c = ip"
  by (simp add: chid_lease_def)

lemma in_pool_To4:
  assumes "To4 ip \<noteq> None" "net_Contains n ip"
  shows "in_pool n (ip_string ip)"
proof -
  from assms(1) obtain q where q: "To4 ip = Some q" by blast
  then have "length q = 4" "ip_string ip = dotted q" using To4_Some by auto
  moreover from this have "net_Contains n q" using assms(2) q
    by (simp add: net_Contains_def To4_def[of q])
  ultimately show ?thesis by (auto simp: in_pool_def)
qed

lemma allocLocked_in_pool:
  assumes "cidr_pool (pool s) p" "allocLocked now s = (Some ip, s')"
  shows "length ip = 4" "net_Contains (pool s) ip" "in_pool (pool s) (ip_string ip)"
proof -
  note a = allocLocked_Some[OF assms(2)]
  show l: "length ip = 4" using a(4) length_cidr_network[OF assms(1)] by auto
  show c: "net_Contains (pool s) ip" using a(2) by (simp add: scan_stops_def)
  show "in_pool (pool s) (ip_string ip)" using l c by (intro in_pool_To4) (simp_all add: To4_def)
qed

lemma lease_inv_unbind_ip: "lease_inv s \<Longrightarrow> lease_inv (unbind_ip ip (free_lease ip s))"
  unfolding lease_inv_def chids_in_pool_def table_defs
  by (auto split: if_splits) (metis option.inject)

lemma lease_inv_unbind_chid:
  assumes "lease_inv s" "byChid s c = Some ip"
  shows "lease_inv (unbind_chid c (free_lease ip s))"
proof -
  have "unbind_chid c (free_lease ip s) = unbind_ip ip (free_lease ip s)"
    using assms by (auto simp: table_defs lease_inv_def fun_eq_iff)
  then show ?thesis using lease_inv_unbind_ip[OF assms(1)] by simp
qed

lemma lease_inv_reclaim: "lease_inv s \<Longrightarrow> lease_inv (reclaim ip s)"
  by (simp add: reclaim_def lease_inv_unbind_ip)

lemma lease_inv_commit:
  assumes "lease_inv s" "in_pool (pool s) ip"
    and "byChid s c = Some ip \<or> byChid s c = None \<and> \<not> used s ip"
  shows "lease_inv (commit now c ip s)"
  using assms unfolding lease_inv_def chids_in_pool_def commit_def
  by (auto split: if_splits) (metis option.inject option.distinct(1))+

lemma chids_in_pool_shrink:
  "chids_in_pool s \<Longrightarrow> pool t = pool s \<Longrightarrow> byChid t \<subseteq>\<^sub>m byChid s \<Longrightarrow> chids_in_pool t"
  by (auto simp: chids_in_pool_def map_le_def dom_def)

lemma byChid_table_le [simp]:
  "byChid (free_lease ip s) = byChid s"
  "byChid (unbind_ip ip s) \<subseteq>\<^sub>m byChid s" "byChid (unbind_chid c s) \<subseteq>\<^sub>m byChid s"
  "byChid (drop_stale c ip s) \<subseteq>\<^sub>m byChid s" "byChid (reclaim ip s) \<subseteq>\<^sub>m byChid s"
  by (auto simp: table_defs map_le_def split: if_splits)

lemma chids_in_pool_commit:
  "chids_in_pool s \<Longrightarrow> in_pool (pool s) ip \<Longrightarrow> chids_in_pool (commit now c ip s)"
  by (auto simp: chids_in_pool_def commit_def)

lemma used_reclaim: "\<not> used (reclaim ip s) ip"
  by (simp add: table_defs)

end
