(* ===== verification/DhcpLeases.thy ===== *)
theory DhcpLeases
  imports DhcpServer
begin

text \<open>
  What the handlers of the DHCP server do to the lease table: every operation keeps the leases
  inside the pool; every operation but one keeps the table consistent, so that no two clients
  hold an address; the exception is a REQUEST that takes over an expired lease of another
  client, shown on a concrete run.
\<close>

subsection \<open>Every lease is in the pool\<close>

lemma allocLocked_frame: "allocLocked now s = (a, s') \<Longrightarrow> pool s' = pool s \<and> byChid s' \<subseteq>\<^sub>m byChid s"
  using allocLocked_None(1)[of now s s'] allocLocked_Some(1)[of now s _ s'] by (cases a) auto

lemma chids_in_pool_alloc:
  "chids_in_pool s \<Longrightarrow> allocLocked now s = (a, s') \<Longrightarrow> chids_in_pool s'"
  using allocLocked_frame chids_in_pool_shrink by metis

lemma alloc_in_pool:
  "chids_in_pool s \<Longrightarrow> allocLocked now s = (Some ip, s') \<Longrightarrow>
     length ip = 4 \<and> in_pool (pool s) (ip_string ip)"
  using allocLocked_in_pool by (metis chids_in_pool_def)

text \<open>
  The state in which \<^verbatim>\<open>allocFor\<close> picks an address, and the pick itself.
\<close>

definition offer_base :: "string \<Rightarrow> server \<Rightarrow> server" where
  "offer_base chid s =
     (if chid_lease s chid \<noteq> '''' then drop_stale chid (chid_lease s chid) s else s)"

definition offer_pick :: "time \<Rightarrow> bytes \<Rightarrow> server \<Rightarrow> bytes option \<times> server" where
  "offer_pick now r s =
     (if r \<noteq> [] \<and> To4 r \<noteq> None \<and> net_Contains (pool s) r \<and> \<not> used s (ip_string r)
      then (Some r, s) else allocLocked now s)"

lemma allocFor_eq:
  "allocFor now chid r s =
     (if chid_lease s chid \<noteq> '''' \<and> \<not> expired now s (chid_lease s chid)
      then (ParseIP (chid_lease s chid), s)
      else case offer_pick now r (offer_base chid s) of
             (None, s1) \<Rightarrow> (None, s1)
           | (Some a, s1) \<Rightarrow> (Some a, commit now chid (ip_string a) s1))"
  by (auto simp: allocFor_def offer_base_def offer_pick_def Let_def split: option.splits prod.splits)

lemma pool_offer_base [simp]: "pool (offer_base c s) = pool s"
  by (simp add: offer_base_def)

lemma chids_in_pool_base: "chids_in_pool s \<Longrightarrow> chids_in_pool (offer_base c s)"
  by (auto simp: offer_base_def elim: chids_in_pool_shrink)

lemma chids_in_pool_pick:
  assumes "chids_in_pool s" "offer_pick now r s = (a, s1)"
  shows "chids_in_pool s1" "pool s1 = pool s" "a = Some ip \<Longrightarrow> in_pool (pool s) (ip_string ip) \<and> To4 ip \<noteq> None"
proof -
  show "chids_in_pool s1" "pool s1 = pool s"
    using assms chids_in_pool_alloc allocLocked_frame
    by (auto simp: offer_pick_def split: if_splits)
  assume a: "a = Some ip"
  show "in_pool (pool s) (ip_string ip) \<and> To4 ip \<noteq> None"
  proof (cases "r \<noteq> [] \<and> To4 r \<noteq> None \<and> net_Contains (pool s) r \<and> \<not> used s (ip_string r)")
    case True
    then show ?thesis using assms(2) a in_pool_To4[of r "pool s"] by (simp add: offer_pick_def)
  next
    case False
    then have "allocLocked now s = (Some ip, s1)" using assms(2) a
      unfolding offer_pick_def if_not_P[OF False] by simp
    from alloc_in_pool[OF assms(1) this] show ?thesis by (auto simp: To4_def[of ip])
  qed
qed

lemma allocFor_in_pool:
  assumes "chids_in_pool s" "allocFor now c r s = (a, s1)"
  shows "chids_in_pool s1 \<and> pool s1 = pool s"
proof (cases "chid_lease s c \<noteq> '''' \<and> \<not> expired now s (chid_lease s c)")
  case True
  then show ?thesis using assms by (simp add: allocFor_eq)
next
  case False
  obtain b s2 where b: "offer_pick now r (offer_base c s) = (b, s2)" by fastforce
  note k = chids_in_pool_pick[OF chids_in_pool_base[OF assms(1)] b]
  show ?thesis
    using assms(2) False b k by (cases b) (auto simp: allocFor_eq intro!: chids_in_pool_commit)
qed

lemma ack_choice_in_pool:
  assumes "chids_in_pool s" "ack_choice now req s = (x, s1)"
  shows "chids_in_pool s1 \<and> pool s1 = pool s \<and> (\<forall>sip. x = Inr sip \<longrightarrow> in_pool (pool s) sip)"
proof -
  have cur: "in_pool (pool s) (chid_lease s (chid_of req))" if "chid_lease s (chid_of req) \<noteq> []"
    using assms(1) that by (auto simp: chids_in_pool_def chid_lease_def split: option.splits)
  have want: "in_pool (pool s) (ip_string (wanted req))"
    if "is_ip4 (wanted req)" "net_Contains (pool s) (wanted req)"
    using that in_pool_To4 by (auto simp: is_ip4_def)
  have free: "chids_in_pool (free_lease (chid_lease s (chid_of req)) s)"
    using assms(1) by (rule chids_in_pool_shrink) auto
  show ?thesis
  proof (cases "allocLocked now s")
    case (Pair a s2)
    then have "chids_in_pool s2" "pool s2 = pool s" "\<And>ip. a = Some ip \<Longrightarrow> in_pool (pool s) (ip_string ip)"
      using chids_in_pool_alloc[OF assms(1)] allocLocked_frame[of now s] alloc_in_pool[OF assms(1), of now]
      by auto
    then show ?thesis
      using assms cur want free Pair
      by (auto simp: ack_choice_def Let_def split: if_splits option.splits)
  qed
qed

lemma fst_finish [simp]: "fst (finish e r s) = s"
  by (simp add: finish_def split: option.split)

lemma fst_nak [simp]: "fst (nak e m s) = s"
  by (simp add: nak_def)

lemma fst_buildACK:
  "fst (buildACK e now req s) =
     (case ack_choice now req s of
        (Inl _, s1) \<Rightarrow> s1
      | (Inr ip, s1) \<Rightarrow> commit now (chid_of req) ip s1)"
  by (simp add: buildACK_def Let_def split: prod.split sum.split)

lemma fst_buildOffer:
  "fst (buildOffer e now req s) = snd (allocFor now (chid_of req) (RequestedIPAddress req) s)"
  by (simp add: buildOffer_def split: prod.split option.split)

lemma buildACK_in_pool: "chids_in_pool s \<Longrightarrow> chids_in_pool (fst (buildACK e now req s))"
proof -
  assume s: "chids_in_pool s"
  obtain x s1 where x: "ack_choice now req s = (x, s1)" by fastforce
  show ?thesis
    using ack_choice_in_pool[OF s x] by (cases x) (simp_all add: fst_buildACK x chids_in_pool_commit)
qed

lemma release_in_pool: "chids_in_pool s \<Longrightarrow> chids_in_pool (release hw s)"
  by (auto simp: release_def Let_def elim!: chids_in_pool_shrink intro: map_le_trans[OF byChid_table_le(3)])

lemma releaseIP_in_pool: "chids_in_pool s \<Longrightarrow> chids_in_pool (releaseIP ip s)"
  by (auto simp: releaseIP_def elim!: chids_in_pool_shrink intro: map_le_trans[OF byChid_table_le(2)])

lemma buildOffer_in_pool: "chids_in_pool s \<Longrightarrow> chids_in_pool (fst (buildOffer e now req s))"
  using allocFor_in_pool[of s now "chid_of req" "RequestedIPAddress req"]
  by (metis fst_buildOffer prod.collapse)

lemma fst_handle: "fst (handle e now req s) = fst (buildReply e now req s)"
  by (auto simp: handle_def split: prod.splits sum.splits)

lemma handle_in_pool: "chids_in_pool s \<Longrightarrow> chids_in_pool (fst (handle e now req s))"
  by (cases "MessageType req")
    (simp_all add: fst_handle buildReply_def buildOffer_in_pool buildACK_in_pool release_in_pool
      releaseIP_in_pool)

subsection \<open>The table is consistent\<close>

lemma lease_inv_chids: "lease_inv s \<Longrightarrow> chids_in_pool s"
  by (simp add: lease_inv_def)

lemma lease_inv_alloc:
  assumes "lease_inv s" "allocLocked now s = (a, s1)"
  shows "lease_inv s1" "a = Some ip \<Longrightarrow> \<not> used s1 (ip_string ip)"
    "byChid s c = None \<Longrightarrow> byChid s1 c = None" "pool s1 = pool s"
proof -
  show "lease_inv s1"
    using assms allocLocked_None(1)[of now s s1] allocLocked_Some(1)[of now s _ s1] lease_inv_reclaim
    by (cases a) auto
  show "\<not> used s1 (ip_string ip)" if "a = Some ip"
    using that assms(2) allocLocked_Some(1)[of now s ip s1] used_reclaim by auto
  show "byChid s1 c = None" if "byChid s c = None"
    using that allocLocked_frame[OF assms(2)] by (metis domIff map_le_def)
  show "pool s1 = pool s" using allocLocked_frame[OF assms(2)] by simp
qed

lemma lease_inv_base: "lease_inv s \<Longrightarrow> lease_inv (offer_base c s) \<and> byChid (offer_base c s) c = None"
proof (cases "byChid s c")
  case None
  then show "lease_inv s \<Longrightarrow> ?thesis" by (simp add: offer_base_def chid_lease_def)
next
  case (Some ip)
  assume i: "lease_inv s"
  then have "chid_lease s c \<noteq> []" using Some chid_lease_empty[OF lease_inv_chids] by simp
  then show ?thesis
    using lease_inv_unbind_chid[OF i Some] Some
    by (simp add: offer_base_def chid_lease_Some drop_stale_def) (simp add: unbind_chid_def)
qed

lemma lease_inv_pick:
  assumes "lease_inv s" "byChid s c = None" "offer_pick now r s = (a, s1)"
  shows "lease_inv s1" "byChid s1 c = None" "a = Some ip \<Longrightarrow> \<not> used s1 (ip_string ip)"
proof -
  have "a = Some r \<and> s1 = s \<and> \<not> used s (ip_string r) \<or> allocLocked now s = (a, s1)"
    using assms(3) unfolding offer_pick_def by (metis prod.inject)
  then show "lease_inv s1" "byChid s1 c = None" "a = Some ip \<Longrightarrow> \<not> used s1 (ip_string ip)"
    using assms lease_inv_alloc[OF assms(1)] by blast+
qed

lemma lease_inv_allocFor:
  assumes "lease_inv s"
  shows "lease_inv (snd (allocFor now c r s))"
proof (cases "chid_lease s c \<noteq> '''' \<and> \<not> expired now s (chid_lease s c)")
  case True
  then show ?thesis using assms by (simp add: allocFor_eq)
next
  case False
  obtain a s1 where a: "offer_pick now r (offer_base c s) = (a, s1)" by fastforce
  note b = lease_inv_base[OF assms, of c]
  note k = lease_inv_pick[OF b[THEN conjunct1] b[THEN conjunct2] a]
    chids_in_pool_pick[OF chids_in_pool_base[OF lease_inv_chids[OF assms]] a]
  have e: "allocFor now c r s =
      (case a of None \<Rightarrow> (None, s1) | Some x \<Rightarrow> (Some x, commit now c (ip_string x) s1))"
    unfolding allocFor_eq if_not_P[OF False] by (simp add: a)
  show ?thesis
  proof (cases a)
    case None
    then show ?thesis using k(1) by (simp add: e)
  next
    case (Some x)
    have "lease_inv (commit now c (ip_string x) s1)"
      using k(1,2) k(3)[OF Some] k(5) k(6)[OF Some] by (intro lease_inv_commit) simp_all
    then show ?thesis by (simp add: e Some)
  qed
qed

text \<open>
  The one operation that breaks the table: a REQUEST of a client that holds a lease, for an
  address that is still recorded for another client although its lease has expired.
\<close>

definition takes_over :: "time \<Rightarrow> request \<Rightarrow> server \<Rightarrow> bool" where
  "takes_over now req s \<longleftrightarrow>
     MessageType req = Request \<and> chid_lease s (chid_of req) \<noteq> '''' \<and> is_ip4 (wanted req) \<and>
     \<not> same_ip (chid_lease s (chid_of req)) (wanted req) \<and> used s (ip_string (wanted req)) \<and>
     expired now s (ip_string (wanted req))"

lemma lease_inv_reassign:
  assumes "lease_inv s" "byChid s c = Some cur" "\<not> used s ip" "in_pool (pool s) ip"
  shows "lease_inv (commit now c ip (free_lease cur s))"
proof -
  have "commit now c ip (free_lease cur s) = commit now c ip (unbind_chid c (free_lease cur s))"
    by (simp add: table_defs)
  moreover have "lease_inv (commit now c ip (unbind_chid c (free_lease cur s)))"
    using assms(3,4) lease_inv_unbind_chid[OF assms(1,2)]
    by (intro lease_inv_commit) (simp_all add: unbind_chid_def free_lease_def)
  ultimately show ?thesis by simp
qed

lemma lease_inv_buildACK:
  assumes "lease_inv s" "MessageType req = Request" "\<not> takes_over now req s"
  shows "lease_inv (fst (buildACK e now req s))"
proof -
  let ?c = "chid_of req" and ?w = "wanted req"
  obtain x s1 where x: "ack_choice now req s = (x, s1)" by fastforce
  note pl = ack_choice_in_pool[OF lease_inv_chids[OF assms(1)] x]
  obtain a s2 where a: "allocLocked now s = (a, s2)" by fastforce
  note al = lease_inv_alloc[OF assms(1) a]
  show ?thesis
  proof (cases "byChid s ?c")
    case None
    then have l: "chid_lease s ?c = []" by (simp add: chid_lease_def)
    have "lease_inv s1 \<and> (\<forall>ip. x = Inr ip \<longrightarrow> byChid s1 ?c = None \<and> \<not> used s1 ip)"
      using x a al None assms(1) unfolding ack_choice_def Let_def l
      by (auto split: if_splits option.splits)
    then show ?thesis
      using pl by (cases x) (auto simp: fst_buildACK x intro!: lease_inv_commit)
  next
    case (Some cur)
    then have l: "chid_lease s ?c = cur" "cur \<noteq> []"
      using chid_lease_empty[OF lease_inv_chids[OF assms(1)], of ?c] by (auto simp: chid_lease_Some)
    have u: "is_ip4 ?w \<Longrightarrow> \<not> same_ip cur ?w \<Longrightarrow> expired now s (ip_string ?w) \<Longrightarrow>
        \<not> used s (ip_string ?w)"
      using assms(2,3) l by (auto simp: takes_over_def)
    consider m where "x = Inl m" "s1 = s"
      | "x = Inr cur" "s1 = s"
      | "x = Inr (ip_string ?w)" "s1 = free_lease cur s" "\<not> used s (ip_string ?w)"
      using x u l(2) unfolding ack_choice_def Let_def l(1) by (auto split: if_splits)
    then show ?thesis
      using pl assms(1) Some lease_inv_reassign[OF assms(1) Some]
      by cases (auto simp: fst_buildACK x intro!: lease_inv_commit)
  qed
qed

lemma lease_inv_release: "lease_inv s \<Longrightarrow> lease_inv (release hw s)"
proof (cases "byChid s (hwaddr_string hw)")
  case (Some ip)
  then show "lease_inv s \<Longrightarrow> ?thesis"
    by (simp add: release_def chid_lease_Some Let_def lease_inv_unbind_chid)
qed (simp add: release_def chid_lease_def)

lemma lease_inv_releaseIP: "lease_inv s \<Longrightarrow> lease_inv (releaseIP ip s)"
  by (simp add: releaseIP_def lease_inv_unbind_ip)

lemma lease_inv_handle:
  "lease_inv s \<Longrightarrow> \<not> takes_over now req s \<Longrightarrow> lease_inv (fst (handle e now req s))"
  by (cases "MessageType req")
    (simp_all add: fst_handle buildReply_def fst_buildOffer lease_inv_allocFor lease_inv_buildACK
      lease_inv_release lease_inv_releaseIP)

text \<open>
  The server as a machine: an event is a request with the instant it is handled at and the
  outcome of the message library.
\<close>

type_synonym dhcp_event = "string option \<times> time \<times> request"

definition dhcp_step :: "dhcp_event \<Rightarrow> server \<Rightarrow> server" where
  "dhcp_step ev s = (case ev of (e, now, req) \<Rightarrow> fst (handle e now req s))"

definition fair_request :: "dhcp_event \<Rightarrow> server \<Rightarrow> bool" where
  "fair_request ev s = (case ev of (e, now, req) \<Rightarrow> \<not> takes_over now req s)"

interpretation dhcp: invariant_machine dhcp_step fair_request lease_inv
  by unfold_locales (auto simp: dhcp_step_def fair_request_def lease_inv_handle)

interpretation dhcp_pool: invariant_machine dhcp_step "\<lambda>_ _. True" chids_in_pool
  by unfold_locales (auto simp: dhcp_step_def handle_in_pool)

lemma New_lease_inv: "New cfg = Inr s \<Longrightarrow> cidr_pool (pool s) p \<Longrightarrow> lease_inv s"
  by (auto simp: New_def lease_inv_def chids_in_pool_def split: option.splits if_splits)

subsection \<open>What a reply promises\<close>

lemma leaseTime_table [simp]:
  "leaseTime (free_lease ip s) = leaseTime s" "leaseTime (unbind_ip ip s) = leaseTime s"
  "leaseTime (unbind_chid c s) = leaseTime s" "leaseTime (drop_stale c ip s) = leaseTime s"
  "leaseTime (reclaim ip s) = leaseTime s"
  by (simp_all add: table_defs)

lemma leaseTime_alloc: "allocLocked now s = (a, s1) \<Longrightarrow> leaseTime s1 = leaseTime s"
  using allocLocked_None(1)[of now s s1] allocLocked_Some(1)[of now s _ s1] by (cases a) auto

lemma leaseTime_pick: "offer_pick now r (offer_base c s) = (a, s1) \<Longrightarrow> leaseTime s1 = leaseTime s"
  by (auto simp: offer_pick_def offer_base_def dest: leaseTime_alloc split: if_splits)

text \<open>Client \<open>c\<close> holds the IPv4 address \<open>ip\<close> of the pool under a live lease.\<close>

definition holds :: "time \<Rightarrow> server \<Rightarrow> string \<Rightarrow> bytes \<Rightarrow> bool" where
  "holds now s c ip \<longleftrightarrow>
     (\<exists>q. To4 ip = Some q \<and> net_Contains (pool s) q \<and> byChid s c = Some (dotted q) \<and>
          \<not> expired now s (dotted q))"

lemma holds_commit:
  assumes "To4 ip = Some q" "net_Contains (pool s) q" "0 \<le> leaseTime s"
  shows "holds now (commit now c (dotted q) s) c ip"
  using assms by (auto simp: holds_def commit_def expired_def)

lemma To4_mapped [simp]: "length q = 4 \<Longrightarrow> To4 (v4in6_prefix @ q) = Some q"
  by (simp add: To4_def)

lemma in_pool_ParseIP:
  "in_pool n sip \<Longrightarrow> \<exists>q. length q = 4 \<and> sip = dotted q \<and> net_Contains n q \<and> ParseIP sip = Some (v4in6_prefix @ q)"
  by (auto simp: in_pool_def ParseIP_dotted)

lemma in_pool_ip_string:
  assumes "in_pool n (ip_string ip)" "To4 ip \<noteq> None"
  obtains q where "To4 ip = Some q" "net_Contains n q" "ip_string ip = dotted q"
proof -
  obtain q where q: "To4 ip = Some q" using assms(2) by blast
  note l = To4_Some[OF q]
  obtain r where "length r = 4" "ip_string ip = dotted r" "net_Contains n r"
    using assms(1) by (auto simp: in_pool_def)
  then have "q = r" using l dotted_inject by metis
  with q l that \<open>net_Contains n r\<close> show thesis by metis
qed

lemma allocFor_holds:
  assumes "chids_in_pool s" "0 \<le> leaseTime s" "allocFor now c r s = (Some ip, s1)"
  shows "holds now s1 c ip"
proof (cases "chid_lease s c \<noteq> '''' \<and> \<not> expired now s (chid_lease s c)")
  case True
  then obtain old where old: "byChid s c = Some old" "chid_lease s c = old"
    by (auto simp: chid_lease_def split: option.splits)
  then obtain q where q: "length q = 4" "old = dotted q" "net_Contains (pool s) q"
    "ParseIP old = Some (v4in6_prefix @ q)"
    using assms(1) in_pool_ParseIP[of "pool s" old] by (auto simp: chids_in_pool_def)
  have "s1 = s" "ip = v4in6_prefix @ q"
    using assms(3) True old q by (auto simp: allocFor_eq)
  then show ?thesis using True old q by (simp add: holds_def)
next
  case False
  obtain a s2 where a: "offer_pick now r (offer_base c s) = (a, s2)" by fastforce
  have "a = Some ip" "s1 = commit now c (ip_string ip) s2"
    using assms(3) unfolding allocFor_eq if_not_P[OF False] by (auto simp: a split: option.splits)
  moreover note k = chids_in_pool_pick[OF chids_in_pool_base[OF assms(1)] a] leaseTime_pick[OF a]
  ultimately show ?thesis
    using assms(2) holds_commit[of ip _ s2 now c] in_pool_ip_string[of "pool s2" ip] by (metis pool_offer_base)
qed

lemma handle_Discover:
  assumes "MessageType req = Discover" "handle e now req s = (s1, Some r)"
  obtains ip where "allocFor now (chid_of req) (RequestedIPAddress req) s = (Some ip, s1)"
    "r = lease_reply Offer ip s1"
  using assms
  by (auto simp: handle_def buildReply_def buildOffer_def finish_def split: prod.splits option.splits sum.splits)

lemma handle_Request_Ack:
  assumes "MessageType req = Request" "handle e now req s = (s1, Some r)" "reply_kind r \<noteq> Nak"
  obtains sip s2 where "ack_choice now req s = (Inr sip, s2)" "s1 = commit now (chid_of req) sip s2"
    "r = lease_reply Ack (case ParseIP sip of None \<Rightarrow> [] | Some p \<Rightarrow> p) s1"
  using assms
  by (auto simp: handle_def buildReply_def buildACK_def nak_def finish_def Let_def
      split: prod.splits option.splits sum.splits)

lemma leaseTime_ack: "ack_choice now req s = (x, s1) \<Longrightarrow> leaseTime s1 = leaseTime s"
  by (cases "allocLocked now s")
    (auto simp: ack_choice_def Let_def dest: leaseTime_alloc split: if_splits option.splits)

lemma reply_holds:
  assumes "chids_in_pool s" "0 \<le> leaseTime s" "handle e now req s = (s1, Some r)" "reply_kind r \<noteq> Nak"
  shows "holds now s1 (chid_of req) (yourIP r)"
proof (cases "MessageType req")
  case Discover
  from handle_Discover[OF this assms(3)] obtain ip where
    "allocFor now (chid_of req) (RequestedIPAddress req) s = (Some ip, s1)"
    "r = lease_reply Offer ip s1" .
  then show ?thesis using allocFor_holds[OF assms(1,2)] by (simp add: lease_reply_def)
next
  case Request
  from handle_Request_Ack[OF this assms(3,4)] obtain sip s2 where
    a: "ack_choice now req s = (Inr sip, s2)" and s1: "s1 = commit now (chid_of req) sip s2" and
    r: "r = lease_reply Ack (case ParseIP sip of None \<Rightarrow> [] | Some p \<Rightarrow> p) s1" .
  from ack_choice_in_pool[OF assms(1) a] obtain q where
    "length q = 4" "sip = dotted q" "net_Contains (pool s2) q" "ParseIP sip = Some (v4in6_prefix @ q)"
    using in_pool_ParseIP[of "pool s2" sip] by auto
  then show ?thesis
    using holds_commit[of "v4in6_prefix @ q" q s2 now "chid_of req"] leaseTime_ack[OF a] assms(2)
    by (simp add: s1 r lease_reply_def)
qed (use assms(3) in \<open>simp_all add: handle_def buildReply_def\<close>)

lemma run_in_pool:
  "New cfg = Inr s \<Longrightarrow> cidr_pool (pool s) p \<Longrightarrow> chids_in_pool (fold dhcp_step evs s)"
  using dhcp_pool.run_inv New_lease_inv lease_inv_chids by simp

subsection \<open>Properties\<close>

definition cfg30 :: config where
  "cfg30 = \<lparr>Iface = ''tbox0'', Pool = Some pool30, Gateway = [10, 0, 0, 1], LeaseTime = 0,
     OfferDefaultRoute = True\<rparr>"

lemma New_cfg30: "New cfg30 = Inr server30"
  by (simp add: New_def cfg30_def server30_def)

text \<open>
  C17. No two clients hold the same address: from a new server on a CIDR pool, after any
  sequence of messages in which no client takes over an expired lease of another, the
  addresses on record for two different clients differ, and each is marked used and has an
  expiry.
\<close>

theorem no_double_lease:
  assumes "New cfg = Inr s" "cidr_pool (pool s) p"
    and "all_enabled fair_request dhcp_step evs s"
    and "byChid (fold dhcp_step evs s) c = Some ip" "byChid (fold dhcp_step evs s) d = Some ip"
  shows "c = d \<and> used (fold dhcp_step evs s) ip \<and> expiry (fold dhcp_step evs s) ip \<noteq> None"
  using dhcp.run_inv[OF New_lease_inv[OF assms(1,2)] assms(3)] assms(4,5)
  by (auto simp: lease_inv_def)

definition evs30 :: "dhcp_event list" where
  "evs30 = [(None, 0, req30 Discover 7 []), (None, 1, req30 Discover 8 []),
            (None, 2, req30 Release 7 []), (None, 3, req30 Request 8 [10, 0, 0, 2])]"

theorem no_double_lease_witness:
  "byChid (fold dhcp_step evs30 server30) ''02:00:00:00:00:08'' = Some ''10.0.0.2'' \<and>
   used (fold dhcp_step evs30 server30) ''10.0.0.2''"
proof -
  have "all_enabled fair_request dhcp_step evs30 server30" by code_simp
  moreover have b: "byChid (fold dhcp_step evs30 server30) ''02:00:00:00:00:08'' = Some ''10.0.0.2''"
    by code_simp
  ultimately show ?thesis using no_double_lease[OF New_cfg30 cidr_pool30 _ b b] by blast
qed

text \<open>
  Whatever the server was sent before, an OFFER or an ACK names an address of the pool
  that is then on record for the asking client under a live lease.
\<close>

theorem replies_hold_pool_addresses:
  assumes "New cfg = Inr s0" "cidr_pool (pool s0) p" "s = fold dhcp_step evs s0"
    and "0 \<le> leaseTime s" "handle e now req s = (s1, Some r)" "reply_kind r \<noteq> Nak"
  shows "holds now s1 (chid_of req) (yourIP r)"
  using assms run_in_pool reply_holds by metis

theorem replies_hold_pool_addresses_witness:
  "holds 9 (fst (handle None 9 (req30 Discover 7 []) server30)) ''02:00:00:00:00:07'' [10, 0, 0, 2]"
proof -
  let ?h = "handle None 9 (req30 Discover 7 []) server30"
  have h: "?h = (fst ?h, Some (the (snd ?h)))" by (rule prod_eqI) (simp, code_simp)
  have k: "reply_kind (the (snd ?h)) \<noteq> Nak" by code_simp
  have "holds 9 (fst ?h) (chid_of (req30 Discover 7 [])) (yourIP (the (snd ?h)))"
    by (rule replies_hold_pool_addresses[OF New_cfg30 cidr_pool30, of server30 "[]", OF _ _ h k])
      (simp, code_simp)
  moreover have "chid_of (req30 Discover 7 []) = ''02:00:00:00:00:07''" by code_simp
  moreover have "yourIP (the (snd ?h)) = [10, 0, 0, 2]" by code_simp
  ultimately show ?thesis by simp
qed

text \<open>The exchange in detail: the offered address is in the pool, bound to the client, and the REQUEST for it is acknowledged with the pool's data.\<close>

lemma offered_then_acked:
  assumes "chids_in_pool s" "0 \<le> leaseTime s"
    and "MessageType dreq = Discover" "handle e now dreq s = (s1, Some offer)"
    and "MessageType rreq = Request" "ClientHWAddr rreq = ClientHWAddr dreq"
    and "RequestedIPAddress rreq = yourIP offer"
  obtains q ip where "length q = 4" "To4 (yourIP offer) = Some q" "net_Contains (pool s1) q" "byChid s1 (chid_of dreq) = Some (dotted q)"
    "To4 ip = Some q"
    "handle None now' rreq s1 = (commit now' (chid_of dreq) (dotted q) s1, Some (lease_reply Ack ip (commit now' (chid_of dreq) (dotted q) s1)))"
proof -
  obtain ip where o: "allocFor now (chid_of dreq) (RequestedIPAddress dreq) s = (Some ip, s1)"
    "offer = lease_reply Offer ip s1" by (rule handle_Discover[OF assms(3,4)])
  obtain q where q: "To4 ip = Some q" "net_Contains (pool s1) q" "byChid s1 (chid_of dreq) = Some (dotted q)"
    using allocFor_holds[OF assms(1,2) o(1)] by (auto simp: holds_def)
  have l: "length q = 4" using To4_Some[OF q(1)] by simp
  have c: "chid_of rreq = chid_of dreq" by (simp add: chid_of_def assms(6))
  have w: "wanted rreq = ip" "ip \<noteq> []"
    using assms(7) o(2) q(1) by (auto simp: wanted_def lease_reply_def To4_def)
  have "net_Contains (pool s1) ip" using q(1,2) l by (simp add: net_Contains_def To4_def[of q])
  moreover have "same_ip (dotted q) ip"
    using ip_equal_mapped[OF l q(1)] by (simp add: same_ip_def ParseIP_dotted l)
  ultimately have a: "ack_choice now' rreq s1 = (Inr (dotted q), s1)"
    using q(3) w l by (simp add: ack_choice_def Let_def c chid_lease_def dotted_nonempty)
  show ?thesis
  proof (rule that)
    show "length q = 4" by (rule l)
    show "To4 (yourIP offer) = Some q" using o(2) q(1) by (simp add: lease_reply_def)
    show "net_Contains (pool s1) q" "byChid s1 (chid_of dreq) = Some (dotted q)" by (rule q)+
    show "To4 (the (ParseIP (dotted q))) = Some q" using l by (simp add: ParseIP_dotted)
    show "handle None now' rreq s1 =
        (commit now' (chid_of dreq) (dotted q) s1, Some (lease_reply Ack (the (ParseIP (dotted q))) (commit now' (chid_of dreq) (dotted q) s1)))"
      using assms(5) a l by (simp add: handle_def buildReply_def buildACK_def Let_def finish_def ParseIP_dotted c)
  qed
qed

text \<open>
  The exchange completes: a client that was offered an address and requests it gets an ACK
  for that very address, whenever its REQUEST arrives, and holds it.
\<close>

theorem offer_then_request_is_acked:
  assumes "chids_in_pool s" "0 \<le> leaseTime s"
    and "MessageType dreq = Discover" "handle e now dreq s = (s1, Some offer)"
    and "MessageType rreq = Request" "ClientHWAddr rreq = ClientHWAddr dreq"
    and "RequestedIPAddress rreq = yourIP offer"
  shows "\<exists>s2 ack. handle None now' rreq s1 = (s2, Some ack) \<and> reply_kind ack = Ack \<and>
    To4 (yourIP ack) = To4 (yourIP offer) \<and> byChid s2 (chid_of dreq) = byChid s1 (chid_of dreq)"
proof -
  from offered_then_acked[OF assms, of now'] obtain q ip where "byChid s1 (chid_of dreq) = Some (dotted q)"
    "To4 (yourIP offer) = Some q" "To4 ip = Some q"
    "handle None now' rreq s1 = (commit now' (chid_of dreq) (dotted q) s1, Some (lease_reply Ack ip (commit now' (chid_of dreq) (dotted q) s1)))"
    by metis
  then show ?thesis by (simp add: lease_reply_def commit_def)
qed

theorem offer_then_request_is_acked_witness:
  "\<exists>s2 ack. handle None 99 (req30 Request 7 [10, 0, 0, 2])
     (fst (handle None 9 (req30 Discover 7 []) server30)) = (s2, Some ack) \<and> reply_kind ack = Ack"
proof -
  let ?h = "handle None 9 (req30 Discover 7 []) server30"
  have c: "chids_in_pool server30" using New_lease_inv[OF New_cfg30 cidr_pool30] lease_inv_chids by blast
  have h: "?h = (fst ?h, Some (the (snd ?h)))" by (rule prod_eqI) (simp, code_simp)
  have lt: "0 \<le> leaseTime server30" by code_simp
  have y: "RequestedIPAddress (req30 Request 7 [10, 0, 0, 2]) = yourIP (the (snd ?h))" by code_simp
  have "MessageType (req30 Discover 7 []) = Discover"
    "MessageType (req30 Request 7 [10, 0, 0, 2]) = Request"
    "ClientHWAddr (req30 Request 7 [10, 0, 0, 2]) = ClientHWAddr (req30 Discover 7 [])"
    by (simp_all add: req30_def)
  from offer_then_request_is_acked[OF c lt this(1) h this(2,3) y, of 99] show ?thesis by blast
qed

text \<open>
  A repeated DISCOVER of the same client while its lease is live is answered with the same
  address and changes nothing.
\<close>

theorem discover_is_stable:
  assumes "chids_in_pool s" "0 \<le> leaseTime s"
    and "MessageType req = Discover" "handle e now req s = (s1, Some offer)"
    and "\<not> expired now' s1 (chid_lease s1 (chid_of req))"
  shows "\<exists>offer'. handle None now' req s1 = (s1, Some offer') \<and> reply_kind offer' = Offer \<and>
    To4 (yourIP offer') = To4 (yourIP offer)"
proof -
  obtain ip where o: "allocFor now (chid_of req) (RequestedIPAddress req) s = (Some ip, s1)"
    "offer = lease_reply Offer ip s1" by (rule handle_Discover[OF assms(3,4)])
  obtain q where q: "To4 ip = Some q" "byChid s1 (chid_of req) = Some (dotted q)"
    using allocFor_holds[OF assms(1,2) o(1)] by (auto simp: holds_def)
  have l: "length q = 4" using To4_Some[OF q(1)] by simp
  have "allocFor now' (chid_of req) (RequestedIPAddress req) s1 = (Some (v4in6_prefix @ q), s1)"
    using assms(5) q l by (simp add: allocFor_eq chid_lease_def dotted_nonempty ParseIP_dotted)
  then show ?thesis
    using assms(3) q o(2) l
    by (simp add: handle_def buildReply_def buildOffer_def finish_def lease_reply_def)
qed

theorem discover_is_stable_witness:
  "\<exists>offer'. handle None 99 (req30 Discover 7 []) (fst (handle None 9 (req30 Discover 7 []) server30)) =
     (fst (handle None 9 (req30 Discover 7 []) server30), Some offer')"
proof -
  let ?h = "handle None 9 (req30 Discover 7 []) server30"
  have c: "chids_in_pool server30" using New_lease_inv[OF New_cfg30 cidr_pool30] lease_inv_chids by blast
  have h: "?h = (fst ?h, Some (the (snd ?h)))" by (rule prod_eqI) (simp, code_simp)
  have lt: "0 \<le> leaseTime server30" by code_simp
  have "\<not> expired 99 (fst ?h) (chid_lease (fst ?h) (chid_of (req30 Discover 7 [])))" by code_simp
  from discover_is_stable[OF c lt _ h this] show ?thesis by (auto simp: req30_def)
qed

definition server29 :: server where
  "server29 = server30\<lparr>pool := \<lparr>net_ip = [10, 0, 0, 0], net_mask = [255, 255, 255, 248]\<rparr>\<rparr>"

definition evs29 :: "dhcp_event list" where
  "evs29 = [(None, 0, req30 Discover 1 []), (None, 1, req30 Discover 2 []),
            (None, hour + 5, req30 Request 2 [10, 0, 0, 2])]"

text \<open>
  The take-over of an expired lease does happen, and then two clients hold one address: client 1 leases 10.0.0.2 and
  client 2 leases 10.0.0.3; after the lease of client 1 has run out client 2 requests 10.0.0.2
  and gets it, and a renewal by client 1 is then acknowledged for 10.0.0.2 too, so that both
  hold it at the same time.
\<close>

theorem expired_lease_taken_twice:
  "map (\<lambda>c. byChid (fold dhcp_step (evs29 @ [(None, hour + 6, req30 Request 1 [10, 0, 0, 2])]) server29) c)
       [''02:00:00:00:00:01'', ''02:00:00:00:00:02''] = [Some ''10.0.0.2'', Some ''10.0.0.2''] \<and>
   map_option reply_kind (snd (handle None (hour + 6) (req30 Request 1 [10, 0, 0, 2])
     (fold dhcp_step evs29 server29))) = Some Ack"
  by code_simp

text \<open>
  The scan skips the gateway, but a client that asks for the gateway's own address in its
  DISCOVER is offered it.
\<close>

theorem gateway_can_be_leased:
  "map_option yourIP (snd (handle None 0 (req30 Discover 7 (gateway server30)) server30)) =
     Some (gateway server30)"
  by code_simp

end
