(* ===== verification/IpAllow.thy ===== *)
theory IpAllow
  imports Go_Netip
begin

text \<open>
  \<^verbatim>\<open>internal/ipallow/ipallow.go\<close>: the atomically replaceable source-IP allow list. The atomic
  pointer of a \<^verbatim>\<open>Set\<close> is an optional prefix list (\<open>None\<close> is the nil pointer of the zero value);
  a store replaces it as a whole. The theorems characterise admission, show that a failed
  replacement leaves the set as it was, and settle what a bare address in the list admits.
\<close>

subsection \<open>The set and its operations\<close>

record allow_set =
  v :: "prefix list option"

datatype ipallow_error = InvalidCIDR string

text \<open>\<^verbatim>\<open>parse\<close>: one entry is a CIDR or a bare address; empty entries are skipped.\<close>

fun ipallow_parse :: "string list \<Rightarrow> ipallow_error + prefix list" where
  "ipallow_parse [] = Inr []"
| "ipallow_parse (c # cs) =
     (if c = [] then ipallow_parse cs
      else case ParsePrefix c of
          Some pre \<Rightarrow> (case ipallow_parse cs of Inl e \<Rightarrow> Inl e | Inr out \<Rightarrow> Inr (pre # out))
        | None \<Rightarrow>
            (case ParseAddr c of
               None \<Rightarrow> Inl (InvalidCIDR c)
             | Some a \<Rightarrow>
                 (case ipallow_parse cs of
                    Inl e \<Rightarrow> Inl e
                  | Inr out \<Rightarrow> Inr (PrefixFrom a (BitLen a) # out))))"

definition ipallow_New :: "string list \<Rightarrow> ipallow_error + allow_set" where
  "ipallow_New cidrs =
     (case ipallow_parse cidrs of
        Inl e \<Rightarrow> Inl e
      | Inr prefixes \<Rightarrow> Inr \<lparr>v = Some prefixes\<rparr>)"

text \<open>\<^verbatim>\<open>Replace\<close>: the new state and the error returned.\<close>

definition Replace :: "allow_set \<Rightarrow> string list \<Rightarrow> allow_set \<times> ipallow_error option" where
  "Replace s cidrs =
     (case ipallow_parse cidrs of
        Inl e \<Rightarrow> (s, Some e)
      | Inr prefixes \<Rightarrow> (s\<lparr>v := Some prefixes\<rparr>, None))"

fun prefix_loop :: "prefix list \<Rightarrow> addr \<Rightarrow> bool" where
  "prefix_loop [] a = False"
| "prefix_loop (pre # ps) a = (if Contains pre a then True else prefix_loop ps a)"

definition Allowed :: "allow_set \<Rightarrow> addr \<Rightarrow> bool" where
  "Allowed s a =
     (case v s of
        None \<Rightarrow> True
      | Some p \<Rightarrow> if p = [] then True else prefix_loop p (Unmap a))"

definition AllowedString :: "allow_set \<Rightarrow> string \<Rightarrow> bool" where
  "AllowedString s hostport =
     (case ParseAddr (case SplitHostPort hostport of Inl _ \<Rightarrow> hostport | Inr (host, _) \<Rightarrow> host) of
        None \<Rightarrow> False
      | Some a \<Rightarrow> Allowed s a)"

subsection \<open>Lemmas\<close>

interpretation prefix_rules: rule_list Contains prefix_loop
proof
  show "prefix_loop rs x = (\<exists>r\<in>set rs. Contains r x)" for rs x
    by (induction rs) auto
qed

lemma Allowed_iff:
  "Allowed s a \<longleftrightarrow>
     (case v s of None \<Rightarrow> True | Some ps \<Rightarrow> ps = [] \<or> (\<exists>p \<in> set ps. Contains p (Unmap a)))"
  by (auto simp: Allowed_def prefix_rules.admits_iff split: option.splits)

lemma AllowedString_eq:
  "AllowedString s hp = (case addr_of_hostport hp of None \<Rightarrow> False | Some a \<Rightarrow> Allowed s a)"
  by (simp add: AllowedString_def addr_of_hostport_def host_part_def)

lemma AllowedString_empty: "AllowedString \<lparr>v = Some []\<rparr> hp \<longleftrightarrow> addr_of_hostport hp \<noteq> None"
  by (simp add: AllowedString_eq Allowed_def split: option.splits)

text \<open>Every parsed entry is the prefix written there, or the full-length prefix of an address.\<close>

lemma ipallow_parse_member:
  "ipallow_parse cs = Inr ps \<Longrightarrow>
   p \<in> set ps \<longleftrightarrow>
     (\<exists>c \<in> set cs. c \<noteq> [] \<and>
        (ParsePrefix c = Some p \<or>
         (ParsePrefix c = None \<and> (\<exists>a. ParseAddr c = Some a \<and> p = PrefixFrom a (BitLen a)))))"
proof (induction cs arbitrary: ps)
  case Nil
  then show ?case by simp
next
  case (Cons c cs)
  then show ?case
    by (cases "c = []"; cases "ParsePrefix c"; cases "ParseAddr c"; cases "ipallow_parse cs") auto
qed

lemma ipallow_parse_Inl:
  "ipallow_parse cs = Inl e \<Longrightarrow>
   \<exists>c \<in> set cs. e = InvalidCIDR c \<and> c \<noteq> [] \<and> ParsePrefix c = None \<and> ParseAddr c = None"
proof (induction cs)
  case Nil
  then show ?case by simp
next
  case (Cons c cs)
  then show ?case
    by (cases "c = []"; cases "ParsePrefix c"; cases "ParseAddr c"; cases "ipallow_parse cs") auto
qed

lemma dotted_no_slash: "length bs = 4 \<Longrightarrow> CHR ''/'' \<notin> set (dotted bs)"
proof -
  assume "length bs = 4"
  then obtain a b c d where bs: "bs = [a, b, c, d]"
    by (auto simp: length_Suc_conv numeral_eq_Suc)
  have "\<not> is_digit (CHR ''/'')" by (simp add: is_digit_def)
  then have "CHR ''/'' \<notin> set (Itoa n)" for n using Itoa_digits by blast
  then show ?thesis by (simp add: bs dotted_def)
qed

lemma ParsePrefix_dotted [simp]: "length bs = 4 \<Longrightarrow> ParsePrefix (dotted bs) = None"
  by (simp add: ParsePrefix_def LastIndexByte_None_iff[THEN iffD2] dotted_no_slash)

subsection \<open>Properties\<close>

text \<open>
  An allow list admits an address exactly when it is empty or one of its prefixes
  contains the address after an IPv4-mapped IPv6 address has been read as IPv4; so a client
  seen as \<open>::ffff:a.b.c.d\<close> is treated as \<open>a.b.c.d\<close>, and the order of the entries is
  irrelevant.
\<close>

theorem allowed_by_prefixes:
  "Allowed \<lparr>v = Some ps\<rparr> a \<longleftrightarrow> ps = [] \<or> (\<exists>p \<in> set ps. Contains p (Unmap a))"
  by (simp add: Allowed_iff)

text \<open>
  Replacing the list is atomic: a list with an entry that is neither a CIDR nor an
  address leaves the set unchanged and names the first such entry, and otherwise the set
  behaves like a new set made from the list.
\<close>

theorem replace_atomic:
  "Replace s cidrs =
     (case ipallow_New cidrs of
        Inl e \<Rightarrow> (s, Some e)
      | Inr s' \<Rightarrow> (s', None))"
  by (simp add: Replace_def ipallow_New_def split: sum.splits)

text \<open>
  A bare IPv4 address in a one-entry list admits that address (also in its IPv4-mapped
  form) and nothing else.
\<close>

theorem bare_ipv4_entry:
  assumes "length ip = 4"
  shows "\<exists>s. ipallow_New [dotted ip] = Inr s \<and>
    (\<forall>a. Allowed s a \<longleftrightarrow> Unmap a = Addr4 (word_of_bytes ip))"
proof -
  have "ipallow_parse [dotted ip] = Inr [PrefixFrom (Addr4 (word_of_bytes ip)) 32]"
    using assms by (simp add: ParseAddr_dotted)
  then show ?thesis
    by (simp add: ipallow_New_def Allowed_iff Contains_full4)
qed

theorem bare_ipv4_entry_witness:
  "length [10, 42, 0, 7 :: byte] = 4 \<and>
   (\<exists>s. ipallow_New [dotted [10, 42, 0, 7]] = Inr s \<and>
    (\<forall>a. Allowed s a \<longleftrightarrow> Unmap a = Addr4 (word_of_bytes [10, 42, 0, 7])))"
  using bare_ipv4_entry[of "[10, 42, 0, 7]"] by simp

text \<open>
  A bare IPv4-mapped IPv6 address in the list is accepted but admits nobody, not even the
  address it names: the entry becomes a 128-bit prefix, while the address to be checked is
  read as IPv4 before the comparison.
\<close>

theorem mapped_entry_admits_nobody:
  assumes "ParsePrefix c = None" and "ParseAddr c = Some a" and "Is4In6 a" and "c \<noteq> []"
  shows "\<exists>s. ipallow_New [c] = Inr s \<and> (\<forall>x. \<not> Allowed s x)"
proof -
  obtain w z where a: "a = Addr6 w z" using assms(3) by (cases a) auto
  have no: "\<not> Contains (PrefixFrom a (BitLen a)) (Unmap x)" for x
    using assms(3) Unmap_not_4in6[of x] by (auto simp: a Contains_full6)
  have "ipallow_New [c] = Inr \<lparr>v = Some [PrefixFrom a (BitLen a)]\<rparr>"
    using assms by (simp add: ipallow_New_def)
  with no show ?thesis by (simp add: Allowed_iff)
qed

theorem mapped_entry_admits_nobody_witness:
  "ParsePrefix ''::ffff:1.2.3.4'' = None \<and>
   (\<exists>s. ipallow_New [''::ffff:1.2.3.4''] = Inr s \<and> (\<forall>x. \<not> Allowed s x))"
proof -
  have p: "ParsePrefix ''::ffff:1.2.3.4'' = None" by code_simp
  have a: "ParseAddr ''::ffff:1.2.3.4'' = Some (Addr6 0xffff01020304 [])" by code_simp
  have m: "Is4In6 (Addr6 0xffff01020304 [])" by code_simp
  show ?thesis using p mapped_entry_admits_nobody[OF p a m] by simp
qed

end
