(* ===== verification/Registry.thy ===== *)
theory Registry
  imports IpAllow "HOL-Library.AList"
begin

text \<open>
  \<^verbatim>\<open>internal/control/proto.go\<close> and \<^verbatim>\<open>internal/control/registry.go\<close>: the certificates and
  services published by all clients. The maps \<^verbatim>\<open>raw\<close> and \<^verbatim>\<open>http\<close> are association lists (Go's
  iteration order is unspecified, the list's order stands for it), a session pointer is an
  identity with \<open>None\<close> for nil, the version counter is 64 bits wide. Decoding a certificate is
  the parameter \<open>x509\<close>: the leaf's DNS names and common name, or an error text. Every
  operation runs under the registry's lock and is one step.
\<close>

subsection \<open>Wire data\<close>

type_synonym session = nat

record cert_reg =
  CertPEM :: string
  KeyPEM :: string

record service_reg =
  reg_Mode :: string
  reg_Host :: string
  reg_Path :: string
  reg_Upstream :: string
  reg_Allow :: "string list"
  reg_AllowDest :: "string list"
  reg_StripPrefix :: bool
  reg_AddPrefix :: string
  reg_SetHost :: string
  reg_RequestHeaders :: "(string \<times> string) list"
  reg_ResponseHeaders :: "(string \<times> string) list"

definition normPath :: "string \<Rightarrow> string" where
  "normPath p = (if p = '''' then ''/'' else p)"

definition ServiceID :: "string \<Rightarrow> string \<Rightarrow> string \<Rightarrow> string" where
  "ServiceID mode host path =
     (if mode = ''tcp'' then ''tcp://'' @ host
      else if mode = ''socks5'' then ''socks5://'' @ host
      else if mode = ''ws'' then ''wss://'' @ host @ normPath path
      else ''https://'' @ host @ normPath path)"

subsection \<open>State\<close>

record service =
  Mode :: string
  Host :: string
  Path :: string
  Upstream :: string
  StripPrefix :: bool
  AddPrefix :: string
  SetHost :: string
  RequestHeaders :: "(string \<times> string) list"
  ResponseHeaders :: "(string \<times> string) list"
  ClientID :: string
  Session :: "session option"
  Allow :: allow_set

record parsed_cert =
  cert :: "string \<times> string"
  names :: "string list"
  cert_clientID :: string
  cert_session :: "session option"

record registry =
  certs :: "parsed_cert list"
  raw :: "(string \<times> service) list"
  http :: "(string \<times> service list) list"
  version :: "64 word"

definition NewRegistry :: registry where
  "NewRegistry = \<lparr>certs = [], raw = [], http = [], version = 0\<rparr>"

definition service_ID :: "service \<Rightarrow> string" where
  "service_ID s = ServiceID (Mode s) (Host s) (Path s)"

definition isRaw :: "string \<Rightarrow> bool" where
  "isRaw mode \<longleftrightarrow> mode = ''tcp'' \<or> mode = ''socks5''"

definition samePath :: "string \<Rightarrow> string \<Rightarrow> bool" where
  "samePath a b \<longleftrightarrow> normPath a = normPath b"

text \<open>Reading \<^verbatim>\<open>r.http[host]\<close>: nil for an absent key.\<close>

definition http_list :: "registry \<Rightarrow> string \<Rightarrow> service list" where
  "http_list r host = (case map_of (http r) host of None \<Rightarrow> [] | Some l \<Rightarrow> l)"

subsection \<open>Certificates\<close>

record leaf =
  DNSNames :: "string list"
  CommonName :: string

datatype register_error = InvalidCert string | InvalidAllow string ipallow_error
  | HostUsedBy string string | HostUsedForHTTP string string | HostUsedAsRaw string string
  | PathRegistered string string | UnknownMode string string

definition parseCert ::
    "(string \<Rightarrow> string \<Rightarrow> string + leaf) \<Rightarrow> string \<Rightarrow> string \<Rightarrow> register_error + parsed_cert" where
  "parseCert x509 certPEM keyPEM =
     (case x509 certPEM keyPEM of
        Inl e \<Rightarrow> Inl (InvalidCert e)
      | Inr l \<Rightarrow>
          let ns = (if DNSNames l = [] \<and> CommonName l \<noteq> '''' then [CommonName l] else DNSNames l)
          in Inr \<lparr>cert = (certPEM, keyPEM), names = map ToLower ns, cert_clientID = '''', cert_session = None\<rparr>)"

definition AddServerCert ::
    "(string \<Rightarrow> string \<Rightarrow> string + leaf) \<Rightarrow> string \<Rightarrow> string \<Rightarrow> registry \<Rightarrow> registry \<times> register_error option" where
  "AddServerCert x509 certPEM keyPEM r =
     (case parseCert x509 certPEM keyPEM of
        Inl e \<Rightarrow> (r, Some e)
      | Inr pc \<Rightarrow> (r\<lparr>certs := certs r @ [pc], version := version r + 1\<rparr>, None))"

definition wildcardMatch :: "string \<Rightarrow> string \<Rightarrow> bool" where
  "wildcardMatch n host =
     (if n = host then True
      else if HasPrefix n ''*.'' then
        (let suffix = drop 1 n in
         if HasSuffix host suffix then
           (let label = take (length host - length suffix) host in
            label \<noteq> '''' \<and> CHR ''.'' \<notin> set label)
         else False)
      else False)"

text \<open>A scan over the certificates and their names: the first certificate with a matching name.\<close>

definition first_cert :: "(string \<Rightarrow> bool) \<Rightarrow> parsed_cert list \<Rightarrow> parsed_cert option" where
  "first_cert P cs = find (\<lambda>pc. list_ex P (names pc)) cs"

definition LookupCert :: "registry \<Rightarrow> string \<Rightarrow> parsed_cert option" where
  "LookupCert r sni =
     (let host = ToLower (TrimSpace sni) in
      case first_cert (\<lambda>n. n = host) (certs r) of
        Some pc \<Rightarrow> Some pc
      | None \<Rightarrow> first_cert (\<lambda>n. wildcardMatch n host) (certs r))"

subsection \<open>Registration\<close>

definition filterCerts :: "parsed_cert list \<Rightarrow> (parsed_cert \<Rightarrow> bool) \<Rightarrow> parsed_cert list" where
  "filterCerts inp keep = filter keep inp"

text \<open>
  Dropping services from \<^verbatim>\<open>http\<close>: a host whose list becomes empty is deleted from the map.
\<close>

definition prune_http :: "(service \<Rightarrow> bool) \<Rightarrow> (string \<times> service list) list \<Rightarrow> (string \<times> service list) list" where
  "prune_http keep m = filter (\<lambda>(_, l). l \<noteq> []) (map (\<lambda>(h, l). (h, filter keep l)) m)"

definition removeClientLocked :: "string \<Rightarrow> registry \<Rightarrow> registry" where
  "removeClientLocked clientID r =
     r\<lparr>certs := filterCerts (certs r) (\<lambda>pc. cert_clientID pc \<noteq> clientID),
       raw := filter (\<lambda>(_, s). ClientID s \<noteq> clientID) (raw r),
       http := prune_http (\<lambda>s. ClientID s \<noteq> clientID) (http r)\<rparr>"

definition reg_ID :: "service_reg \<Rightarrow> string" where
  "reg_ID sr = ServiceID (reg_Mode sr) (reg_Host sr) (reg_Path sr)"

definition build_cert ::
    "(string \<Rightarrow> string \<Rightarrow> string + leaf) \<Rightarrow> string \<Rightarrow> session option \<Rightarrow> cert_reg \<Rightarrow> register_error + parsed_cert" where
  "build_cert x509 clientID sess c =
     map_sum id (\<lambda>pc. pc\<lparr>cert_clientID := clientID, cert_session := sess\<rparr>)
       (parseCert x509 (CertPEM c) (KeyPEM c))"

definition build_service :: "string \<Rightarrow> session option \<Rightarrow> service_reg \<Rightarrow> register_error + service" where
  "build_service clientID sess sr =
     (case ipallow_New (reg_Allow sr) of
        Inl e \<Rightarrow> Inl (InvalidAllow (reg_ID sr) e)
      | Inr allow \<Rightarrow>
          Inr \<lparr>Mode = reg_Mode sr, Host = ToLower (reg_Host sr),
               Path = (if \<not> isRaw (reg_Mode sr) then normPath (reg_Path sr) else ''''),
               Upstream = reg_Upstream sr, StripPrefix = reg_StripPrefix sr,
               AddPrefix = reg_AddPrefix sr, SetHost = reg_SetHost sr,
               RequestHeaders = reg_RequestHeaders sr, ResponseHeaders = reg_ResponseHeaders sr,
               ClientID = clientID, Session = sess, Allow = allow\<rparr>)"

definition conflict :: "string \<Rightarrow> registry \<Rightarrow> service \<Rightarrow> register_error option" where
  "conflict clientID r s =
     (if isRaw (Mode s) then
        (case map_of (raw r) (Host s) of
           Some ex \<Rightarrow>
             if ClientID ex \<noteq> clientID then Some (HostUsedBy (Host s) (Mode ex))
             else if length (http_list r (Host s)) > 0 then Some (HostUsedForHTTP (Host s) (Mode s))
             else None
         | None \<Rightarrow>
             if length (http_list r (Host s)) > 0 then Some (HostUsedForHTTP (Host s) (Mode s)) else None)
      else if Mode s = ''http'' \<or> Mode s = ''ws'' then
        (case map_of (raw r) (Host s) of
           Some ex \<Rightarrow> Some (HostUsedAsRaw (Host s) (Mode ex))
         | None \<Rightarrow>
             if list_ex (\<lambda>ex. samePath (Path ex) (Path s)) (http_list r (Host s))
             then Some (PathRegistered (Path s) (Host s)) else None)
      else Some (UnknownMode (Mode s) (Host s)))"

definition add_service :: "service \<Rightarrow> registry \<Rightarrow> registry" where
  "add_service s r =
     (if isRaw (Mode s) then r\<lparr>raw := AList.update (Host s) s (raw r)\<rparr>
      else r\<lparr>http := AList.update (Host s) (http_list r (Host s) @ [s]) (http r)\<rparr>)"

definition Register ::
    "(string \<Rightarrow> string \<Rightarrow> string + leaf) \<Rightarrow> string \<Rightarrow> session option \<Rightarrow> cert_reg list \<Rightarrow> service_reg list \<Rightarrow>
     registry \<Rightarrow> registry \<times> register_error option" where
  "Register x509 clientID sess crts srvs r =
     (case traverse_result (build_cert x509 clientID sess) crts of
        Inl e \<Rightarrow> (r, Some e)
      | Inr pcs \<Rightarrow>
          (case traverse_result (build_service clientID sess) srvs of
             Inl e \<Rightarrow> (r, Some e)
           | Inr svcs \<Rightarrow>
               let r1 = removeClientLocked clientID r in
               case first_error (conflict clientID r1) svcs of
                 Some e \<Rightarrow> (r1, Some e)
               | None \<Rightarrow>
                   (let r2 = fold add_service svcs (r1\<lparr>certs := certs r1 @ pcs\<rparr>)
                    in (r2\<lparr>version := version r2 + 1\<rparr>, None))))"

definition ServerOwnerID :: string where
  "ServerOwnerID = CHR 0x00 # ''server''"

definition RegisterServer ::
    "(string \<Rightarrow> string \<Rightarrow> string + leaf) \<Rightarrow> service_reg list \<Rightarrow> registry \<Rightarrow> registry \<times> register_error option" where
  "RegisterServer x509 srvs r = Register x509 ServerOwnerID None [] srvs r"

subsection \<open>Updates, look-ups and teardown\<close>

definition all_services :: "registry \<Rightarrow> service list" where
  "all_services r = map snd (raw r) @ concat (map snd (http r))"

definition findServiceLocked :: "registry \<Rightarrow> string \<Rightarrow> service option" where
  "findServiceLocked r serviceID = find (\<lambda>s. service_ID s = serviceID) (all_services r)"

datatype update_error = NotRegistered string | NotOwned string | BadAllow ipallow_error

text \<open>
  \<^verbatim>\<open>s.Allow.Replace\<close> writes through the service pointer: the first service with that identifier
  is the one whose set changes.
\<close>

fun update_first :: "('a \<Rightarrow> bool) \<Rightarrow> ('a \<Rightarrow> 'a) \<Rightarrow> 'a list \<Rightarrow> 'a list" where
  "update_first P f [] = []"
| "update_first P f (x # xs) = (if P x then f x # xs else x # update_first P f xs)"

fun update_first_http ::
    "(service \<Rightarrow> bool) \<Rightarrow> (service \<Rightarrow> service) \<Rightarrow> (string \<times> service list) list \<Rightarrow> (string \<times> service list) list" where
  "update_first_http P f [] = []"
| "update_first_http P f ((h, l) # m) =
     (if list_ex P l then (h, update_first P f l) # m else (h, l) # update_first_http P f m)"

definition set_allow :: "string \<Rightarrow> allow_set \<Rightarrow> registry \<Rightarrow> registry" where
  "set_allow serviceID a r =
     (let P = (\<lambda>s. service_ID s = serviceID); f = (\<lambda>s. s\<lparr>Allow := a\<rparr>) in
      if list_ex P (map snd (raw r))
      then r\<lparr>raw := update_first (\<lambda>(_, s). P s) (\<lambda>(h, s). (h, f s)) (raw r)\<rparr>
      else r\<lparr>http := update_first_http P f (http r)\<rparr>)"

definition UpdateWhitelist ::
    "string \<Rightarrow> string \<Rightarrow> string list \<Rightarrow> registry \<Rightarrow> registry \<times> update_error option" where
  "UpdateWhitelist clientID serviceID allow r =
     (case findServiceLocked r serviceID of
        None \<Rightarrow> (r, Some (NotRegistered serviceID))
      | Some s \<Rightarrow>
          if ClientID s \<noteq> clientID then (r, Some (NotOwned serviceID))
          else (case Replace (Allow s) allow of
                  (_, Some e) \<Rightarrow> (r, Some (BadAllow e))
                | (a, None) \<Rightarrow>
                    (let r1 = set_allow serviceID a r in (r1\<lparr>version := version r1 + 1\<rparr>, None))))"

definition RawService :: "registry \<Rightarrow> string \<Rightarrow> service option" where
  "RawService r host = map_of (raw r) (ToLower host)"

definition HTTPServices :: "registry \<Rightarrow> string \<Rightarrow> service list" where
  "HTTPServices r host = http_list r (ToLower host)"

definition HasHTTPHost :: "registry \<Rightarrow> string \<Rightarrow> bool" where
  "HasHTTPHost r host \<longleftrightarrow> length (http_list r (ToLower host)) > 0"

definition addrOf :: "string \<Rightarrow> addr option" where
  "addrOf remote =
     ParseAddr (case SplitHostPort remote of Inl _ \<Rightarrow> remote | Inr (host, _) \<Rightarrow> host)"

definition HTTPHostAllowed :: "registry \<Rightarrow> string \<Rightarrow> string \<Rightarrow> bool" where
  "HTTPHostAllowed r host remote =
     (case addrOf remote of
        None \<Rightarrow> False
      | Some a \<Rightarrow> list_ex (\<lambda>s. Allowed (Allow s) a) (http_list r (ToLower host)))"

definition RemoveSession :: "session option \<Rightarrow> registry \<Rightarrow> registry \<times> string list" where
  "RemoveSession sess r =
     (let crts = filterCerts (certs r) (\<lambda>pc. cert_session pc \<noteq> sess);
          gone = filter (\<lambda>s. Session s = sess) (all_services r);
          changed = (length crts \<noteq> length (certs r) \<or> gone \<noteq> []);
          r1 = r\<lparr>certs := crts,
                 raw := filter (\<lambda>(_, s). Session s \<noteq> sess) (raw r),
                 http := prune_http (\<lambda>s. Session s \<noteq> sess) (http r)\<rparr>
      in (if changed then r1\<lparr>version := version r1 + 1\<rparr> else r1, map service_ID gone))"
subsection \<open>Well-formedness\<close>

definition wf_reg :: "registry \<Rightarrow> bool" where
  "wf_reg r \<longleftrightarrow> distinct (map fst (raw r)) \<and> distinct (map fst (http r)) \<and>
     (\<forall>(h, s) \<in> set (raw r). Host s = h \<and> isRaw (Mode s)) \<and>
     (\<forall>(h, l) \<in> set (http r). l \<noteq> [] \<and> (\<forall>s \<in> set l. Host s = h \<and> \<not> isRaw (Mode s)))"

text \<open>A host, or a path of a host, belongs to one client at a time.\<close>

definition exclusive :: "registry \<Rightarrow> bool" where
  "exclusive r \<longleftrightarrow>
     (\<forall>s \<in> set (all_services r). \<forall>t \<in> set (all_services r).
        ClientID s \<noteq> ClientID t \<longrightarrow> Host s = Host t \<longrightarrow>
        \<not> isRaw (Mode s) \<and> \<not> isRaw (Mode t) \<and> \<not> samePath (Path s) (Path t))"

lemma prune_concat: "concat (map snd (prune_http keep m)) = filter keep (concat (map snd m))"
  by (induction m) (auto simp: prune_http_def)

lemma fst_prune: "fst ` set (prune_http keep m) \<subseteq> fst ` set m"
  by (auto simp: prune_http_def image_iff) force

lemma normPath_idem [simp]: "normPath (normPath p) = normPath p"
  by (simp add: normPath_def)

lemma distinct_prune: "distinct (map fst m) \<Longrightarrow> distinct (map fst (prune_http keep m))"
proof (induction m)
  case (Cons hl m)
  then show ?case using fst_prune[of keep m] by (cases hl) (auto simp: prune_http_def)
qed (simp add: prune_http_def)

lemma map_of_prune:
  "distinct (map fst m) \<Longrightarrow>
     (case map_of (prune_http keep m) h of None \<Rightarrow> [] | Some l \<Rightarrow> l) =
     filter keep (case map_of m h of None \<Rightarrow> [] | Some l \<Rightarrow> l)"
proof (induction m)
  case (Cons hl m)
  obtain g l where hl: "hl = (g, l)" by (cases hl)
  have "g \<notin> fst ` set (prune_http keep m)" using Cons.prems hl fst_prune[of keep m] by auto
  then have "map_of (prune_http keep m) g = None" by (simp add: map_of_eq_None_iff)
  then show ?case using Cons by (auto simp: prune_http_def hl)
qed (simp add: prune_http_def)

lemma http_list_prune:
  "distinct (map fst (http r)) \<Longrightarrow>
     http_list (r\<lparr>http := prune_http keep (http r)\<rparr>) h = filter keep (http_list r h)"
  using map_of_prune[of "http r" keep h] by (simp add: http_list_def)

lemma map_snd_filter: "map snd (filter (\<lambda>(_, s). P s) m) = filter P (map snd m)"
  by (induction m) auto

lemma map_of_filter_snd:
  "distinct (map fst m) \<Longrightarrow>
     map_of (filter (\<lambda>(_, s). P s) m) h = (case map_of m h of Some s \<Rightarrow> if P s then Some s else None | None \<Rightarrow> None)"
proof (induction m)
  case (Cons hs m)
  have "h \<notin> fst ` set m \<Longrightarrow> map_of (filter (\<lambda>(_, s). P s) m) h = None"
    by (auto simp: map_of_eq_None_iff)
  with Cons show ?case by (cases hs) (auto simp: map_of_eq_None_iff split: option.splits)
qed simp

text \<open>Keeping only some services, as both kinds of removal do.\<close>

definition keep_services :: "(service \<Rightarrow> bool) \<Rightarrow> registry \<Rightarrow> registry" where
  "keep_services P r = r\<lparr>raw := filter (\<lambda>(_, s). P s) (raw r), http := prune_http P (http r)\<rparr>"

lemma all_services_keep: "all_services (keep_services P r) = filter P (all_services r)"
  by (simp add: all_services_def keep_services_def prune_concat map_snd_filter)

lemma http_list_keep:
  "wf_reg r \<Longrightarrow> http_list (keep_services P r) h = filter P (http_list r h)"
  using http_list_prune[of "r\<lparr>raw := filter (\<lambda>(_, s). P s) (raw r)\<rparr>" P h]
  by (simp add: keep_services_def wf_reg_def http_list_def)

lemma raw_keep:
  "wf_reg r \<Longrightarrow> map_of (raw (keep_services P r)) h =
     (case map_of (raw r) h of Some s \<Rightarrow> if P s then Some s else None | None \<Rightarrow> None)"
  by (simp add: keep_services_def wf_reg_def map_of_filter_snd)

lemma wf_keep: "wf_reg r \<Longrightarrow> wf_reg (keep_services P r)"
proof -
  assume w: "wf_reg r"
  have "distinct (map fst (filter (\<lambda>(_, s). P s) (raw r)))"
    using w by (simp add: wf_reg_def distinct_map inj_on_def)
  moreover have "\<forall>(h, l) \<in> set (prune_http P (http r)). l \<noteq> [] \<and> (\<forall>s \<in> set l. Host s = h \<and> \<not> isRaw (Mode s))"
    using w by (force simp: wf_reg_def prune_http_def)
  ultimately show ?thesis
    using w by (auto simp: wf_reg_def keep_services_def distinct_prune)
qed

lemma exclusive_keep: "exclusive r \<Longrightarrow> exclusive (keep_services P r)"
  by (auto simp: exclusive_def all_services_keep)

lemma services_cong:
  "raw r = raw r' \<Longrightarrow> http r = http r' \<Longrightarrow>
     all_services r = all_services r' \<and> wf_reg r = wf_reg r' \<and> exclusive r = exclusive r' \<and> http_list r = http_list r'"
  by (simp add: all_services_def wf_reg_def exclusive_def http_list_def fun_eq_iff)

lemma removeClient_keep:
  "raw (removeClientLocked c r) = raw (keep_services (\<lambda>s. ClientID s \<noteq> c) r)"
  "http (removeClientLocked c r) = http (keep_services (\<lambda>s. ClientID s \<noteq> c) r)"
  by (simp_all add: removeClientLocked_def keep_services_def)

lemmas removeClient_facts = services_cong[OF removeClient_keep]

text \<open>Membership by host.\<close>

lemma http_list_subset: "set (http_list r h) \<subseteq> set (concat (map snd (http r)))"
proof (cases "map_of (http r) h")
  case (Some l)
  then have "(h, l) \<in> set (http r)" by (rule map_of_SomeD)
  then have "set l \<subseteq> set (concat (map snd (http r)))" by force
  then show ?thesis by (simp add: http_list_def Some)
qed (simp add: http_list_def)

lemma wf_mem:
  assumes "wf_reg r"
  shows "s \<in> set (all_services r) \<longleftrightarrow>
    (if isRaw (Mode s) then map_of (raw r) (Host s) = Some s else s \<in> set (http_list r (Host s)))"
proof -
  have d: "distinct (map fst (raw r))" "distinct (map fst (http r))" using assms by (auto simp: wf_reg_def)
  have "s \<in> snd ` set (raw r) \<longleftrightarrow> isRaw (Mode s) \<and> map_of (raw r) (Host s) = Some s"
    using assms map_of_eq_Some_iff[OF d(1), of "Host s" s] by (force simp: wf_reg_def)
  moreover have "s \<in> set (concat (map snd (http r))) \<longleftrightarrow> \<not> isRaw (Mode s) \<and> s \<in> set (http_list r (Host s))"
  proof
    assume "s \<in> set (concat (map snd (http r)))"
    then obtain h l where hl: "(h, l) \<in> set (http r)" "s \<in> set l" by auto
    then have "Host s = h" "\<not> isRaw (Mode s)" using assms by (auto simp: wf_reg_def)
    then show "\<not> isRaw (Mode s) \<and> s \<in> set (http_list r (Host s))"
      using hl map_of_eq_Some_iff[OF d(2), of h l] by (simp add: http_list_def)
  next
    assume a: "\<not> isRaw (Mode s) \<and> s \<in> set (http_list r (Host s))"
    then show "s \<in> set (concat (map snd (http r)))" using http_list_subset by blast
  qed
  ultimately show ?thesis by (auto simp: all_services_def)
qed

subsection \<open>Lemmas: registration\<close>

lemma set_update_snd: "snd ` set (AList.update k x m) \<subseteq> insert x (snd ` set m)"
  by (induction m) auto

lemma all_services_add: "set (all_services (add_service s r)) \<subseteq> insert s (set (all_services r))"
proof -
  have "set (concat (map snd (AList.update (Host s) (http_list r (Host s) @ [s]) (http r))))
      \<subseteq> insert s (set (concat (map snd (http r))))"
    using set_update_snd[of "Host s" "http_list r (Host s) @ [s]" "http r"] http_list_subset[of r "Host s"]
    by fastforce
  then show ?thesis
    using set_update_snd[of "Host s" s "raw r"] by (auto simp: all_services_def add_service_def)
qed

lemma all_services_fold: "set (all_services (fold add_service svcs r)) \<subseteq> set svcs \<union> set (all_services r)"
proof (induction svcs arbitrary: r)
  case (Cons s svcs)
  then show ?case using all_services_add[of s r] by fastforce
qed simp

lemma set_update_pair: "(h, x) \<in> set (AList.update k y m) \<Longrightarrow> (h, x) = (k, y) \<or> (h, x) \<in> set m"
  by (induction m) (auto split: if_splits)

lemma wf_add: "wf_reg r \<Longrightarrow> wf_reg (add_service s r)"
proof -
  assume w: "wf_reg r"
  have "\<forall>x \<in> set (http_list r (Host s)). Host x = Host s \<and> \<not> isRaw (Mode x)"
    using w by (cases "map_of (http r) (Host s)") (auto simp: http_list_def wf_reg_def dest!: map_of_SomeD)
  then show ?thesis
    using w by (auto simp: wf_reg_def add_service_def AList.distinct_update dest!: set_update_pair)
qed

lemma wf_fold: "wf_reg r \<Longrightarrow> wf_reg (fold add_service svcs r)"
  by (induction svcs arbitrary: r) (auto simp: wf_add)

lemma build_service_fields:
  "build_service c sess sr = Inr s \<Longrightarrow>
     ClientID s = c \<and> Session s = sess \<and> Host s = ToLower (reg_Host sr) \<and> Mode s = reg_Mode sr"
  by (auto simp: build_service_def split: sum.splits)

lemma built_services:
  "traverse_result (build_service c sess) srvs = Inr svcs \<Longrightarrow> s \<in> set svcs \<Longrightarrow> ClientID s = c \<and> Session s = sess"
  using build_service_fields by (auto simp: traverse_result_Inr_iff list_all2_conv_all_nth in_set_conv_nth)

lemma no_conflict:
  assumes "wf_reg r" "conflict c r s = None" "t \<in> set (all_services r)" "ClientID t \<noteq> c" "Host t = Host s"
  shows "\<not> isRaw (Mode s) \<and> \<not> isRaw (Mode t) \<and> \<not> samePath (Path t) (Path s)"
  using assms(2,4,5) wf_mem[OF assms(1), of t] assms(3)
  by (auto simp: conflict_def list_ex_iff split: if_splits option.splits)

text \<open>The three ways a registration ends.\<close>

lemma Register_cases:
  obtains (invalid) e where "Register x509 c sess crts srvs r = (r, Some e)"
  | (conflicted) e where "Register x509 c sess crts srvs r = (removeClientLocked c r, Some e)"
  | (accepted) svcs pcs where
      "traverse_result (build_service c sess) srvs = Inr svcs"
      "traverse_result (build_cert x509 c sess) crts = Inr pcs"
      "\<forall>s \<in> set svcs. conflict c (removeClientLocked c r) s = None"
      "\<exists>r2. r2 = fold add_service svcs ((removeClientLocked c r)\<lparr>certs := certs (removeClientLocked c r) @ pcs\<rparr>) \<and>
         Register x509 c sess crts srvs r = (r2\<lparr>version := version r2 + 1\<rparr>, None)"
proof (cases "traverse_result (build_cert x509 c sess) crts")
  case (Inl e)
  then show thesis by (intro invalid[of e]) (simp add: Register_def)
next
  case (Inr pcs)
  note p = Inr
  show thesis
  proof (cases "traverse_result (build_service c sess) srvs")
    case (Inl e)
    then show thesis using p by (intro invalid[of e]) (simp add: Register_def)
  next
    case (Inr svcs)
    show thesis
    proof (cases "first_error (Registry.conflict c (removeClientLocked c r)) svcs")
      case None
      then show thesis
        using Inr p first_error_None_iff[of "Registry.conflict c (removeClientLocked c r)" svcs]
        by (intro accepted[of svcs pcs]) (simp_all add: Register_def Let_def)
    next
      case (Some e)
      then show thesis using Inr p by (intro conflicted[of e]) (simp add: Register_def Let_def)
    qed
  qed
qed

text \<open>What a new service cannot displace.\<close>

lemma add_service_keeps:
  assumes "wf_reg r" "t \<in> set (all_services r)"
    and "isRaw (Mode s) \<Longrightarrow> isRaw (Mode t) \<Longrightarrow> Host t \<noteq> Host s"
  shows "t \<in> set (all_services (add_service s r))"
  using assms wf_mem[OF assms(1), of t] wf_mem[OF wf_add[OF assms(1), of s], of t]
  by (auto simp: add_service_def http_list_def AList.update_conv' split: if_splits)

lemma add_service_adds:
  assumes "wf_reg r"
  shows "s \<in> set (all_services (add_service s r))"
  using wf_mem[OF wf_add[OF assms, of s], of s]
  by (simp add: add_service_def http_list_def AList.update_conv')

lemma fold_keeps:
  "wf_reg r \<Longrightarrow> t \<in> set (all_services r) \<Longrightarrow>
     \<forall>s \<in> set svcs. isRaw (Mode s) \<longrightarrow> isRaw (Mode t) \<longrightarrow> Host t \<noteq> Host s \<Longrightarrow>
     t \<in> set (all_services (fold add_service svcs r))"
  by (induction svcs arbitrary: r) (auto simp: wf_add add_service_keeps)

lemma fold_adds_http:
  "wf_reg r \<Longrightarrow> s \<in> set svcs \<Longrightarrow> \<not> isRaw (Mode s) \<Longrightarrow> s \<in> set (all_services (fold add_service svcs r))"
proof (induction svcs arbitrary: r)
  case (Cons x svcs)
  then show ?case
    using fold_keeps[OF wf_add[OF Cons.prems(1), of x] add_service_adds[OF Cons.prems(1)], of svcs]
    by (cases "s = x") (auto simp: wf_add)
qed simp

lemma fold_raw_host:
  "s \<in> set svcs \<Longrightarrow> isRaw (Mode s) \<Longrightarrow>
     \<exists>t \<in> set svcs. map_of (raw (fold add_service svcs r)) (Host s) = Some t \<and> Host t = Host s"
proof (induction svcs rule: rev_induct)
  case (snoc x svcs)
  show ?case
  proof (cases "isRaw (Mode x) \<and> Host x = Host s")
    case True
    then show ?thesis by (auto simp: add_service_def AList.update_conv')
  next
    case False
    then have "s \<in> set svcs" using snoc.prems by auto
    with snoc False show ?thesis by (auto simp: add_service_def AList.update_conv')
  qed
qed simp

subsection \<open>The registry as a machine\<close>

datatype reg_op = OpRegister string session "cert_reg list" "service_reg list"
  | OpServer "service_reg list"
  | OpServerCert string string
  | OpUpdate string string "string list"
  | OpRemove session

fun reg_step :: "(string \<Rightarrow> string \<Rightarrow> string + leaf) \<Rightarrow> reg_op \<Rightarrow> registry \<Rightarrow> registry" where
  "reg_step x509 (OpRegister c sess crts srvs) r = fst (Register x509 c (Some sess) crts srvs r)"
| "reg_step x509 (OpServer srvs) r = fst (RegisterServer x509 srvs r)"
| "reg_step x509 (OpServerCert cp kp) r = fst (AddServerCert x509 cp kp r)"
| "reg_step x509 (OpUpdate c i allow) r = fst (UpdateWhitelist c i allow r)"
| "reg_step x509 (OpRemove sess) r = fst (RemoveSession (Some sess) r)"

definition reg_inv :: "registry \<Rightarrow> bool" where
  "reg_inv r \<longleftrightarrow> wf_reg r \<and> exclusive r"

lemma reg_inv_cong: "raw r = raw r' \<Longrightarrow> http r = http r' \<Longrightarrow> reg_inv r = reg_inv r'"
  using services_cong[of r r'] by (simp add: reg_inv_def)

lemma reg_inv_keep: "reg_inv r \<Longrightarrow> reg_inv (keep_services P r)"
  by (simp add: reg_inv_def wf_keep exclusive_keep)

lemma reg_inv_removeClient: "reg_inv r \<Longrightarrow> reg_inv (removeClientLocked c r)"
  using reg_inv_cong[OF removeClient_keep] reg_inv_keep by blast

lemma services_removeClient:
  "all_services (removeClientLocked c r) = filter (\<lambda>s. ClientID s \<noteq> c) (all_services r)"
  using removeClient_facts all_services_keep by metis

lemma reg_inv_commit:
  assumes "reg_inv r" "\<forall>t \<in> set (all_services r). ClientID t \<noteq> c"
    and "\<forall>s \<in> set svcs. ClientID s = c \<and> conflict c r s = None"
  shows "reg_inv (fold add_service svcs r)"
proof -
  have w: "wf_reg r" "exclusive r" using assms(1) by (auto simp: reg_inv_def)
  have cross: "\<not> isRaw (Mode s) \<and> \<not> isRaw (Mode t) \<and> \<not> samePath (Path s) (Path t) \<and> \<not> samePath (Path t) (Path s)"
    if "s \<in> set svcs" "t \<in> set (all_services r)" "Host t = Host s" for s t
    using that assms(2,3) no_conflict[OF w(1), of c s t] by (auto simp: samePath_def)
  have "exclusive (fold add_service svcs r)"
    unfolding exclusive_def
  proof (intro ballI impI)
    fix s t assume st: "s \<in> set (all_services (fold add_service svcs r))"
      "t \<in> set (all_services (fold add_service svcs r))" "ClientID s \<noteq> ClientID t" "Host s = Host t"
    then consider "s \<in> set (all_services r)" "t \<in> set (all_services r)"
      | "s \<in> set svcs" "t \<in> set (all_services r)" | "s \<in> set (all_services r)" "t \<in> set svcs"
      using all_services_fold[of svcs r] assms(3) by (metis Un_iff subsetD)
    then show "\<not> isRaw (Mode s) \<and> \<not> isRaw (Mode t) \<and> \<not> samePath (Path s) (Path t)"
      using st w(2) cross[of s t] cross[of t s] unfolding exclusive_def by cases auto
  qed
  then show ?thesis using wf_fold[OF w(1)] by (simp add: reg_inv_def)
qed

lemma reg_inv_Register: "reg_inv r \<Longrightarrow> reg_inv (fst (Register x509 c sess crts srvs r))"
proof (cases rule: Register_cases[of x509 c sess crts srvs r])
  case (invalid e)
  then show "reg_inv r \<Longrightarrow> ?thesis" by simp
next
  case (conflicted e)
  then show "reg_inv r \<Longrightarrow> ?thesis" by (simp add: reg_inv_removeClient)
next
  case (accepted svcs pcs)
  assume i: "reg_inv r"
  let ?r1 = "removeClientLocked c r"
  let ?r1' = "?r1\<lparr>certs := certs ?r1 @ pcs\<rparr>"
  note sc = services_cong[of ?r1' ?r1, simplified]
  have "reg_inv ?r1'" using reg_inv_removeClient[OF i] reg_inv_cong[of ?r1' ?r1] by simp
  moreover have "conflict c ?r1' s = conflict c ?r1 s" for s
    using sc by (simp add: conflict_def)
  ultimately have "reg_inv (fold add_service svcs ?r1')"
    using accepted(3) built_services[OF accepted(1)] sc
    by (intro reg_inv_commit[where c = c]) (auto simp: services_removeClient)
  then show ?thesis
    using accepted(4) by (auto simp: reg_inv_cong[of "_\<lparr>version := _\<rparr>"])
qed

text \<open>Erasing the allow lists: an update changes nothing else.\<close>

definition erase :: "service \<Rightarrow> service" where
  "erase s = s\<lparr>Allow := \<lparr>v = None\<rparr>\<rparr>"

definition erased :: "registry \<Rightarrow> registry" where
  "erased r = r\<lparr>raw := map (map_prod id erase) (raw r), http := map (map_prod id (map erase)) (http r)\<rparr>"

lemma erase_fields [simp]:
  "Mode (erase s) = Mode s" "Host (erase s) = Host s" "Path (erase s) = Path s" "ClientID (erase s) = ClientID s"
  "Session (erase s) = Session s"
  by (simp_all add: erase_def)

lemma all_services_erased: "all_services (erased r) = map erase (all_services r)"
  by (simp add: all_services_def erased_def map_concat comp_def)

lemma reg_inv_erased: "reg_inv (erased r) = reg_inv r"
proof -
  have "exclusive (erased r) = exclusive r" by (simp add: exclusive_def all_services_erased)
  moreover have "wf_reg (erased r) = wf_reg r"
    by (simp add: wf_reg_def erased_def comp_def case_prod_unfold)
  ultimately show ?thesis by (simp add: reg_inv_def)
qed

lemma update_first_erase:
  "(\<And>x. P x \<Longrightarrow> g (f x) = g x) \<Longrightarrow> map g (update_first P f xs) = map g xs"
  by (induction xs) auto

lemma update_first_http_erase:
  "(\<And>x. erase (f x) = erase x) \<Longrightarrow>
     map (map_prod id (map erase)) (update_first_http P f m) = map (map_prod id (map erase)) m"
  by (induction P f m rule: update_first_http.induct) (auto simp: update_first_erase)

lemma erased_set_allow:
  "raw (erased (set_allow i a r)) = raw (erased r) \<and> http (erased (set_allow i a r)) = http (erased r)"
  by (auto simp: erased_def set_allow_def Let_def update_first_http_erase erase_def
      intro!: update_first_erase)

lemma UpdateWhitelist_erased:
  "raw (erased (fst (UpdateWhitelist c i allow r))) = raw (erased r) \<and>
   http (erased (fst (UpdateWhitelist c i allow r))) = http (erased r)"
  using erased_set_allow[of i _ r]
  by (auto simp: UpdateWhitelist_def Let_def erased_def split: option.splits prod.splits)

lemma reg_inv_Update: "reg_inv r \<Longrightarrow> reg_inv (fst (UpdateWhitelist c i allow r))"
  using UpdateWhitelist_erased[of c i allow r] reg_inv_erased reg_inv_cong by metis

lemma RemoveSession_keep:
  "raw (fst (RemoveSession sess r)) = raw (keep_services (\<lambda>s. Session s \<noteq> sess) r)"
  "http (fst (RemoveSession sess r)) = http (keep_services (\<lambda>s. Session s \<noteq> sess) r)"
  by (simp_all add: RemoveSession_def keep_services_def Let_def)

lemma reg_inv_Remove: "reg_inv r \<Longrightarrow> reg_inv (fst (RemoveSession sess r))"
  using reg_inv_cong[OF RemoveSession_keep] reg_inv_keep by blast

lemma reg_inv_ServerCert: "reg_inv r \<Longrightarrow> reg_inv (fst (AddServerCert x509 cp kp r))"
  using reg_inv_cong[of "fst (AddServerCert x509 cp kp r)" r]
  by (simp add: AddServerCert_def split: sum.splits)

interpretation registry: invariant_machine "reg_step x509" "\<lambda>_ _. True" reg_inv
  for x509
proof
  fix r op assume "reg_inv r"
  then show "reg_inv (reg_step x509 op r)"
    by (cases op) (simp_all add: reg_inv_Register reg_inv_Update reg_inv_Remove reg_inv_ServerCert RegisterServer_def)
qed

lemma reg_inv_New: "reg_inv NewRegistry"
  by (simp add: reg_inv_def wf_reg_def exclusive_def all_services_def NewRegistry_def)

lemma reg_inv_run: "reg_inv (fold (reg_step x509) ops NewRegistry)"
  by (simp add: registry.run_inv reg_inv_New)

subsection \<open>Properties\<close>

text \<open>A decoder of certificates for the examples: the certificate text is its only DNS name.\<close>

definition x509_ex :: "string \<Rightarrow> string \<Rightarrow> string + leaf" where
  "x509_ex cp kp = (if cp = '''' then Inl ''bad certificate'' else Inr \<lparr>DNSNames = [cp], CommonName = ''''\<rparr>)"

definition svc_ex :: "string \<Rightarrow> string \<Rightarrow> string \<Rightarrow> string list \<Rightarrow> service_reg" where
  "svc_ex mode host path allow =
     \<lparr>reg_Mode = mode, reg_Host = host, reg_Path = path, reg_Upstream = ''127.0.0.1:80'', reg_Allow = allow, reg_AllowDest = [],
      reg_StripPrefix = False, reg_AddPrefix = '''', reg_SetHost = '''', reg_RequestHeaders = [], reg_ResponseHeaders = []\<rparr>"

definition ops_ex :: "reg_op list" where
  "ops_ex = [OpServerCert ''*.example'' ''k'', OpServer [svc_ex ''http'' ''web.example'' ''/api'' []],
     OpRegister ''alice'' 1 [\<lparr>CertPEM = ''ssh.example'', KeyPEM = ''k''\<rparr>] [svc_ex ''tcp'' ''SSH.example'' '''' []],
     OpRegister ''bob'' 2 [] [svc_ex ''http'' ''web.example'' '''' [''10.0.0.0/8'']]]"

definition reg_ex :: registry where
  "reg_ex = fold (reg_step x509_ex) ops_ex NewRegistry"

text \<open>
  C7. First come, first served, across clients: in every state the registry can reach, two
  services of different clients never share a host unless both are http or ws and their paths
  differ.
\<close>

theorem clients_never_overlap:
  assumes "r = fold (reg_step x509) ops NewRegistry"
    and "s \<in> set (all_services r)" "t \<in> set (all_services r)" "ClientID s \<noteq> ClientID t" "Host s = Host t"
  shows "\<not> isRaw (Mode s) \<and> \<not> isRaw (Mode t) \<and> \<not> samePath (Path s) (Path t)"
  using reg_inv_run[of x509 ops] assms unfolding reg_inv_def exclusive_def by blast

theorem clients_never_overlap_witness:
  "\<not> samePath (Path (HTTPServices reg_ex ''web.example'' ! 0)) (Path (HTTPServices reg_ex ''web.example'' ! 1))"
proof -
  let ?s = "HTTPServices reg_ex ''web.example'' ! 0" and ?t = "HTTPServices reg_ex ''web.example'' ! 1"
  have len: "length (HTTPServices reg_ex ''web.example'') = 2" by code_simp
  have "?s \<in> set (HTTPServices reg_ex ''web.example'')" "?t \<in> set (HTTPServices reg_ex ''web.example'')"
    using len by simp_all
  then have m: "?s \<in> set (all_services reg_ex)" "?t \<in> set (all_services reg_ex)"
    using http_list_subset[of reg_ex "ToLower ''web.example''"]
    unfolding HTTPServices_def all_services_def set_append by blast+
  have c: "ClientID ?s \<noteq> ClientID ?t" "Host ?s = Host ?t" by code_simp+
  show ?thesis using clients_never_overlap[OF reg_ex_def m c] by blast
qed

text \<open>
  C8. A client cannot touch what others publish: whatever a client registers, and whether or
  not the registration succeeds, every service of every other client stays as it was and none
  appears in another client's name.
\<close>

theorem others_untouched:
  assumes "r = fold (reg_step x509) ops NewRegistry" "ClientID t \<noteq> c"
  shows "t \<in> set (all_services (fst (Register x509' c sess crts srvs r))) \<longleftrightarrow> t \<in> set (all_services r)"
proof (cases rule: Register_cases[of x509' c sess crts srvs r])
  case (invalid e)
  then show ?thesis by simp
next
  case (conflicted e)
  then show ?thesis using assms(2) by (simp add: services_removeClient)
next
  case (accepted svcs pcs)
  let ?r1 = "removeClientLocked c r"
  let ?r1' = "?r1\<lparr>certs := certs ?r1 @ pcs\<rparr>"
  let ?r2 = "fold add_service svcs ?r1'"
  have i: "reg_inv ?r1" using reg_inv_run assms(1) reg_inv_removeClient by blast
  have same: "all_services ?r1' = all_services ?r1" "wf_reg ?r1'"
    using services_cong[of ?r1' ?r1] i by (auto simp: reg_inv_def)
  have "set (all_services ?r1) = {s \<in> set (all_services r). ClientID s \<noteq> c}"
    by (simp add: services_removeClient)
  moreover have "t \<in> set (all_services ?r2)" if "t \<in> set (all_services ?r1)"
  proof (rule fold_keeps)
    show "\<forall>s \<in> set svcs. isRaw (Mode s) \<longrightarrow> isRaw (Mode t) \<longrightarrow> Host t \<noteq> Host s"
      using no_conflict[of ?r1 c _ t] accepted(3) i assms(2) that by (auto simp: reg_inv_def)
  qed (use same that in simp_all)
  moreover have "t \<in> set svcs \<Longrightarrow> False" using built_services[OF accepted(1)] assms(2) by blast
  then have "t \<in> set (all_services ?r1)" if "t \<in> set (all_services ?r2)"
    using that all_services_fold[of svcs ?r1'] same(1) by auto
  moreover have "all_services (fst (Register x509' c sess crts srvs r)) = all_services ?r2"
    using accepted(4) by (auto simp: all_services_def)
  ultimately show ?thesis using assms(2) by auto
qed

theorem others_untouched_witness:
  "the (RawService reg_ex ''ssh.example'') \<in>
     set (all_services (fst (Register x509_ex ''bob'' (Some 2) [] [svc_ex ''http'' ''new.example'' '''' []] reg_ex)))"
proof -
  let ?t = "the (RawService reg_ex ''ssh.example'')"
  have c: "ClientID ?t \<noteq> ''bob''" by code_simp
  have "map snd (raw reg_ex) = [?t]" by code_simp
  then have "?t \<in> set (all_services reg_ex)" by (simp add: all_services_def)
  then show ?thesis using others_untouched[OF reg_ex_def c] by blast
qed

lemma Register_publishes:
  assumes "reg_inv r"
    and "Register x509 c sess crts srvs r = (r2, None)" "sr \<in> set srvs"
  shows "(\<not> isRaw (reg_Mode sr) \<longrightarrow>
      (\<exists>s \<in> set (HTTPServices r2 (reg_Host sr)). build_service c sess sr = Inr s)) \<and>
    (isRaw (reg_Mode sr) \<longrightarrow>
      (\<exists>s. RawService r2 (reg_Host sr) = Some s \<and> ClientID s = c \<and> Session s = sess))"
proof (cases rule: Register_cases[of x509 c sess crts srvs r])
  case (accepted svcs pcs)
  let ?r1 = "removeClientLocked c r"
  let ?f = "fold add_service svcs (?r1\<lparr>certs := certs ?r1 @ pcs\<rparr>)"
  have r2: "raw r2 = raw ?f" "http r2 = http ?f" using accepted(4) assms(2) by auto
  have w: "wf_reg (?r1\<lparr>certs := certs ?r1 @ pcs\<rparr>)"
    using reg_inv_removeClient[OF assms(1), of c]
      services_cong[of "?r1\<lparr>certs := certs ?r1 @ pcs\<rparr>" ?r1] by (simp add: reg_inv_def)
  obtain s where s: "s \<in> set svcs" "build_service c sess sr = Inr s"
    using accepted(1) assms(3) by (auto simp: traverse_result_Inr_iff in_set_conv_nth list_all2_conv_all_nth) metis
  note f = build_service_fields[OF s(2)]
  have "s \<in> set (HTTPServices r2 (reg_Host sr))" if "\<not> isRaw (reg_Mode sr)"
  proof -
    have "s \<in> set (all_services ?f)" using fold_adds_http[OF w s(1)] that f by simp
    then show ?thesis
      using wf_mem[OF wf_fold[OF w], of s svcs] that f r2 by (simp add: HTTPServices_def http_list_def)
  qed
  moreover have "\<exists>s. RawService r2 (reg_Host sr) = Some s \<and> ClientID s = c \<and> Session s = sess" if "isRaw (reg_Mode sr)"
    using fold_raw_host[OF s(1), of "?r1\<lparr>certs := certs ?r1 @ pcs\<rparr>"] that f r2 built_services[OF accepted(1)]
    by (auto simp: RawService_def)
  ultimately show ?thesis using s(2) by auto
qed (use assms(2) in simp_all)

text \<open>
  A successful registration takes effect: every http or ws service of the request is served
  under its host, and every tcp or socks5 host of the request is bound to a service of that
  client.
\<close>

theorem registered_is_published:
  assumes "r = fold (reg_step x509) ops NewRegistry"
    and "Register x509' c sess crts srvs r = (r2, None)" "sr \<in> set srvs"
  shows "(\<not> isRaw (reg_Mode sr) \<longrightarrow>
      (\<exists>s \<in> set (HTTPServices r2 (reg_Host sr)). build_service c sess sr = Inr s)) \<and>
    (isRaw (reg_Mode sr) \<longrightarrow>
      (\<exists>s. RawService r2 (reg_Host sr) = Some s \<and> ClientID s = c \<and> Session s = sess))"
  using Register_publishes[of r x509' c sess crts srvs r2 sr] reg_inv_run[of x509 ops] assms by simp

theorem registered_is_published_witness:
  "\<exists>s. RawService (fst (Register x509_ex ''bob'' (Some 2) [] [svc_ex ''socks5'' ''P.example'' '''' []] reg_ex)) ''P.example'' = Some s
     \<and> ClientID s = ''bob''"
proof -
  let ?sr = "svc_ex ''socks5'' ''P.example'' '''' []"
  let ?R = "Register x509_ex ''bob'' (Some 2) [] [?sr] reg_ex"
  have "snd ?R = None" by code_simp
  then have r: "?R = (fst ?R, None)" by (metis prod.collapse)
  have "isRaw (reg_Mode ?sr)" "reg_Host ?sr = ''P.example''" by (simp_all add: svc_ex_def isRaw_def)
  then show ?thesis using registered_is_published[OF reg_ex_def r, of ?sr] by auto
qed

text \<open>
  C30. Tearing a session down removes exactly the services registered over it and reports
  their identifiers; when the client has reconnected and registered again meanwhile, the late
  teardown of its old session leaves all its services in place.
\<close>

theorem stale_teardown_is_harmless:
  assumes "Register x509 c (Some new) crts srvs r = (r2, None)" "old \<noteq> new"
  shows "all_services (fst (RemoveSession (Some old) r2)) =
      filter (\<lambda>s. Session s \<noteq> Some old) (all_services r2) \<and>
    filter (\<lambda>s. ClientID s = c) (all_services (fst (RemoveSession (Some old) r2))) =
      filter (\<lambda>s. ClientID s = c) (all_services r2) \<and>
    snd (RemoveSession (Some old) r2) =
      map service_ID (filter (\<lambda>s. Session s = Some old) (all_services r2))"
proof -
  have "Session s = Some new" if "s \<in> set (all_services r2)" "ClientID s = c" for s
  proof (cases rule: Register_cases[of x509 c "Some new" crts srvs r])
    case (accepted svcs pcs)
    then have "s \<in> set svcs \<or> s \<in> set (all_services (removeClientLocked c r))"
      using assms(1) that(1) all_services_fold[of svcs "(removeClientLocked c r)\<lparr>certs := certs (removeClientLocked c r) @ pcs\<rparr>"]
      by (auto simp: all_services_def)
    then show ?thesis using built_services[OF accepted(1)] that(2) by (auto simp: services_removeClient)
  qed (use assms(1) in simp_all)
  moreover have k: "all_services (fst (RemoveSession (Some old) r2)) = filter (\<lambda>s. Session s \<noteq> Some old) (all_services r2)"
    using services_cong[OF RemoveSession_keep] all_services_keep by metis
  ultimately show ?thesis
    using assms(2) by (auto simp: RemoveSession_def Let_def intro!: filter_cong)
qed

theorem stale_teardown_is_harmless_witness:
  "filter (\<lambda>s. ClientID s = ''bob'') (all_services (fst (RemoveSession (Some 2)
     (fst (Register x509_ex ''bob'' (Some 7) [] [svc_ex ''ws'' ''b.example'' ''/x'' []] reg_ex))))) =
   filter (\<lambda>s. ClientID s = ''bob'') (all_services
     (fst (Register x509_ex ''bob'' (Some 7) [] [svc_ex ''ws'' ''b.example'' ''/x'' []] reg_ex)))"
proof -
  let ?R = "Register x509_ex ''bob'' (Some 7) [] [svc_ex ''ws'' ''b.example'' ''/x'' []] reg_ex"
  have "snd ?R = None" by code_simp
  then have r: "?R = (fst ?R, None)" by (metis prod.collapse)
  have "(2 :: session) \<noteq> 7" by simp
  from stale_teardown_is_harmless[OF r this] show ?thesis by blast
qed

lemma find_update_first:
  "find P xs = Some x \<Longrightarrow> (\<And>y. P y \<Longrightarrow> P (f y)) \<Longrightarrow> find P (update_first P f xs) = Some (f x)"
  by (induction xs) (auto split: if_splits)

lemma find_append: "find P (xs @ ys) = (case find P xs of Some x \<Rightarrow> Some x | None \<Rightarrow> find P ys)"
  by (induction xs) auto

lemma list_ex_find: "list_ex P xs \<longleftrightarrow> find P xs \<noteq> None"
  by (induction xs) auto

lemma update_first_append:
  "update_first P f (xs @ ys) = (if list_ex P xs then update_first P f xs @ ys else xs @ update_first P f ys)"
  by (induction xs) auto

lemma update_first_raw:
  "map snd (update_first (\<lambda>(_, s). P s) (\<lambda>(h, s). (h, f s)) m) = update_first P f (map snd m)"
  by (induction m) auto

lemma update_first_http_concat:
  "concat (map snd (update_first_http P f m)) = update_first P f (concat (map snd m))"
  by (induction P f m rule: update_first_http.induct) (auto simp: update_first_append)

lemma all_services_set_allow:
  "all_services (set_allow i a r) =
     update_first (\<lambda>s. service_ID s = i) (\<lambda>s. s\<lparr>Allow := a\<rparr>) (all_services r)"
  by (simp add: set_allow_def Let_def all_services_def update_first_append update_first_raw
      update_first_http_concat)

text \<open>
  Only the owner changes a whitelist, and only the whitelist changes: an update by another
  client is refused and leaves the registry as it is; a successful one leaves every field but
  the allow list of every service as it was, and the updated service then has exactly the new
  list.
\<close>

theorem update_only_by_owner:
  assumes "UpdateWhitelist c i allow r = (r2, e)"
  shows "(e \<noteq> None \<longrightarrow> r2 = r) \<and>
    (e = None \<longrightarrow>
      map erase (all_services r2) = map erase (all_services r) \<and>
      (\<exists>s t ps. findServiceLocked r i = Some s \<and> ClientID s = c \<and> ipallow_parse allow = Inr ps \<and>
         findServiceLocked r2 i = Some t \<and> t = s\<lparr>Allow := (Allow s)\<lparr>v := Some ps\<rparr>\<rparr>))"
proof (cases "findServiceLocked r i")
  case None
  then show ?thesis using assms by (auto simp: UpdateWhitelist_def)
next
  case (Some s)
  note s = Some
  show ?thesis
  proof (cases "ClientID s = c \<and> (\<exists>ps. ipallow_parse allow = Inr ps)")
    case False
    then have "\<exists>err. UpdateWhitelist c i allow r = (r, Some err)"
      using s by (cases "ipallow_parse allow") (auto simp: UpdateWhitelist_def Replace_def)
    then show ?thesis using assms by auto
  next
    case True
    then obtain ps where ps: "ClientID s = c" "ipallow_parse allow = Inr ps" by blast
    let ?a = "(Allow s)\<lparr>v := Some ps\<rparr>"
    have r2: "e = None" "all_services r2 = all_services (set_allow i ?a r)"
      using assms s ps by (auto simp: UpdateWhitelist_def Replace_def Let_def all_services_def)
    have "map erase (all_services r2) = map erase (all_services r)"
      by (simp add: r2(2) all_services_set_allow update_first_erase erase_def)
    moreover have "findServiceLocked r2 i = Some (s\<lparr>Allow := ?a\<rparr>)"
      unfolding findServiceLocked_def r2(2) all_services_set_allow
      using s by (intro find_update_first) (simp_all add: findServiceLocked_def service_ID_def)
    ultimately show ?thesis using r2(1) s ps by auto
  qed
qed

theorem update_only_by_owner_witness:
  "snd (UpdateWhitelist ''bob'' ''tcp://ssh.example'' [''0.0.0.0/0''] reg_ex) = Some (NotOwned ''tcp://ssh.example'') \<and>
   fst (UpdateWhitelist ''bob'' ''tcp://ssh.example'' [''0.0.0.0/0''] reg_ex) = reg_ex"
proof -
  let ?U = "UpdateWhitelist ''bob'' ''tcp://ssh.example'' [''0.0.0.0/0''] reg_ex"
  have e: "snd ?U = Some (NotOwned ''tcp://ssh.example'')" by code_simp
  have "?U = (fst ?U, snd ?U)" by simp
  from update_only_by_owner[OF this] e show ?thesis by simp
qed


text \<open>
  Within one request the exclusivity of a host is not enforced: a client can register the
  same host as tcp and as http at once.
\<close>

theorem host_both_tcp_and_http:
  "snd (Register x509_ex ''eve'' (Some 3) [] [svc_ex ''tcp'' ''x.example'' '''' [], svc_ex ''http'' ''x.example'' '''' []] reg_ex) = None \<and>
   RawService (fst (Register x509_ex ''eve'' (Some 3) [] [svc_ex ''tcp'' ''x.example'' '''' [], svc_ex ''http'' ''x.example'' '''' []] reg_ex)) ''x.example'' \<noteq> None \<and>
   HasHTTPHost (fst (Register x509_ex ''eve'' (Some 3) [] [svc_ex ''tcp'' ''x.example'' '''' [], svc_ex ''http'' ''x.example'' '''' []] reg_ex)) ''x.example''"
  by code_simp

subsection \<open>Certificates\<close>

lemma wildcardMatch_star:
  "wildcardMatch (''*.'' @ d) host \<longleftrightarrow>
     host = ''*.'' @ d \<or> (\<exists>l. l \<noteq> [] \<and> CHR ''.'' \<notin> set l \<and> host = l @ ''.'' @ d)"
  by (auto simp: wildcardMatch_def HasPrefix_def HasSuffix_iff Let_def)

lemma first_cert_Some:
  "first_cert P cs = Some pc \<Longrightarrow> pc \<in> set cs \<and> (\<exists>n \<in> set (names pc). P n)"
  by (auto simp: first_cert_def find_Some_iff list_ex_iff)

lemma first_cert_None: "first_cert P cs = None \<longleftrightarrow> (\<forall>pc \<in> set cs. \<forall>n \<in> set (names pc). \<not> P n)"
  by (auto simp: first_cert_def find_None_iff list_ex_iff)

text \<open>
  The certificate presented for a name covers it: one of its names is the requested one or
  a wildcard for it, a certificate with the exact name is preferred to any wildcard, and none is
  found only when no certificate covers the name.
\<close>

theorem lookup_cert_covers:
  "case LookupCert r sn of
     None \<Rightarrow> \<forall>pc \<in> set (certs r). \<forall>n \<in> set (names pc). \<not> wildcardMatch n (ToLower (TrimSpace sn))
   | Some pc \<Rightarrow> pc \<in> set (certs r) \<and> (\<exists>n \<in> set (names pc). wildcardMatch n (ToLower (TrimSpace sn))) \<and>
       (ToLower (TrimSpace sn) \<notin> set (names pc) \<longrightarrow>
          (\<forall>pc' \<in> set (certs r). ToLower (TrimSpace sn) \<notin> set (names pc')))"
proof -
  let ?h = "ToLower (TrimSpace sn)"
  have w: "wildcardMatch ?h ?h" by (simp add: wildcardMatch_def)
  show ?thesis
  proof (cases "first_cert (\<lambda>n. n = ?h) (certs r)")
    case (Some pc)
    then show ?thesis using first_cert_Some[OF Some] w by (auto simp: LookupCert_def Let_def)
  next
    case None
    then show ?thesis
      using first_cert_None[of "\<lambda>n. n = ?h" "certs r"] first_cert_None[of "\<lambda>n. wildcardMatch n ?h" "certs r"]
      by (auto simp: LookupCert_def Let_def split: option.split dest!: first_cert_Some) 
  qed
qed

theorem lookup_cert_covers_witness:
  "ToLower (TrimSpace ''SSH.example'') \<in> set (names (the (LookupCert reg_ex ''SSH.example'')))"
proof -
  let ?h = "ToLower (TrimSpace ''SSH.example'')"
  have l: "LookupCert reg_ex ''SSH.example'' = Some (certs reg_ex ! 1)" by code_simp
  have m: "certs reg_ex ! 1 \<in> set (certs reg_ex)" "?h \<in> set (names (certs reg_ex ! 1))" by code_simp+
  show ?thesis using lookup_cert_covers[of reg_ex "''SSH.example''"] l m by auto
qed

fun client_op :: "reg_op \<Rightarrow> bool" where
  "client_op (OpRegister c sess crts srvs) \<longleftrightarrow> c \<noteq> ''''"
| "client_op _ \<longleftrightarrow> True"

definition server_cert :: "parsed_cert \<Rightarrow> bool" where
  "server_cert pc \<longleftrightarrow> cert_clientID pc = '''' \<and> cert_session pc = None"

lemma certs_fold [simp]: "certs (fold add_service svcs r) = certs r"
  by (induction svcs arbitrary: r) (auto simp: add_service_def)

lemma Register_certs:
  "c \<noteq> '''' \<Longrightarrow> server_cert pc \<Longrightarrow> pc \<in> set (certs r) \<Longrightarrow> pc \<in> set (certs (fst (Register x509 c sess crts srvs r)))"
  by (cases rule: Register_cases[of x509 c sess crts srvs r])
    (auto simp: removeClientLocked_def filterCerts_def server_cert_def)

lemma client_op_certs:
  "server_cert pc \<Longrightarrow> pc \<in> set (certs r) \<Longrightarrow> client_op op \<Longrightarrow> pc \<in> set (certs (reg_step x509 op r))"
  by (cases op)
    (auto simp: Register_certs RegisterServer_def ServerOwnerID_def AddServerCert_def UpdateWhitelist_def
      set_allow_def RemoveSession_def filterCerts_def server_cert_def Let_def
      split: sum.splits option.splits prod.splits)

text \<open>
  Server certificates are permanent: no sequence of client registrations, whitelist
  updates, teardowns and further server registrations removes one, so a name they cover always
  has a certificate.
\<close>

theorem server_certs_permanent:
  assumes "AddServerCert x509 cp kp r = (r1, None)" "list_all client_op ops"
    and "x509 cp kp = Inr l" "n \<in> set (DNSNames l)" "TrimSpace n = n"
  shows "LookupCert (fold (reg_step x509) ops r1) n \<noteq> None"
proof -
  obtain pc where pc: "pc \<in> set (certs r1)" "server_cert pc" "ToLower n \<in> set (names pc)"
  proof
    let ?pc = "\<lparr>cert = (cp, kp), names = map ToLower (DNSNames l), cert_clientID = [], cert_session = None\<rparr>"
    show "?pc \<in> set (certs r1)" "server_cert ?pc" "ToLower n \<in> set (names ?pc)"
      using assms(1,3,4) by (auto simp: AddServerCert_def parseCert_def server_cert_def Let_def split: if_splits)
  qed
  have "pc \<in> set (certs (fold (reg_step x509) ops r1))"
    using assms(2) pc(1) by (induction ops arbitrary: r1) (auto simp: client_op_certs[OF pc(2)])
  then show ?thesis
    using pc(3) assms(5) first_cert_None[of "\<lambda>m. m = ToLower n"]
    by (auto simp: LookupCert_def Let_def split: option.splits)
qed

theorem server_certs_permanent_witness:
  "LookupCert (fold (reg_step x509_ex) (OpRemove 1 # ops_ex) (fst (AddServerCert x509_ex ''Top.example'' ''k'' NewRegistry))) ''Top.example'' \<noteq> None"
proof -
  let ?A = "AddServerCert x509_ex ''Top.example'' ''k'' NewRegistry"
  have a: "?A = (fst ?A, None)" by (rule prod_eqI) (simp, code_simp)
  have o: "list_all client_op (OpRemove 1 # ops_ex)" by code_simp
  have x: "x509_ex ''Top.example'' ''k'' = Inr \<lparr>DNSNames = [''Top.example''], CommonName = ''''\<rparr>" by code_simp
  have t: "TrimSpace ''Top.example'' = ''Top.example''" by code_simp
  have "''Top.example'' \<in> set (DNSNames \<lparr>DNSNames = [''Top.example''], CommonName = ''''\<rparr>)" by simp
  from server_certs_permanent[OF a o x this t] show ?thesis .
qed

end
