(* ===== verification/Go_Json.thy ===== *)
theory Go_Json
  imports Go_Netip
begin

text \<open>
  The part of \<^verbatim>\<open>encoding/json\<close> and \<^verbatim>\<open>unicode/utf8\<close> the program's codecs use: quoting with the HTML-safe
  escapes of \<^verbatim>\<open>Marshal\<close>, unquoting with replacement of malformed UTF-8 and unpaired surrogates, the
  grammar of \<^verbatim>\<open>Unmarshal\<close> with its nesting limit, and the match of object keys to field names.
  Texts are byte strings. A document is read in two passes, tokens first and then the value with an
  explicit stack of open arrays and objects, so both passes end on every input without fuel.
\<close>

subsection \<open>Runes\<close>

definition RuneError :: nat where "RuneError = 0xFFFD"

definition byte_within :: "nat \<Rightarrow> nat \<Rightarrow> char \<Rightarrow> bool" where
  "byte_within lo hi c = (lo \<le> of_char c \<and> of_char c \<le> hi)"

text \<open>The range of the second byte of a longer sequence, by the first one.\<close>

definition accept_lo :: "nat \<Rightarrow> nat" where
  "accept_lo p = (if p = 0xE0 then 0xA0 else if p = 0xF0 then 0x90 else 0x80)"

definition accept_hi :: "nat \<Rightarrow> nat" where
  "accept_hi p = (if p = 0xED then 0x9F else if p = 0xF4 then 0x8F else 0xBF)"

definition decode_rune :: "string \<Rightarrow> nat \<times> nat" where
  "decode_rune s =
     (case s of
        [] \<Rightarrow> (RuneError, 0)
      | a # t \<Rightarrow>
          let p = of_char a in
          if p < 0x80 then (p, 1)
          else if byte_within 0xC2 0xDF a then
            (case t of
               b # _ \<Rightarrow> if byte_within 0x80 0xBF b then ((p - 0xC0) * 64 + (of_char b - 0x80), 2) else (RuneError, 1)
             | _ \<Rightarrow> (RuneError, 1))
          else if byte_within 0xE0 0xEF a then
            (case t of
               b # c # _ \<Rightarrow>
                 if byte_within (accept_lo p) (accept_hi p) b \<and> byte_within 0x80 0xBF c
                 then ((p - 0xE0) * 4096 + (of_char b - 0x80) * 64 + (of_char c - 0x80), 3) else (RuneError, 1)
             | _ \<Rightarrow> (RuneError, 1))
          else if byte_within 0xF0 0xF4 a then
            (case t of
               b # c # d # _ \<Rightarrow>
                 if byte_within (accept_lo p) (accept_hi p) b \<and> byte_within 0x80 0xBF c \<and> byte_within 0x80 0xBF d
                 then ((p - 0xF0) * 262144 + (of_char b - 0x80) * 4096 + (of_char c - 0x80) * 64 + (of_char d - 0x80), 4)
                 else (RuneError, 1)
             | _ \<Rightarrow> (RuneError, 1))
          else (RuneError, 1))"

definition encode_rune :: "nat \<Rightarrow> string" where
  "encode_rune r =
     (if r < 0x80 then [char_of r]
      else if r < 0x800 then [char_of (0xC0 + r div 64), char_of (0x80 + r mod 64)]
      else if (0xD800 \<le> r \<and> r \<le> 0xDFFF) \<or> r > 0x10FFFF then [CHR 0xEF, CHR 0xBF, CHR 0xBD]
      else if r < 0x10000 then [char_of (0xE0 + r div 4096), char_of (0x80 + r div 64 mod 64), char_of (0x80 + r mod 64)]
      else [char_of (0xF0 + r div 262144), char_of (0x80 + r div 4096 mod 64), char_of (0x80 + r div 64 mod 64), char_of (0x80 + r mod 64)])"

text \<open>Every byte that does not belong to a well-formed sequence becomes the replacement character.\<close>

function to_valid :: "string \<Rightarrow> string" where
  "to_valid [] = []"
| "to_valid (c # s) = (let (r, k) = decode_rune (c # s) in encode_rune r @ to_valid (drop (k - 1) s))"
  by pat_completeness auto
termination by (relation "measure length") auto

subsection \<open>Strings\<close>

definition escape_char :: "char \<Rightarrow> string" where
  "escape_char c =
     (if c = CHR 0x5C \<or> c = CHR 0x22 then [CHR 0x5C, c]
      else if c = CHR 0x08 then [CHR 0x5C, CHR ''b'']
      else if c = CHR 0x0C then [CHR 0x5C, CHR ''f'']
      else if c = CHR 0x0A then [CHR 0x5C, CHR ''n'']
      else if c = CHR 0x0D then [CHR 0x5C, CHR ''r'']
      else if c = CHR 0x09 then [CHR 0x5C, CHR ''t'']
      else if (of_char c :: nat) < 0x20 \<or> c = CHR ''<'' \<or> c = CHR ''>'' \<or> c = CHR ''&'' then
        [CHR 0x5C, CHR ''u'', CHR ''0'', CHR ''0'', hex_char (of_char c div 16), hex_char (of_char c mod 16)]
      else [c])"

function quote_body :: "string \<Rightarrow> string" where
  "quote_body [] = []"
| "quote_body (c # s) =
     (if (of_char c :: nat) < 0x80 then escape_char c @ quote_body s
      else let (r, k) = decode_rune (c # s) in
        if r = RuneError \<and> k = 1 then CHR 0x5C # ''ufffd'' @ quote_body s
        else (if r = 0x2028 \<or> r = 0x2029 then CHR 0x5C # ''u202'' @ [hex_char (r mod 16)] else take k (c # s)) @
             quote_body (drop (k - 1) s))"
  by pat_completeness auto
termination by (relation "measure length") auto

definition quote :: "string \<Rightarrow> string" where
  "quote s = CHR 0x22 # quote_body s @ [CHR 0x22]"

definition unescape_char :: "char \<Rightarrow> char option" where
  "unescape_char e =
     (if e = CHR 0x22 \<or> e = CHR 0x5C \<or> e = CHR ''/'' then Some e
      else if e = CHR ''b'' then Some (CHR 0x08)
      else if e = CHR ''f'' then Some (CHR 0x0C)
      else if e = CHR ''n'' then Some (CHR 0x0A)
      else if e = CHR ''r'' then Some (CHR 0x0D)
      else if e = CHR ''t'' then Some (CHR 0x09)
      else None)"

definition getu4 :: "string \<Rightarrow> nat option" where
  "getu4 s =
     (case s of
        a # b # c # d # _ \<Rightarrow>
          (case (hex_val a, hex_val b, hex_val c, hex_val d) of
             (Some w, Some x, Some y, Some z) \<Rightarrow> Some (((w * 16 + x) * 16 + y) * 16 + z)
           | _ \<Rightarrow> None)
      | _ \<Rightarrow> None)"

text \<open>The second half of a surrogate pair, when the next escape is one.\<close>

definition surrogate_pair :: "nat \<Rightarrow> string \<Rightarrow> nat option" where
  "surrogate_pair rr s =
     (case s of
        a # b # t \<Rightarrow>
          if a = CHR 0x5C \<and> b = CHR ''u'' then
            (case getu4 t of
               Some r1 \<Rightarrow>
                 if rr < 0xDC00 \<and> 0xDC00 \<le> r1 \<and> r1 < 0xE000
                 then Some ((rr - 0xD800) * 1024 + (r1 - 0xDC00) + 0x10000) else None
             | None \<Rightarrow> None)
          else None
      | _ \<Rightarrow> None)"

definition push_text :: "string \<Rightarrow> (string \<times> string) option \<Rightarrow> (string \<times> string) option" where
  "push_text x = map_option (\<lambda>(a, b). (x @ a, b))"

text \<open>From behind the opening quote: the text up to the closing quote and what follows it.\<close>

function str_body :: "string \<Rightarrow> (string \<times> string) option" where
  "str_body [] = None"
| "str_body (c # s) =
     (if c = CHR 0x22 then Some ([], s)
      else if c = CHR 0x5C then
        (case s of
           [] \<Rightarrow> None
         | e # t \<Rightarrow>
             if e = CHR ''u'' then
               (case getu4 t of
                  None \<Rightarrow> None
                | Some rr \<Rightarrow>
                    if 0xD800 \<le> rr \<and> rr < 0xE000 then
                      (case surrogate_pair rr (drop 4 t) of
                         Some r \<Rightarrow> push_text (encode_rune r) (str_body (drop 10 t))
                       | None \<Rightarrow> push_text (encode_rune RuneError) (str_body (drop 4 t)))
                    else push_text (encode_rune rr) (str_body (drop 4 t)))
             else (case unescape_char e of None \<Rightarrow> None | Some x \<Rightarrow> push_text [x] (str_body t)))
      else if (of_char c :: nat) < 0x20 then None
      else if (of_char c :: nat) < 0x80 then push_text [c] (str_body s)
      else let (r, k) = decode_rune (c # s) in push_text (encode_rune r) (str_body (drop (k - 1) s)))"
  by pat_completeness auto
termination by (relation "measure length") auto

subsection \<open>Lemmas: strings\<close>

declare to_valid.simps(2) [simp del] quote_body.simps(2) [simp del] str_body.simps(2) [simp del]

lemma decode_rune_pos: "s \<noteq> [] \<Longrightarrow> decode_rune s = (r, k) \<Longrightarrow> 1 \<le> k \<and> k \<le> length s"
  by (auto simp: decode_rune_def Let_def split: list.splits if_splits)

lemma decode_rune_cases:
  assumes "decode_rune s = (r, k)"
  obtains (bad) "r = RuneError" "k \<le> 1"
  | (one) a t where "s = a # t" "of_char a < (0x80 :: nat)" "r = of_char a" "k = 1"
  | (two) a b t where "s = a # b # t" "byte_within 0xC2 0xDF a" "byte_within 0x80 0xBF b" "r = (of_char a - 0xC0) * 64 + (of_char b - 0x80)" "k = 2"
  | (three) a b c t where "s = a # b # c # t" "byte_within 0xE0 0xEF a" "byte_within (accept_lo (of_char a)) (accept_hi (of_char a)) b"
      "byte_within 0x80 0xBF c" "r = (of_char a - 0xE0) * 4096 + (of_char b - 0x80) * 64 + (of_char c - 0x80)" "k = 3"
  | (four) a b c d t where "s = a # b # c # d # t" "byte_within 0xF0 0xF4 a" "byte_within (accept_lo (of_char a)) (accept_hi (of_char a)) b"
      "byte_within 0x80 0xBF c" "byte_within 0x80 0xBF d"
      "r = (of_char a - 0xF0) * 262144 + (of_char b - 0x80) * 4096 + (of_char c - 0x80) * 64 + (of_char d - 0x80)" "k = 4"
proof (cases s)
  case Nil
  then show ?thesis using assms bad by (simp add: decode_rune_def)
next
  case (Cons a t)
  consider (ascii) "(of_char a :: nat) < 0x80" | (c2) "byte_within 0xC2 0xDF a" | (c3) "byte_within 0xE0 0xEF a" | (c4) "byte_within 0xF0 0xF4 a"
    | (none) "\<not> (of_char a :: nat) < 0x80" "\<not> byte_within 0xC2 0xDF a" "\<not> byte_within 0xE0 0xEF a" "\<not> byte_within 0xF0 0xF4 a"
    by blast
  then show ?thesis
  proof cases
    case ascii
    then have "r = of_char a" "k = 1" using assms Cons by (simp_all add: decode_rune_def)
    with Cons ascii show ?thesis by (rule one)
  next
    case c2
    then have n: "\<not> (of_char a :: nat) < 0x80" by (simp add: byte_within_def)
    show ?thesis
    proof (cases t)
      case Nil
      then show ?thesis using assms bad Cons c2 n by (simp add: decode_rune_def)
    next
      case (Cons b u)
      show ?thesis
      proof (cases "byte_within 0x80 0xBF b")
        case True
        have s: "s = a # b # u" using \<open>s = a # t\<close> Cons by simp
        have "r = (of_char a - 0xC0) * 64 + (of_char b - 0x80)" "k = 2"
          using assms s c2 n True by (simp_all add: decode_rune_def)
        with s c2 True show ?thesis by (rule two)
      next
        case False
        then show ?thesis using assms bad \<open>s = a # t\<close> Cons c2 n by (simp add: decode_rune_def)
      qed
    qed
  next
    case c3
    have n: "\<not> (of_char a :: nat) < 0x80" "\<not> byte_within 0xC2 0xDF a" using c3 by (simp_all add: byte_within_def)
    show ?thesis
    proof (cases "\<exists>b c u. t = b # c # u \<and> byte_within (accept_lo (of_char a)) (accept_hi (of_char a)) b \<and> byte_within 0x80 0xBF c")
      case True
      then obtain b c u where t: "t = b # c # u" and w: "byte_within (accept_lo (of_char a)) (accept_hi (of_char a)) b" "byte_within 0x80 0xBF c" by blast
      have e: "r = (of_char a - 0xE0) * 4096 + (of_char b - 0x80) * 64 + (of_char c - 0x80)" "k = 3"
        using assms Cons c3 n t w by (simp_all add: decode_rune_def)
      have s: "s = a # b # c # u" using Cons t by simp
      from s c3 w e show ?thesis by (rule three)
    next
      case False
      then show ?thesis using assms bad Cons c3 n by (auto simp: decode_rune_def Let_def split: list.splits if_splits)
    qed
  next
    case c4
    have n: "\<not> (of_char a :: nat) < 0x80" "\<not> byte_within 0xC2 0xDF a" "\<not> byte_within 0xE0 0xEF a" using c4 by (simp_all add: byte_within_def)
    show ?thesis
    proof (cases "\<exists>b c d u. t = b # c # d # u \<and> byte_within (accept_lo (of_char a)) (accept_hi (of_char a)) b \<and> byte_within 0x80 0xBF c \<and> byte_within 0x80 0xBF d")
      case True
      then obtain b c d u where t: "t = b # c # d # u" and w: "byte_within (accept_lo (of_char a)) (accept_hi (of_char a)) b" "byte_within 0x80 0xBF c" "byte_within 0x80 0xBF d" by blast
      have e: "r = (of_char a - 0xF0) * 262144 + (of_char b - 0x80) * 4096 + (of_char c - 0x80) * 64 + (of_char d - 0x80)" "k = 4"
        using assms Cons c4 n t w by (simp_all add: decode_rune_def)
      have s: "s = a # b # c # d # u" using Cons t by simp
      from s c4 w e show ?thesis by (rule four)
    next
      case False
      then show ?thesis using assms bad Cons c4 n by (auto simp: decode_rune_def Let_def split: list.splits if_splits)
    qed
  next
    case none
    then show ?thesis using assms bad Cons by (simp add: decode_rune_def)
  qed
qed

text \<open>A sequence that decodes is the encoding of what it decodes to, and stays so whatever follows it.\<close>

lemma digits64:
  "y < 64 \<Longrightarrow> (x * 64 + y) div 64 = x" "y < 64 \<Longrightarrow> (x * 64 + y) mod 64 = y"
  "n div 4096 = n div 64 div 64" "n div 262144 = n div 64 div 64 div 64" for n x y :: nat
  by (simp_all flip: div_mult2_eq)

lemma byte_within_of:
  assumes "byte_within lo hi c"
  obtains x where "of_char c = lo + x" "x \<le> hi - lo" "c = char_of (lo + x)"
proof
  show "of_char c = lo + (of_char c - lo)" "of_char c - lo \<le> hi - lo" using assms by (auto simp: byte_within_def)
  then show "c = char_of (lo + (of_char c - lo))" by (metis char_of_char)
qed

lemma encode_rune_two: "A < 32 \<Longrightarrow> 2 \<le> A \<Longrightarrow> C < 64 \<Longrightarrow> encode_rune (A * 64 + C) = [char_of (0xC0 + A), char_of (0x80 + C)]"
  unfolding encode_rune_def by (simp only: digits64) simp

lemma encode_rune_three:
  assumes "A < 16" "B < 64" "C < 64" "A = 0 \<longrightarrow> 32 \<le> B" "A = 13 \<longrightarrow> B < 32"
  shows "encode_rune ((A * 64 + B) * 64 + C) = [char_of (0xE0 + A), char_of (0x80 + B), char_of (0x80 + C)]"
proof -
  let ?r = "(A * 64 + B) * 64 + C"
  consider "A = 0" | "0 < A" "A \<le> 12" | "A = 13" | "14 \<le> A" by linarith
  then have "?r \<ge> 0x800 \<and> (?r < 0xD800 \<or> ?r \<ge> 0xE000) \<and> ?r < 0x10000"
  proof cases
    case 1
    then show ?thesis using assms by simp
  next
    case 3
    then show ?thesis using assms by simp
  qed (use assms in auto)
  then have "\<not> ?r < 0x80" "\<not> ?r < 0x800" "\<not> ((0xD800 \<le> ?r \<and> ?r \<le> 0xDFFF) \<or> ?r > 0x10FFFF)" "?r < 0x10000"
    by linarith+
  then show ?thesis unfolding encode_rune_def using assms(2,3) by (simp only: digits64 if_False if_True)
qed

lemma encode_rune_four:
  assumes "A < 5" "B < 64" "C < 64" "D < 64" "A = 0 \<longrightarrow> 16 \<le> B" "A = 4 \<longrightarrow> B < 16"
  shows "encode_rune (((A * 64 + B) * 64 + C) * 64 + D) = [char_of (0xF0 + A), char_of (0x80 + B), char_of (0x80 + C), char_of (0x80 + D)]"
proof -
  let ?r = "((A * 64 + B) * 64 + C) * 64 + D"
  consider "A = 0" | "0 < A" "A \<le> 3" | "A = 4" using assms(1) by linarith
  then have "?r \<ge> 0x10000 \<and> ?r \<le> 0x10FFFF"
  proof cases
    case 1
    then show ?thesis using assms by simp
  next
    case 3
    then show ?thesis using assms by simp
  qed (use assms in auto)
  then have "\<not> ?r < 0x80" "\<not> ?r < 0x800" "\<not> ((0xD800 \<le> ?r \<and> ?r \<le> 0xDFFF) \<or> ?r > 0x10FFFF)" "\<not> ?r < 0x10000"
    by linarith+
  then show ?thesis unfolding encode_rune_def using assms(2-4) by (simp only: digits64 if_False)
qed

lemma rune_bytes:
  assumes "decode_rune s = (r, k)" "\<not> (r = RuneError \<and> k \<le> 1)"
  shows "take k s = encode_rune r"
  using assms(1)
proof (cases rule: decode_rune_cases)
  case bad
  then show ?thesis using assms(2) by simp
next
  case (one a t)
  then show ?thesis by (simp add: encode_rune_def)
next
  case (two a b t)
  from two(2) obtain x :: nat where x: "of_char a = 0xC2 + x" "x \<le> 0xDF - 0xC2" "a = char_of (0xC2 + x)" by (rule byte_within_of)
  from two(3) obtain y :: nat where y: "of_char b = 0x80 + y" "y \<le> 0xBF - 0x80" "b = char_of (0x80 + y)" by (rule byte_within_of)
  have "encode_rune r = [char_of (0xC0 + (2 + x)), b]"
    unfolding two(4) x(1) y(1) y(3) using encode_rune_two[of "2 + x" y] x(2) y(2) by simp
  then show ?thesis using two(1,5) x(3) by simp
next
  case (three a b c t)
  from three(2) obtain x :: nat where x: "of_char a = 0xE0 + x" "x \<le> 0xEF - 0xE0" "a = char_of (0xE0 + x)" by (rule byte_within_of)
  have "byte_within 0x80 0xBF b" using three(3) by (auto simp: byte_within_def accept_lo_def accept_hi_def split: if_splits)
  then obtain y :: nat where y: "of_char b = 0x80 + y" "y \<le> 0xBF - 0x80" "b = char_of (0x80 + y)" by (rule byte_within_of)
  from three(4) obtain z :: nat where z: "of_char c = 0x80 + z" "z \<le> 0xBF - 0x80" "c = char_of (0x80 + z)" by (rule byte_within_of)
  have "x = 0 \<longrightarrow> 32 \<le> y" "x = 13 \<longrightarrow> y < 32" using three(3) unfolding byte_within_def x(1) y(1) accept_lo_def accept_hi_def by auto
  then have "encode_rune ((x * 64 + y) * 64 + z) = [a, b, c]"
    using encode_rune_three[of x y z] x(2,3) y(2,3) z(2,3) by simp
  moreover have "r = (x * 64 + y) * 64 + z" unfolding three(5) x(1) y(1) z(1) by simp
  ultimately show ?thesis using three(1,6) by simp
next
  case (four a b c d t)
  from four(2) obtain x :: nat where x: "of_char a = 0xF0 + x" "x \<le> 0xF4 - 0xF0" "a = char_of (0xF0 + x)" by (rule byte_within_of)
  have "byte_within 0x80 0xBF b" using four(3) by (auto simp: byte_within_def accept_lo_def accept_hi_def split: if_splits)
  then obtain y :: nat where y: "of_char b = 0x80 + y" "y \<le> 0xBF - 0x80" "b = char_of (0x80 + y)" by (rule byte_within_of)
  from four(4) obtain z :: nat where z: "of_char c = 0x80 + z" "z \<le> 0xBF - 0x80" "c = char_of (0x80 + z)" by (rule byte_within_of)
  from four(5) obtain w :: nat where w: "of_char d = 0x80 + w" "w \<le> 0xBF - 0x80" "d = char_of (0x80 + w)" by (rule byte_within_of)
  have "x = 0 \<longrightarrow> 16 \<le> y" "x = 4 \<longrightarrow> y < 16" using four(3) unfolding byte_within_def x(1) y(1) accept_lo_def accept_hi_def by auto
  then have "encode_rune (((x * 64 + y) * 64 + z) * 64 + w) = [a, b, c, d]"
    using encode_rune_four[of x y z w] x(2,3) y(2,3) z(2,3) w(2,3) by simp
  moreover have "r = ((x * 64 + y) * 64 + z) * 64 + w" unfolding four(6) x(1) y(1) z(1) w(1) by simp
  ultimately show ?thesis using four(1,7) by simp
qed

lemma rune_stable:
  assumes "decode_rune s = (r, k)" "\<not> (r = RuneError \<and> k \<le> 1)"
  shows "decode_rune (take k s @ u) = (r, k)"
  using assms(1)
proof (cases rule: decode_rune_cases)
  case bad
  then show ?thesis using assms(2) by simp
next
  case (four a b c d t)
  then have "\<not> (of_char a :: nat) < 0x80" "\<not> byte_within 0xC2 0xDF a" "\<not> byte_within 0xE0 0xEF a" by (simp_all add: byte_within_def)
  then show ?thesis using four by (simp add: decode_rune_def)
next
  case (three a b c t)
  then have "\<not> (of_char a :: nat) < 0x80" "\<not> byte_within 0xC2 0xDF a" by (simp_all add: byte_within_def)
  then show ?thesis using three by (simp add: decode_rune_def)
next
  case (two a b t)
  then have "\<not> (of_char a :: nat) < 0x80" by (simp add: byte_within_def)
  then show ?thesis using two by (simp add: decode_rune_def)
qed (simp add: decode_rune_def)

lemma hex_val_char: "d < 16 \<Longrightarrow> hex_val (hex_char d) = Some d"
proof -
  have "list_all (\<lambda>d. hex_val (hex_char d) = Some d) [0 ..< 16]" by code_simp
  then show "d < 16 \<Longrightarrow> ?thesis" by (simp add: list_all_iff)
qed

lemma getu4_hex:
  "n < 256 \<Longrightarrow> getu4 (CHR ''0'' # CHR ''0'' # hex_char (n div 16) # hex_char (n mod 16) # u) = Some n"
proof -
  assume "n < 256"
  then have "n div 16 < 16" "n mod 16 < 16" by auto
  moreover have "hex_val (CHR ''0'') = Some 0" by code_simp
  ultimately show ?thesis by (simp add: getu4_def hex_val_char)
qed

lemma str_body_u:
  "getu4 t = Some rr \<Longrightarrow> \<not> (0xD800 \<le> rr \<and> rr < 0xE000) \<Longrightarrow>
   str_body (CHR 0x5C # CHR ''u'' # t) = push_text (encode_rune rr) (str_body (drop 4 t))"
  by (subst str_body.simps) auto

lemma str_body_unescape:
  "e \<noteq> CHR ''u'' \<Longrightarrow> unescape_char e = Some x \<Longrightarrow> str_body (CHR 0x5C # e # t) = push_text [x] (str_body t)"
  by (subst str_body.simps) simp

lemma of_char_byte [simp]: "(of_char c :: nat) < 256"
proof -
  have "(of_char c :: nat) mod 256 < 256" by (rule mod_less_divisor) simp
  then show ?thesis by simp
qed

lemma str_body_escape:
  assumes "(of_char c :: nat) < 0x80"
  shows "str_body (escape_char c @ u) = push_text [c] (str_body u)"
proof -
  consider "c = CHR 0x5C" | "c = CHR 0x22" | "c = CHR 0x08" | "c = CHR 0x0C" | "c = CHR 0x0A" | "c = CHR 0x0D" | "c = CHR 0x09"
    | (u) "c \<notin> {CHR 0x5C, CHR 0x22, CHR 0x08, CHR 0x0C, CHR 0x0A, CHR 0x0D, CHR 0x09}"
        "(of_char c :: nat) < 0x20 \<or> c = CHR ''<'' \<or> c = CHR ''>'' \<or> c = CHR ''&''"
    | (plain) "c \<notin> {CHR 0x5C, CHR 0x22, CHR 0x08, CHR 0x0C, CHR 0x0A, CHR 0x0D, CHR 0x09}"
        "\<not> ((of_char c :: nat) < 0x20 \<or> c = CHR ''<'' \<or> c = CHR ''>'' \<or> c = CHR ''&'')"
    by (cases "c \<in> {CHR 0x5C, CHR 0x22, CHR 0x08, CHR 0x0C, CHR 0x0A, CHR 0x0D, CHR 0x09}") (simp, blast, blast)
  then show ?thesis
  proof cases
    case u
    have "escape_char c @ u = CHR 0x5C # CHR ''u'' # CHR ''0'' # CHR ''0'' # hex_char (of_char c div 16) # hex_char (of_char c mod 16) # u"
      unfolding escape_char_def using u by simp
    moreover have "encode_rune (of_char c) = [c]" using assms by (simp add: encode_rune_def)
    ultimately show ?thesis using str_body_u[OF getu4_hex[of "of_char c" u]] assms by simp
  next
    case plain
    then have "escape_char c = [c]" by (simp add: escape_char_def)
    then show ?thesis using plain assms by (simp add: str_body.simps(2))
  qed (simp_all add: escape_char_def str_body_unescape unescape_char_def)
qed

lemma to_valid_ascii: "(of_char c :: nat) < 0x80 \<Longrightarrow> to_valid (c # s) = c # to_valid s"
  by (simp add: to_valid.simps(2) decode_rune_def encode_rune_def)

lemma push_text_Some [simp]: "push_text x (Some (a, b)) = Some (x @ a, b)"
  by (simp add: push_text_def)

lemma encode_RuneError: "encode_rune RuneError = [CHR 0xEF, CHR 0xBF, CHR 0xBD]"
  by code_simp

text \<open>Unquoting a quoted text gives it back, with its malformed bytes replaced.\<close>

lemma str_body_quote: "str_body (quote_body s @ CHR 0x22 # rest) = Some (to_valid s, rest)"
proof (induction s rule: quote_body.induct)
  case 1
  then show ?case by (simp add: str_body.simps(2))
next
  case (2 c s)
  show ?case
  proof (cases "(of_char c :: nat) < 0x80")
    case True
    then show ?thesis using 2(1) by (simp add: quote_body.simps(2) str_body_escape to_valid_ascii)
  next
    case False
    obtain r k where d: "decode_rune (c # s) = (r, k)" by fastforce
    have v: "to_valid (c # s) = encode_rune r @ to_valid (drop (k - 1) s)" by (simp add: to_valid.simps(2) d)
    show ?thesis
    proof (cases "r = RuneError \<and> k = 1")
      case True
      have "getu4 (''fffd'' @ u) = Some RuneError" for u by (simp add: getu4_def RuneError_def) code_simp
      then have "str_body (CHR 0x5C # ''ufffd'' @ u) = push_text (encode_rune RuneError) (str_body u)" for u
        using str_body_u[of "''fffd'' @ u" RuneError] by (simp add: RuneError_def)
      then show ?thesis using 2 False True d v by (simp add: quote_body.simps(2))
    next
      case n: False
      have k: "1 \<le> k" "k \<le> length (c # s)" using decode_rune_pos[OF _ d] by auto
      have ok: "\<not> (r = RuneError \<and> k \<le> 1)" using n k by auto
      have IH: "str_body (quote_body (drop (k - 1) s) @ CHR 0x22 # rest) = Some (to_valid (drop (k - 1) s), rest)"
        using 2 False n d by simp
      show ?thesis
      proof (cases "r = 0x2028 \<or> r = 0x2029")
        case True
        have "hex_val (CHR ''2'') = Some 2" "hex_val (CHR ''0'') = Some 0" by code_simp+
        then have "getu4 (''202'' @ hex_char (r mod 16) # u) = Some r" for u
          using True by (auto simp: getu4_def hex_val_char)
        then have "str_body (CHR 0x5C # ''u202'' @ hex_char (r mod 16) # u) = push_text (encode_rune r) (str_body u)" for u
          using str_body_u[of "''202'' @ hex_char (r mod 16) # u" r] True by auto
        moreover have "r \<noteq> RuneError" using True by (auto simp: RuneError_def)
        ultimately show ?thesis using False d v True IH by (simp add: quote_body.simps(2))
      next
        case r: False
        let ?u = "quote_body (drop (k - 1) s) @ CHR 0x22 # rest"
        have q: "quote_body (c # s) @ CHR 0x22 # rest = take k (c # s) @ ?u"
          using False n d r by (simp add: quote_body.simps(2))
        obtain k' where k': "k = Suc k'" using k by (cases k) auto
        have "decode_rune (c # take k' s @ ?u) = (r, k)" using rune_stable[OF d ok, of ?u] k' by simp
        moreover have "c \<noteq> CHR 0x22" "c \<noteq> CHR 0x5C" "\<not> (of_char c :: nat) < 0x20" using False by auto
        ultimately have "str_body (c # take k' s @ ?u) = push_text (encode_rune r) (str_body ?u)"
          using False k' k by (simp add: str_body.simps(2))
        then show ?thesis unfolding q v using IH k' by simp
      qed
    qed
  qed
qed

lemma to_valid_id: "list_all (\<lambda>c. (of_char c :: nat) < 0x80) s \<Longrightarrow> to_valid s = s"
  by (induction s) (simp_all add: to_valid_ascii)

subsection \<open>Documents\<close>

datatype json =
  JNull | JBool bool | JNumber string | JString string | JArray "json list" | JObject "(string \<times> json) list"

datatype jtok = LBrace | RBrace | LBrack | RBrack | Colon | Comma | TStr string | TNum string | TBool bool | TNull

definition lex_sign :: "string \<Rightarrow> string \<Rightarrow> string \<times> string" where
  "lex_sign signs s = (case s of c # t \<Rightarrow> if c \<in> set signs then ([c], t) else ([], s) | [] \<Rightarrow> ([], []))"

definition lex_digits :: "string \<Rightarrow> (string \<times> string) option" where
  "lex_digits s = (if takeWhile is_digit s = [] then None else Some (takeWhile is_digit s, dropWhile is_digit s))"

definition lex_int :: "string \<Rightarrow> (string \<times> string) option" where
  "lex_int s =
     (case s of
        c # t \<Rightarrow> if c = CHR ''0'' then Some ([c], t) else lex_digits s
      | [] \<Rightarrow> None)"

definition lex_frac :: "string \<Rightarrow> (string \<times> string) option" where
  "lex_frac s =
     (case s of
        c # t \<Rightarrow> if c = CHR ''.'' then push_text [c] (lex_digits t) else Some ([], s)
      | [] \<Rightarrow> Some ([], []))"

definition lex_exp :: "string \<Rightarrow> (string \<times> string) option" where
  "lex_exp s =
     (case s of
        c # t \<Rightarrow>
          if c = CHR ''e'' \<or> c = CHR ''E'' then (let (sg, u) = lex_sign ''+-'' t in push_text (c # sg) (lex_digits u))
          else Some ([], s)
      | [] \<Rightarrow> Some ([], []))"

definition lex_number :: "string \<Rightarrow> (string \<times> string) option" where
  "lex_number s =
     (let (sg, t) = lex_sign ''-'' s in
      case lex_int t of
        None \<Rightarrow> None
      | Some (i, t1) \<Rightarrow>
          (case lex_frac t1 of
             None \<Rightarrow> None
           | Some (f, t2) \<Rightarrow> push_text (sg @ i @ f) (lex_exp t2)))"

definition lex_word :: "string \<Rightarrow> jtok \<Rightarrow> string \<Rightarrow> (jtok \<times> string) option" where
  "lex_word w tk s = (if take (length w) s = w then Some (tk, drop (length w) s) else None)"

definition lex_one :: "char \<Rightarrow> string \<Rightarrow> (jtok \<times> string) option" where
  "lex_one c s =
     (if c = CHR ''{'' then Some (LBrace, s)
      else if c = CHR ''}'' then Some (RBrace, s)
      else if c = CHR ''['' then Some (LBrack, s)
      else if c = CHR '']'' then Some (RBrack, s)
      else if c = CHR '':'' then Some (Colon, s)
      else if c = CHR '','' then Some (Comma, s)
      else if c = CHR 0x22 then map_option (map_prod TStr id) (str_body s)
      else if c = CHR ''t'' then lex_word ''rue'' (TBool True) s
      else if c = CHR ''f'' then lex_word ''alse'' (TBool False) s
      else if c = CHR ''n'' then lex_word ''ull'' TNull s
      else map_option (map_prod TNum id) (lex_number (c # s)))"

definition json_space :: "char \<Rightarrow> bool" where
  "json_space c = (c = CHR 0x20 \<or> c = CHR 0x09 \<or> c = CHR 0x0A \<or> c = CHR 0x0D)"

lemma push_text_Some_iff: "push_text x m = Some (a, b) \<longleftrightarrow> (\<exists>a'. m = Some (a', b) \<and> a = x @ a')"
  by (auto simp: push_text_def)

lemma str_body_length: "str_body s = Some (a, b) \<Longrightarrow> length b < length s"
proof (induction s arbitrary: a rule: measure_induct_rule[where f = length])
  case (less s)
  show ?case
  proof (cases s)
    case Nil
    then show ?thesis using less.prems by simp
  next
    case (Cons c u)
    have IH: "str_body t = Some (a', b) \<Longrightarrow> length t \<le> length u \<Longrightarrow> length b < length s" for t a'
      using less.IH[of t a'] Cons by auto
    show ?thesis using less.prems Cons
      by (auto simp: str_body.simps(2) push_text_Some_iff Let_def split: if_splits list.splits option.splits prod.splits dest!: IH)
  qed
qed

lemma lex_number_length:
  assumes "lex_number s = Some (x, r)"
  shows "length r < length s"
proof -
  obtain sg t where t: "lex_sign ''-'' s = (sg, t)" by fastforce
  then obtain i t1 f t2 e where i: "lex_int t = Some (i, t1)" and f: "lex_frac t1 = Some (f, t2)" and e: "lex_exp t2 = Some (e, r)"
    using assms by (auto simp: lex_number_def push_text_Some_iff split: option.splits)
  have dg: "lex_digits u = Some (d, v) \<Longrightarrow> length v < length u" for u d v
    by (cases u) (auto simp: lex_digits_def length_dropWhile_le le_imp_less_Suc split: if_splits)
  have sn: "lex_sign sgs u = (d, v) \<Longrightarrow> length v \<le> length u" for sgs u d v
    by (auto simp: lex_sign_def split: list.splits if_splits)
  have "length t \<le> length s" by (rule sn[OF t])
  moreover have "length t1 < length t" using i by (auto simp: lex_int_def split: list.splits if_splits dest: dg)
  moreover have "length t2 \<le> length t1"
    using f by (auto simp: lex_frac_def push_text_Some_iff split: list.splits if_splits dest!: dg)
  moreover have "length r \<le> length t2"
    using e by (auto simp: lex_exp_def push_text_Some_iff split: list.splits if_splits prod.splits dest!: dg sn)
  ultimately show ?thesis by linarith
qed

lemma lex_one_length: "lex_one c s = Some (tk, r) \<Longrightarrow> length r \<le> length s"
  using str_body_length[of s _ r] lex_number_length[of "c # s" _ r]
  by (auto simp: lex_one_def lex_word_def split: if_splits)

function lex_json :: "string \<Rightarrow> jtok list option" where
  "lex_json [] = Some []"
| "lex_json (c # s) =
     (if json_space c then lex_json s
      else case lex_one c s of None \<Rightarrow> None | Some (tk, r) \<Rightarrow> map_option (Cons tk) (lex_json r))"
  by pat_completeness auto
termination by (relation "measure length") (auto dest: lex_one_length)

declare lex_json.simps(2) [simp del]

text \<open>
  What is expected next, and the open arrays and objects from the inside out. An object that waits for a
  key or a colon is part of the expectation; one that waits for a value is on the stack.
\<close>

datatype pmode = PValue | PValueOrEnd | PKey "(string \<times> json) list" | PKeyOrEnd | PSep "(string \<times> json) list" string | PDone json

datatype pframe = InArray "json list" | InObject "(string \<times> json) list" string

definition maxNestingDepth :: nat where "maxNestingDepth = 10000"

definition value_step :: "jtok \<Rightarrow> pframe list \<Rightarrow> (pmode \<times> pframe list) option" where
  "value_step tk st =
     (case tk of
        TStr s \<Rightarrow> Some (PDone (JString s), st)
      | TNum n \<Rightarrow> Some (PDone (JNumber n), st)
      | TBool b \<Rightarrow> Some (PDone (JBool b), st)
      | TNull \<Rightarrow> Some (PDone JNull, st)
      | LBrack \<Rightarrow> if length st < maxNestingDepth then Some (PValueOrEnd, InArray [] # st) else None
      | LBrace \<Rightarrow> if length st < maxNestingDepth then Some (PKeyOrEnd, st) else None
      | _ \<Rightarrow> None)"

definition parse_step :: "jtok \<Rightarrow> pmode \<Rightarrow> pframe list \<Rightarrow> (pmode \<times> pframe list) option" where
  "parse_step tk m st =
     (case m of
        PValue \<Rightarrow> value_step tk st
      | PValueOrEnd \<Rightarrow> if tk = RBrack then Some (PDone (JArray []), tl st) else value_step tk st
      | PKeyOrEnd \<Rightarrow> (case tk of RBrace \<Rightarrow> Some (PDone (JObject []), st) | TStr k \<Rightarrow> Some (PSep [] k, st) | _ \<Rightarrow> None)
      | PKey ms \<Rightarrow> (case tk of TStr k \<Rightarrow> Some (PSep ms k, st) | _ \<Rightarrow> None)
      | PSep ms k \<Rightarrow> if tk = Colon then Some (PValue, InObject ms k # st) else None
      | PDone v \<Rightarrow>
          (case st of
             [] \<Rightarrow> None
           | InArray vs # st1 \<Rightarrow>
               if tk = Comma then Some (PValue, InArray (vs @ [v]) # st1)
               else if tk = RBrack then Some (PDone (JArray (vs @ [v])), st1) else None
           | InObject ms k # st1 \<Rightarrow>
               if tk = Comma then Some (PKey (ms @ [(k, v)]), st1)
               else if tk = RBrace then Some (PDone (JObject (ms @ [(k, v)])), st1) else None))"

fun parse_tokens :: "jtok list \<Rightarrow> pmode \<Rightarrow> pframe list \<Rightarrow> json option" where
  "parse_tokens [] m st = (case m of PDone v \<Rightarrow> if st = [] then Some v else None | _ \<Rightarrow> None)"
| "parse_tokens (tk # tks) m st = (case parse_step tk m st of None \<Rightarrow> None | Some (m1, st1) \<Rightarrow> parse_tokens tks m1 st1)"

definition parse_json :: "string \<Rightarrow> json option" where
  "parse_json s = (case lex_json s of None \<Rightarrow> None | Some tks \<Rightarrow> parse_tokens tks PValue [])"

fun sep_by :: "'a \<Rightarrow> 'a list list \<Rightarrow> 'a list" where
  "sep_by c [] = []"
| "sep_by c [x] = x"
| "sep_by c (x # y # ys) = x @ c # sep_by c (y # ys)"

primrec render :: "json \<Rightarrow> string" where
  "render JNull = ''null''"
| "render (JBool b) = (if b then ''true'' else ''false'')"
| "render (JNumber n) = n"
| "render (JString s) = quote s"
| "render (JArray vs) = ''['' @ sep_by (CHR '','') (map render vs) @ '']''"
| "render (JObject ms) = ''{'' @ sep_by (CHR '','') (map (\<lambda>(k, r). quote k @ '':'' @ r) (map (map_prod id render) ms)) @ ''}''"

subsection \<open>Lemmas: documents\<close>

text \<open>The tokens of a rendered document, the document with its texts made well-formed, and its nesting.\<close>

primrec toks :: "json \<Rightarrow> jtok list" where
  "toks JNull = [TNull]"
| "toks (JBool b) = [TBool b]"
| "toks (JNumber n) = [TNum n]"
| "toks (JString s) = [TStr (to_valid s)]"
| "toks (JArray vs) = LBrack # sep_by Comma (map toks vs) @ [RBrack]"
| "toks (JObject ms) = LBrace # sep_by Comma (map (\<lambda>(k, r). TStr (to_valid k) # Colon # r) (map (map_prod id toks) ms)) @ [RBrace]"

primrec valid_json :: "json \<Rightarrow> json" where
  "valid_json JNull = JNull"
| "valid_json (JBool b) = JBool b"
| "valid_json (JNumber n) = JNumber n"
| "valid_json (JString s) = JString (to_valid s)"
| "valid_json (JArray vs) = JArray (map valid_json vs)"
| "valid_json (JObject ms) = JObject (map (map_prod to_valid valid_json) ms)"

primrec json_depth :: "json \<Rightarrow> nat" where
  "json_depth JNull = 0"
| "json_depth (JBool b) = 0"
| "json_depth (JNumber n) = 0"
| "json_depth (JString s) = 0"
| "json_depth (JArray vs) = Suc (foldr max (map json_depth vs) 0)"
| "json_depth (JObject ms) = Suc (foldr max (map snd (map (map_prod id json_depth) ms)) 0)"

text \<open>The numbers the codecs write are decimal naturals.\<close>

primrec decimals :: "json \<Rightarrow> bool" where
  "decimals JNull = True"
| "decimals (JBool b) = True"
| "decimals (JNumber n) = (\<exists>k. n = Itoa k)"
| "decimals (JString s) = True"
| "decimals (JArray vs) = list_all id (map decimals vs)"
| "decimals (JObject ms) = list_all snd (map (map_prod id decimals) ms)"

definition ends_value :: "string \<Rightarrow> bool" where
  "ends_value s = (s = [] \<or> hd s \<in> set '',]}'')"

lemma ends_value_simps [simp]: "ends_value []" "ends_value (CHR '','' # s)" "ends_value (CHR '']'' # s)" "ends_value (CHR ''}'' # s)"
  by (simp_all add: ends_value_def)

lemma lex_punct [simp]:
  "lex_json (CHR ''{'' # s) = map_option (Cons LBrace) (lex_json s)" "lex_json (CHR ''}'' # s) = map_option (Cons RBrace) (lex_json s)"
  "lex_json (CHR ''['' # s) = map_option (Cons LBrack) (lex_json s)" "lex_json (CHR '']'' # s) = map_option (Cons RBrack) (lex_json s)"
  "lex_json (CHR '':'' # s) = map_option (Cons Colon) (lex_json s)" "lex_json (CHR '','' # s) = map_option (Cons Comma) (lex_json s)"
  by (simp_all add: lex_json.simps(2) json_space_def lex_one_def)

lemma lex_words [simp]:
  "lex_json (CHR ''t'' # CHR ''r'' # CHR ''u'' # CHR ''e'' # s) = map_option (Cons (TBool True)) (lex_json s)"
  "lex_json (CHR ''f'' # CHR ''a'' # CHR ''l'' # CHR ''s'' # CHR ''e'' # s) = map_option (Cons (TBool False)) (lex_json s)"
  "lex_json (CHR ''n'' # CHR ''u'' # CHR ''l'' # CHR ''l'' # s) = map_option (Cons TNull) (lex_json s)"
  by (simp_all add: lex_json.simps(2) json_space_def lex_one_def lex_word_def)

lemma lex_quote: "lex_json (quote s @ rest) = map_option (Cons (TStr (to_valid s))) (lex_json rest)"
proof -
  have "lex_one (CHR 0x22) (quote_body s @ CHR 0x22 # rest) = Some (TStr (to_valid s), rest)"
    by (simp add: lex_one_def str_body_quote)
  then show ?thesis by (simp add: quote_def lex_json.simps(2) json_space_def)
qed

lemma Itoa_hd: "0 < k \<Longrightarrow> hd (Itoa k) \<noteq> CHR ''0''"
proof (induction k rule: Itoa.induct)
  case (1 n)
  show ?case
  proof (cases "n < 10")
    case True
    have "list_all (\<lambda>d. digit_char d \<noteq> CHR ''0'') [1 ..< 10]" by code_simp
    then have "digit_char n \<noteq> CHR ''0''" using True 1(2) by (simp add: list_all_iff)
    then show ?thesis using True by (simp add: Itoa.simps)
  next
    case False
    have "Itoa (n div 10) \<noteq> []" by (subst Itoa.simps) simp
    then show ?thesis using False 1 by (subst Itoa.simps) simp
  qed
qed

lemma lex_Itoa:
  assumes "ends_value rest"
  shows "lex_json (Itoa k @ rest) = map_option (Cons (TNum (Itoa k))) (lex_json rest)"
proof -
  obtain c u where I: "Itoa k = c # u" by (cases "Itoa k") (auto simp: Itoa.simps split: if_splits)
  have d: "\<forall>x \<in> set (c # u). is_digit x" unfolding I[symmetric] using Itoa_digits by blast
  have r: "takeWhile is_digit rest = []" "dropWhile is_digit rest = rest"
    using assms by (cases rest; auto simp: ends_value_def is_digit_def)+
  have "lex_int (Itoa k @ rest) = Some (Itoa k, rest)"
  proof (cases "c = CHR ''0''")
    case True
    then have "k = 0" using Itoa_hd[of k] I by auto
    then have "u = []" using I by (simp add: Itoa.simps)
    then show ?thesis using True I by (simp add: lex_int_def)
  next
    case False
    then show ?thesis using d r unfolding I by (simp add: lex_int_def lex_digits_def)
  qed
  moreover have c: "is_digit c" using d by simp
  then have "c \<noteq> CHR ''-''" by (auto simp: is_digit_def)
  then have "lex_sign ''-'' (Itoa k @ rest) = ([], Itoa k @ rest)" unfolding I by (simp add: lex_sign_def)
  moreover have "lex_frac rest = Some ([], rest)" "lex_exp rest = Some ([], rest)"
    using assms by (auto simp: lex_frac_def lex_exp_def ends_value_def split: list.splits)
  ultimately have n: "lex_number (Itoa k @ rest) = Some (Itoa k, rest)" by (simp add: lex_number_def)
  have "c \<notin> set ''{}[]:,tfn'' \<union> {CHR 0x22, CHR 0x20, CHR 0x09, CHR 0x0A, CHR 0x0D}" using c by (auto simp: is_digit_def)
  then show ?thesis using n unfolding I by (simp add: lex_json.simps(2) json_space_def lex_one_def)
qed

lemma lex_sep_by:
  assumes "\<And>x r. x \<in> set xs \<Longrightarrow> ends_value r \<Longrightarrow> lex_json (f x @ r) = map_option ((@) (g x)) (lex_json r)" "ends_value rest"
  shows "lex_json (sep_by (CHR '','') (map f xs) @ rest) = map_option ((@) (sep_by Comma (map g xs))) (lex_json rest)"
  using assms
proof (induction xs rule: induct_list012)
  case (3 x y zs)
  have "lex_json (f x @ CHR '','' # sep_by (CHR '','') (map f (y # zs)) @ rest) =
      map_option ((@) (g x)) (map_option (Cons Comma) (lex_json (sep_by (CHR '','') (map f (y # zs)) @ rest)))"
    using 3(3)[of x] by simp
  also have "lex_json (sep_by (CHR '','') (map f (y # zs)) @ rest) = map_option ((@) (sep_by Comma (map g (y # zs)))) (lex_json rest)"
    using 3(3) by (intro 3(2)[OF _ 3(4)]) auto
  finally show ?case by (simp add: option.map_comp o_def)
qed (cases "lex_json rest"; simp)+

lemma append_one: "(@) [x] = (#) x"
  by (simp add: fun_eq_iff)

lemma lex_render: "decimals v \<Longrightarrow> ends_value rest \<Longrightarrow> lex_json (render v @ rest) = map_option ((@) (toks v)) (lex_json rest)"
proof (induction v arbitrary: rest)
  case (JArray vs)
  have "lex_json (render v @ r) = map_option ((@) (toks v)) (lex_json r)" if "v \<in> set vs" "ends_value r" for v r
    using JArray that by (auto simp: list_all_iff)
  from lex_sep_by[of vs render toks "CHR '']'' # rest", OF this] show ?case by (simp add: option.map_comp o_def)
next
  case (JObject ms)
  let ?f = "\<lambda>m. quote (fst m) @ '':'' @ render (snd m)" and ?g = "\<lambda>m. TStr (to_valid (fst m)) # Colon # toks (snd m)"
  have "lex_json (?f m @ r) = map_option ((@) (?g m)) (lex_json r)" if "m \<in> set ms" "ends_value r" for m r
  proof -
    have "decimals (snd m)" using JObject(2) that(1) by (auto simp: list_all_iff)
    then have "lex_json (render (snd m) @ r) = map_option ((@) (toks (snd m))) (lex_json r)"
      using JObject(1)[OF that(1), of "snd m"] that(2) by (cases m) auto
    then show ?thesis by (cases "lex_json r") (simp_all add: lex_quote)
  qed
  from lex_sep_by[of ms ?f ?g "CHR ''}'' # rest", OF this]
  show ?case by (simp add: option.map_comp o_def case_prod_beta)
qed (auto simp: lex_quote lex_Itoa append_one)

definition reads_back :: "json \<Rightarrow> bool" where
  "reads_back v = (\<forall>tks st. json_depth v + length st \<le> maxNestingDepth \<longrightarrow>
     parse_tokens (toks v @ tks) PValue st = parse_tokens tks (PDone (valid_json v)) st)"

lemma parse_elements:
  assumes "\<forall>v \<in> set vs. reads_back v \<and> json_depth v + Suc (length st) \<le> maxNestingDepth" "vs \<noteq> []"
  shows "parse_tokens (sep_by Comma (map toks vs) @ RBrack # tks) PValue (InArray acc # st) =
    parse_tokens tks (PDone (JArray (acc @ map valid_json vs))) st"
  using assms
proof (induction vs arbitrary: acc rule: induct_list012)
  case (2 v)
  then show ?case by (simp add: reads_back_def parse_step_def)
next
  case (3 v w vs)
  have "parse_tokens (toks v @ u) PValue (InArray acc # st) = parse_tokens u (PDone (valid_json v)) (InArray acc # st)" for u
    using 3(3) by (simp add: reads_back_def)
  then show ?case using 3(2)[of "acc @ [valid_json v]"] 3(3) by (simp add: parse_step_def)
qed simp

lemma parse_members:
  assumes "\<forall>m \<in> set ms. reads_back (snd m) \<and> json_depth (snd m) + Suc (length st) \<le> maxNestingDepth" "ms \<noteq> []"
  shows "parse_tokens (sep_by Comma (map (\<lambda>m. TStr (to_valid (fst m)) # Colon # toks (snd m)) ms) @ RBrace # tks) (PKey acc) st =
    parse_tokens tks (PDone (JObject (acc @ map (map_prod to_valid valid_json) ms))) st"
  using assms
proof (induction ms arbitrary: acc rule: induct_list012)
  case (2 m)
  then show ?case by (simp add: reads_back_def parse_step_def map_prod_def case_prod_beta)
next
  case (3 m n ms)
  have "parse_tokens (toks (snd m) @ u) PValue (InObject acc (to_valid (fst m)) # st) =
      parse_tokens u (PDone (valid_json (snd m))) (InObject acc (to_valid (fst m)) # st)" for u
    using 3(3) by (simp add: reads_back_def)
  then show ?case using 3(2)[of "acc @ [map_prod to_valid valid_json m]"] 3(3)
    by (simp add: parse_step_def map_prod_def case_prod_beta)
qed simp

lemma toks_start: "\<exists>tk tks. toks v = tk # tks \<and> tk \<noteq> RBrack"
  by (cases v) auto

lemma sep_by_start: "xs \<noteq> [] \<Longrightarrow> hd xs = x # y \<Longrightarrow> \<exists>z. sep_by c xs = x # z"
  by (cases "(c, xs)" rule: sep_by.cases) auto

lemma first_element:
  assumes "vs \<noteq> []"
  shows "parse_tokens (sep_by Comma (map toks vs) @ tks) PValueOrEnd st = parse_tokens (sep_by Comma (map toks vs) @ tks) PValue st"
proof -
  obtain tk u where "toks (hd vs) = tk # u" "tk \<noteq> RBrack" using toks_start by blast
  moreover from this(1) obtain z where "sep_by Comma (map toks vs) = tk # z"
    using sep_by_start[of "map toks vs" tk u Comma] assms by (auto simp: hd_map)
  ultimately show ?thesis by (simp add: parse_step_def)
qed

lemma first_member:
  assumes "ms \<noteq> []"
  shows "parse_tokens (sep_by Comma (map (\<lambda>m. TStr (f m) # g m) ms) @ tks) PKeyOrEnd st =
    parse_tokens (sep_by Comma (map (\<lambda>m. TStr (f m) # g m) ms) @ tks) (PKey []) st"
proof -
  obtain z where "sep_by Comma (map (\<lambda>m. TStr (f m) # g m) ms) = TStr (f (hd ms)) # z"
    using sep_by_start[of "map (\<lambda>m. TStr (f m) # g m) ms" "TStr (f (hd ms))" "g (hd ms)" Comma] assms by (auto simp: hd_map)
  then show ?thesis by (simp add: parse_step_def)
qed

lemma foldr_max_bound: "x \<in> set xs \<Longrightarrow> x \<le> foldr max xs (0 :: nat)"
  by (induction xs) auto

lemma parse_toks: "reads_back v"
proof (induction v)
  case (JArray vs)
  show ?case unfolding reads_back_def
  proof (intro allI impI)
    fix tks :: "jtok list" and st :: "pframe list" assume d: "json_depth (JArray vs) + length st \<le> maxNestingDepth"
    have b: "\<forall>v \<in> set vs. reads_back v \<and> json_depth v + Suc (length st) \<le> maxNestingDepth"
    proof
      fix v assume "v \<in> set vs"
      then show "reads_back v \<and> json_depth v + Suc (length st) \<le> maxNestingDepth"
        using JArray d foldr_max_bound[of "json_depth v" "map json_depth vs"] by auto
    qed
    show "parse_tokens (toks (JArray vs) @ tks) PValue st = parse_tokens tks (PDone (valid_json (JArray vs))) st"
    proof (cases "vs = []")
      case True
      then show ?thesis using d by (simp add: parse_step_def value_step_def)
    next
      case False
      have "length st < maxNestingDepth" using d by simp
      then have "parse_tokens (toks (JArray vs) @ tks) PValue st =
          parse_tokens (sep_by Comma (map toks vs) @ RBrack # tks) PValueOrEnd (InArray [] # st)"
        by (simp add: parse_step_def value_step_def)
      then show ?thesis using first_element[OF False] parse_elements[OF b False, of tks "[]"] by simp
    qed
  qed
next
  case (JObject ms)
  show ?case unfolding reads_back_def
  proof (intro allI impI)
    fix tks :: "jtok list" and st :: "pframe list" assume d: "json_depth (JObject ms) + length st \<le> maxNestingDepth"
    let ?g = "\<lambda>m. TStr (to_valid (fst m)) # Colon # toks (snd m)"
    have b: "\<forall>m \<in> set ms. reads_back (snd m) \<and> json_depth (snd m) + Suc (length st) \<le> maxNestingDepth"
    proof
      fix m assume m: "m \<in> set ms"
      have "reads_back (snd m)" using JObject[OF m, of "snd m"] by (cases m) auto
      then show "reads_back (snd m) \<and> json_depth (snd m) + Suc (length st) \<le> maxNestingDepth"
        using m d foldr_max_bound[of "json_depth (snd m)" "map (\<lambda>m. json_depth (snd m)) ms"] by (auto simp: o_def)
    qed
    have tk: "toks (JObject ms) @ tks = LBrace # sep_by Comma (map ?g ms) @ RBrace # tks" by (simp add: case_prod_beta o_def)
    have l: "length st < maxNestingDepth" using d by simp
    show "parse_tokens (toks (JObject ms) @ tks) PValue st = parse_tokens tks (PDone (valid_json (JObject ms))) st"
    proof (cases "ms = []")
      case True
      then show ?thesis using l by (simp add: parse_step_def value_step_def)
    next
      case False
      have "parse_tokens (toks (JObject ms) @ tks) PValue st = parse_tokens (sep_by Comma (map ?g ms) @ RBrace # tks) PKeyOrEnd st"
        unfolding tk using l by (simp add: parse_step_def value_step_def)
      then show ?thesis using first_member[OF False] parse_members[OF b False, of tks "[]"] by simp
    qed
  qed
qed (simp_all add: reads_back_def parse_step_def value_step_def)

text \<open>A rendered document is read back with its texts made well-formed.\<close>

lemma parse_render:
  assumes "decimals v" "json_depth v \<le> maxNestingDepth"
  shows "parse_json (render v) = Some (valid_json v)"
proof -
  have "lex_json (render v) = Some (toks v)" using lex_render[OF assms(1), of "[]"] by simp
  moreover have "parse_tokens (toks v @ []) PValue [] = parse_tokens [] (PDone (valid_json v)) []"
    using parse_toks[of v, unfolded reads_back_def, rule_format, of "[]" "[]"] assms(2) by simp
  ultimately show ?thesis by (simp add: parse_json_def)
qed

subsection \<open>Structures\<close>

text \<open>
  A key names the field with exactly that name, else the first one whose folded name is the same; folding
  upper-cases ASCII letters and maps the long s and the Kelvin sign to the letters they stand for. Unknown
  keys are skipped, a later key overrides an earlier one, \<^verbatim>\<open>null\<close> changes nothing, and a value of the wrong
  type makes the whole decoding fail.
\<close>

function fold_name :: "string \<Rightarrow> string" where
  "fold_name [] = []"
| "fold_name (c # s) =
     (if HasPrefix (c # s) [CHR 0xC5, CHR 0xBF] then CHR ''S'' # fold_name (drop 1 s)
      else if HasPrefix (c # s) [CHR 0xE2, CHR 0x84, CHR 0xAA] then CHR ''K'' # fold_name (drop 2 s)
      else upper_char c # fold_name s)"
  by pat_completeness auto
termination by (relation "measure length") auto

definition field_named :: "string list \<Rightarrow> string \<Rightarrow> string option" where
  "field_named names key =
     (if key \<in> set names then Some key else find (\<lambda>n. fold_name n = fold_name key) names)"

fun set_fields ::
    "(string \<Rightarrow> json \<Rightarrow> 'a \<Rightarrow> 'a option) \<Rightarrow> string list \<Rightarrow> (string \<times> json) list \<Rightarrow> 'a \<Rightarrow> 'a option" where
  "set_fields setf names [] x = Some x"
| "set_fields setf names ((k, v) # ms) x =
     (case field_named names k of
        None \<Rightarrow> set_fields setf names ms x
      | Some n \<Rightarrow> (case setf n v x of None \<Rightarrow> None | Some y \<Rightarrow> set_fields setf names ms y))"

definition unmarshal_struct ::
    "(string \<Rightarrow> json \<Rightarrow> 'a \<Rightarrow> 'a option) \<Rightarrow> string list \<Rightarrow> json \<Rightarrow> 'a \<Rightarrow> 'a option" where
  "unmarshal_struct setf names v x =
     (case v of JObject ms \<Rightarrow> set_fields setf names ms x | JNull \<Rightarrow> Some x | _ \<Rightarrow> None)"

definition set_string :: "(string \<Rightarrow> 'a \<Rightarrow> 'a) \<Rightarrow> json \<Rightarrow> 'a \<Rightarrow> 'a option" where
  "set_string upd v x = (case v of JString s \<Rightarrow> Some (upd s x) | JNull \<Rightarrow> Some x | _ \<Rightarrow> None)"

definition set_uint16 :: "(u16 \<Rightarrow> 'a \<Rightarrow> 'a) \<Rightarrow> json \<Rightarrow> 'a \<Rightarrow> 'a option" where
  "set_uint16 upd v x =
     (case v of
        JNumber n \<Rightarrow> (case ParseUint 16 n of (k, None) \<Rightarrow> Some (upd (of_nat k) x) | _ \<Rightarrow> None)
      | JNull \<Rightarrow> Some x
      | _ \<Rightarrow> None)"

text \<open>Fields of a structure as \<^verbatim>\<open>Marshal\<close> writes them, and those with \<^verbatim>\<open>omitempty\<close>.\<close>

definition string_field :: "string \<Rightarrow> string \<Rightarrow> (string \<times> json) list" where
  "string_field n s = [(n, JString s)]"

definition string_omit :: "string \<Rightarrow> string \<Rightarrow> (string \<times> json) list" where
  "string_omit n s = (if s = [] then [] else [(n, JString s)])"

definition uint_field :: "string \<Rightarrow> u16 \<Rightarrow> (string \<times> json) list" where
  "uint_field n w = [(n, JNumber (Itoa (unat w)))]"

definition uint_omit :: "string \<Rightarrow> u16 \<Rightarrow> (string \<times> json) list" where
  "uint_omit n w = (if w = 0 then [] else [(n, JNumber (Itoa (unat w)))])"

lemma field_named_exact: "n \<in> set names \<Longrightarrow> field_named names n = Some n"
  by (simp add: field_named_def)

lemma set_uint16_Itoa [simp]: "set_uint16 upd (JNumber (Itoa (unat w))) x = Some (upd w x)"
  using unsigned_less[of w, where ?'a = nat] by (simp add: set_uint16_def ParseUint_Itoa)

lemma set_fields_append:
  "set_fields setf names (xs @ ys) x = Option.bind (set_fields setf names xs x) (set_fields setf names ys)"
  by (induction setf names xs x rule: set_fields.induct) (auto split: option.splits)

lemma to_valid_Nil_iff [simp]: "to_valid s = [] \<longleftrightarrow> s = []"
proof (cases s)
  case (Cons c t)
  have "encode_rune r \<noteq> []" for r by (simp add: encode_rune_def)
  then show ?thesis using Cons by (simp add: to_valid.simps(2) case_prod_beta)
qed simp

text \<open>Reading back one field, for a structure whose setter for that name is the field's update.\<close>

abbreviation valid_members :: "(string \<times> json) list \<Rightarrow> (string \<times> json) list" where
  "valid_members \<equiv> map (map_prod to_valid valid_json)"

lemma read_field:
  assumes "n \<in> set names" "to_valid n = n"
  shows "setf n = set_string upd \<Longrightarrow> set_fields setf names (valid_members (string_field n s)) x = Some (upd (to_valid s) x)"
    and "setf n = set_string upd \<Longrightarrow> upd [] x = x \<Longrightarrow>
      set_fields setf names (valid_members (string_omit n s)) x = Some (upd (to_valid s) x)"
    and "setf n = set_uint16 upd16 \<Longrightarrow> set_fields setf names (valid_members (uint_field n w)) x = Some (upd16 w x)"
    and "setf n = set_uint16 upd16 \<Longrightarrow> upd16 0 x = x \<Longrightarrow>
      set_fields setf names (valid_members (uint_omit n w)) x = Some (upd16 w x)"
  using field_named_exact[OF assms(1)] assms(2)
  by (simp_all add: string_field_def string_omit_def uint_field_def uint_omit_def set_string_def)

lemma field_lists [simp]:
  "list_all snd (map (map_prod id decimals) (string_field n s))" "list_all snd (map (map_prod id decimals) (string_omit n s))"
  "list_all snd (map (map_prod id decimals) (uint_field n w))" "list_all snd (map (map_prod id decimals) (uint_omit n w))"
  by (auto simp: string_field_def string_omit_def uint_field_def uint_omit_def)

lemma scalar_fields:
  "\<forall>m \<in> set (string_field n s). json_depth (snd m) = 0" "\<forall>m \<in> set (string_omit n s). json_depth (snd m) = 0"
  "\<forall>m \<in> set (uint_field n w). json_depth (snd m) = 0" "\<forall>m \<in> set (uint_omit n w). json_depth (snd m) = 0"
  by (auto simp: string_field_def string_omit_def uint_field_def uint_omit_def)

lemma foldr_max_zero: "\<forall>x \<in> set xs. x = 0 \<Longrightarrow> foldr max xs (0 :: nat) = 0"
  by (induction xs) auto

lemma depth_flat: "\<forall>m \<in> set ms. json_depth (snd m) = 0 \<Longrightarrow> json_depth (JObject ms) = 1"
  using foldr_max_zero[of "map (\<lambda>m. json_depth (snd m)) ms"] by (simp add: o_def case_prod_beta)

end
