(* ===== verification/Framing.thy ===== *)
theory Framing
  imports Go_Json
begin

text \<open>
  The two length-prefixed codecs of the carrier: \<^verbatim>\<open>internal/l2/frame.go\<close> (one Ethernet frame
  behind a 2-byte length) and \<^verbatim>\<open>internal/tunnel/frame.go\<close> (one JSON stream header behind a
  4-byte length). A writer is the byte sequence written so far and a reader the bytes still to
  come followed by end of stream; errors of the transport itself other than a stream that ends
  early are outside the model, they end the session.

  The interface \<open>stream_codec\<close> is what the pump loops rely on: decoding takes exactly what
  encoding wrote off the front of the stream, so a whole sequence of packets survives.
\<close>

subsection \<open>Interface: a codec on a stream\<close>

locale stream_codec =
  fixes encode :: "'f \<Rightarrow> bytes"
    and decode :: "bytes \<Rightarrow> ('f \<times> bytes) option"
    and decode_all :: "bytes \<Rightarrow> 'f list"
    and valid :: "'f \<Rightarrow> bool"
  assumes decode_encode: "valid f \<Longrightarrow> decode (encode f @ rest) = Some (f, rest)"
    and decode_all_unfold:
      "decode_all s = (case decode s of None \<Rightarrow> [] | Some (f, rest) \<Rightarrow> f # decode_all rest)"
begin

lemma encode_prefix_free:
  "valid f \<Longrightarrow> valid g \<Longrightarrow> encode f @ r = encode g @ r' \<Longrightarrow> f = g \<and> r = r'"
  using decode_encode by (metis option.inject prod.inject)

lemma decode_all_encode:
  "(\<And>f. f \<in> set fs \<Longrightarrow> valid f) \<Longrightarrow>
   decode_all (concat (map encode fs) @ rest) = fs @ decode_all rest"
proof (induction fs)
  case Nil
  then show ?case by simp
next
  case (Cons f fs)
  have "decode (concat (map encode (f # fs)) @ rest) = Some (f, concat (map encode fs) @ rest)"
    using decode_encode[of f "concat (map encode fs) @ rest"] Cons.prems by simp
  then show ?case
    using Cons by (subst decode_all_unfold) simp
qed

end

subsection \<open>Ethernet packets: \<^verbatim>\<open>internal/l2/frame.go\<close>\<close>

definition MaxEtherFrame :: nat where "MaxEtherFrame = 1600"

datatype l2_error = FrameLength nat | ReadError | InvalidFrameLength nat | BufferTooSmall nat

definition WritePacket :: "bytes \<Rightarrow> bytes \<Rightarrow> l2_error + bytes" where
  "WritePacket w frame =
     (if length frame = 0 \<or> length frame > MaxEtherFrame then Inl (FrameLength (length frame))
      else Inr (w @ put_u16 (length frame) @ frame))"

text \<open>
  \<^verbatim>\<open>ReadPacket\<close> with a buffer of the given size: the frame stored in \<^verbatim>\<open>buf[:n]\<close> and the rest of
  the stream.
\<close>

definition ReadPacket :: "nat \<Rightarrow> bytes \<Rightarrow> l2_error + (bytes \<times> bytes)" where
  "ReadPacket buflen r =
     (case ReadFull 2 r of
        None \<Rightarrow> Inl ReadError
      | Some (hdr, r1) \<Rightarrow>
          let n = be_val hdr in
          if n = 0 \<or> n > MaxEtherFrame then Inl (InvalidFrameLength n)
          else if n > buflen then Inl (BufferTooSmall n)
          else case ReadFull n r1 of
                 None \<Rightarrow> Inl ReadError
               | Some (frame, r2) \<Rightarrow> Inr (frame, r2))"

subsection \<open>Stream headers: \<^verbatim>\<open>internal/tunnel/frame.go\<close>\<close>

record Frame =
  Service :: string

definition maxFrameLen :: nat where "maxFrameLen = 64 * 1024"

datatype frame_error = FrameTooLarge nat | FrameReadError | BadFrameLength nat | BadJSON

text \<open>The document of \<^verbatim>\<open>internal/tunnel/json.go\<close>.\<close>

definition set_Frame :: "string \<Rightarrow> json \<Rightarrow> Frame \<Rightarrow> Frame option" where
  "set_Frame n = set_string (\<lambda>s. Service_update (\<lambda>_. s))"

definition mustJSON :: "Frame \<Rightarrow> bytes" where
  "mustJSON f = bytes_of_string (render (JObject (string_field ''service'' (Service f))))"

definition parseJSON :: "bytes \<Rightarrow> Frame option" where
  "parseJSON b =
     (case parse_json (string_of_bytes b) of
        None \<Rightarrow> None
      | Some v \<Rightarrow> unmarshal_struct set_Frame [''service''] v \<lparr>Service = ''''\<rparr>)"

definition WriteFrame :: "bytes \<Rightarrow> Frame \<Rightarrow> frame_error + bytes" where
  "WriteFrame w f =
     (let data = mustJSON f in
      if length data > maxFrameLen then Inl (FrameTooLarge (length data))
      else Inr (w @ put_u32 (length data) @ data))"

definition ReadFrame :: "bytes \<Rightarrow> frame_error + (Frame \<times> bytes)" where
  "ReadFrame r =
     (case ReadFull 4 r of
        None \<Rightarrow> Inl FrameReadError
      | Some (hdr, r1) \<Rightarrow>
          let n = be_val hdr in
          if n = 0 \<or> n > maxFrameLen then Inl (BadFrameLength n)
          else case ReadFull n r1 of
                 None \<Rightarrow> Inl FrameReadError
               | Some (buf, r2) \<Rightarrow>
                   (case parseJSON buf of None \<Rightarrow> Inl BadJSON | Some f \<Rightarrow> Inr (f, r2)))"

subsection \<open>Lemmas\<close>

lemma ReadPacket_Inr:
  "ReadPacket bl r = Inr (frame, r') \<Longrightarrow>
   r = put_u16 (length frame) @ frame @ r' \<and> 0 < length frame \<and> length frame \<le> MaxEtherFrame
   \<and> length frame \<le> bl"
proof -
  assume a: "ReadPacket bl r = Inr (frame, r')"
  then obtain hdr r1 where hdr: "ReadFull 2 r = Some (hdr, r1)"
    and n: "be_val hdr \<noteq> 0" "be_val hdr \<le> MaxEtherFrame" "be_val hdr \<le> bl"
    and rd: "ReadFull (be_val hdr) r1 = Some (frame, r')"
    by (auto simp: ReadPacket_def Let_def split: option.splits if_splits)
  have len: "length hdr = 2" and r: "r = hdr @ r1" using ReadFull_Some[OF hdr] by auto
  have fr: "r1 = frame @ r'" "length frame = be_val hdr" using ReadFull_Some[OF rd] by auto
  have "hdr = put_u16 (be_val hdr)"
    using len n(2) by (intro be_val_inject) (auto simp: be_val_put_u16 MaxEtherFrame_def)
  with r fr n show ?thesis by simp
qed

lemma ReadPacket_shorter: "ReadPacket bl r = Inr (frame, r') \<Longrightarrow> length r' < length r"
  by (drule ReadPacket_Inr) auto

text \<open>
  The read loop of a carrier stream (in \<^verbatim>\<open>TunHub.ServeClient\<close> and in the uplink goroutine of
  \<^verbatim>\<open>StartClient\<close>): packets are handed on one by one until the first error.
\<close>

function read_packets :: "bytes \<Rightarrow> bytes list" where
  "read_packets r =
     (case ReadPacket MaxEtherFrame r of
        Inl _ \<Rightarrow> []
      | Inr (frame, r') \<Rightarrow> frame # read_packets r')"
  by pat_completeness auto
termination
  by (relation "measure length") (auto dest: ReadPacket_shorter)

declare read_packets.simps [simp del]

definition packet_ok :: "bytes \<Rightarrow> bool" where
  "packet_ok frame \<longleftrightarrow> 0 < length frame \<and> length frame \<le> MaxEtherFrame"

lemma WritePacket_Inr_iff:
  "WritePacket w frame = Inr out \<longleftrightarrow> packet_ok frame \<and> out = w @ put_u16 (length frame) @ frame"
  by (auto simp: WritePacket_def packet_ok_def)

lemma ReadPacket_WritePacket:
  assumes "packet_ok frame" "length frame \<le> bl"
  shows "ReadPacket bl (put_u16 (length frame) @ frame @ rest) = Inr (frame, rest)"
  using assms
  by (simp add: ReadPacket_def packet_ok_def MaxEtherFrame_def ReadFull_append be_val_put_u16)

interpretation packets: stream_codec
  "\<lambda>frame. put_u16 (length frame) @ frame"
  "\<lambda>r. case ReadPacket MaxEtherFrame r of Inl _ \<Rightarrow> None | Inr p \<Rightarrow> Some p"
  read_packets packet_ok
proof
  show "(case ReadPacket MaxEtherFrame ((put_u16 (length f) @ f) @ rest) of
          Inl _ \<Rightarrow> None | Inr p \<Rightarrow> Some p) = Some (f, rest)" if "packet_ok f" for f rest
    using ReadPacket_WritePacket[of f MaxEtherFrame rest] that by (simp add: packet_ok_def)
  show "read_packets s =
      (case (case ReadPacket MaxEtherFrame s of Inl _ \<Rightarrow> None | Inr p \<Rightarrow> Some p) of
        None \<Rightarrow> [] | Some (f, rest) \<Rightarrow> f # read_packets rest)" for s
    by (subst read_packets.simps) (auto split: sum.splits)
qed

text \<open>Writing a sequence of frames in turn; the first bad length stops it.\<close>

fun write_packets :: "bytes \<Rightarrow> bytes list \<Rightarrow> l2_error + bytes" where
  "write_packets w [] = Inr w"
| "write_packets w (f # fs) =
     (case WritePacket w f of Inl e \<Rightarrow> Inl e | Inr w' \<Rightarrow> write_packets w' fs)"

lemma write_packets_Inr:
  "write_packets w fs = Inr out \<Longrightarrow>
   (\<forall>f \<in> set fs. packet_ok f) \<and> out = w @ concat (map (\<lambda>f. put_u16 (length f) @ f) fs)"
proof (induction fs arbitrary: w)
  case Nil
  then show ?case by simp
next
  case (Cons f fs)
  then obtain w' where "WritePacket w f = Inr w'" "write_packets w' fs = Inr out"
    by (auto split: sum.splits)
  with Cons.IH[of w'] show ?case by (simp add: WritePacket_Inr_iff)
qed

subsection \<open>Properties\<close>

text \<open>
  C21. A sequence of Ethernet frames written to the carrier is read back by the pump loop
  unchanged, in order and without anything left over, whatever follows a clean end of the
  sequence with the stream.
\<close>

theorem packets_roundtrip:
  assumes "write_packets [] fs = Inr out"
  shows "read_packets (out @ rest) = fs @ read_packets rest"
  using write_packets_Inr[OF assms] packets.decode_all_encode[of fs rest] by simp

theorem packets_roundtrip_witness:
  "write_packets [] [[1, 2], [3]] = Inr [0, 2, 1, 2, 0, 1, 3] \<and>
   read_packets [0, 2, 1, 2, 0, 1, 3] = [[1, 2], [3]]"
proof -
  have w: "write_packets [] [[1, 2], [3]] = Inr [0, 2, 1, 2, 0, 1, 3]" by code_simp
  have "read_packets [] = []" by code_simp
  then show ?thesis using w packets_roundtrip[OF w, of "[]"] by simp
qed

text \<open>
  A packet the reader accepts is exactly a non-empty frame of at most 1600 bytes that fits
  its buffer, preceded by its own length: no input makes it accept anything else.
\<close>

theorem read_packet_sound:
  "ReadPacket buflen r = Inr (frame, r') \<longleftrightarrow>
     r = put_u16 (length frame) @ frame @ r' \<and>
     0 < length frame \<and> length frame \<le> 1600 \<and> length frame \<le> buflen"
  using ReadPacket_Inr[of buflen r frame r'] ReadPacket_WritePacket[of frame buflen r']
  by (auto simp: packet_ok_def MaxEtherFrame_def)

lemma parseJSON_mustJSON: "parseJSON (mustJSON f) = Some \<lparr>Service = to_valid (Service f)\<rparr>"
proof -
  have k: "to_valid ''service'' = ''service''" by code_simp
  have "json_depth (JObject (string_field ''service'' (Service f))) \<le> maxNestingDepth"
    by (simp add: depth_flat scalar_fields maxNestingDepth_def del: json_depth.simps)
  from parse_render[OF _ this] show ?thesis
    by (simp add: mustJSON_def parseJSON_def unmarshal_struct_def read_field k set_Frame_def del: render.simps)
qed

lemma mustJSON_nonempty: "mustJSON f \<noteq> []"
  by (simp add: mustJSON_def bytes_of_string_def)

lemma WriteFrame_read:
  assumes "WriteFrame [] f = Inr hdr"
  shows "ReadFrame (hdr @ rest) = Inr (\<lparr>Service = to_valid (Service f)\<rparr>, rest)"
  using assms mustJSON_nonempty[of f]
  by (auto simp: WriteFrame_def ReadFrame_def Let_def ReadFull_append be_val_put_u32 maxFrameLen_def parseJSON_mustJSON split: if_splits)

text \<open>
  A stream header written by the server is read back by the client with the following payload left on
  the stream: the client sees the service name with its malformed bytes replaced, so exactly the name
  when it is well-formed UTF-8, and a header of more than 64 KiB is refused by the writer.
\<close>

theorem frame_roundtrip:
  "(length (mustJSON f) > 65536 \<longrightarrow> WriteFrame w f = Inl (FrameTooLarge (length (mustJSON f)))) \<and>
   (length (mustJSON f) \<le> 65536 \<longrightarrow>
      (\<exists>out. WriteFrame w f = Inr (w @ out) \<and> ReadFrame (out @ rest) = Inr (\<lparr>Service = to_valid (Service f)\<rparr>, rest)))"
  using mustJSON_nonempty[of f]
  by (simp add: WriteFrame_def ReadFrame_def Let_def ReadFull_append be_val_put_u32 maxFrameLen_def parseJSON_mustJSON)

theorem frame_roundtrip_witness:
  "\<exists>out. WriteFrame [] \<lparr>Service = ''wss://a.example/&''\<rparr> = Inr ([] @ out) \<and>
     ReadFrame (out @ [7, 8]) = Inr (\<lparr>Service = ''wss://a.example/&''\<rparr>, [7, 8])"
proof -
  have "length (mustJSON \<lparr>Service = ''wss://a.example/&''\<rparr>) \<le> 65536" "to_valid ''wss://a.example/&'' = ''wss://a.example/&''"
    by code_simp+
  then show ?thesis using frame_roundtrip[of "\<lparr>Service = ''wss://a.example/&''\<rparr>" "[]" "[7, 8]"] by simp
qed

end
