(* ===== verification/L2Switch.thy ===== *)
theory L2Switch
  imports Go_Netip Framing
begin

text \<open>
  \<^verbatim>\<open>internal/l2/switch.go\<close>, \<^verbatim>\<open>internal/l2/udpendpoint.go\<close> and the frame pump of
  \<^verbatim>\<open>internal/control/tunhub.go\<close>: the learning bridge. A \<^verbatim>\<open>*Port\<close> is a record with the identity
  the allocation gave it (the switch's \<open>fresh\<close> counter stands for the allocator), \<^verbatim>\<open>macs\<close> is a
  partial map and the key set \<^verbatim>\<open>ports\<close> a duplicate-free list, whose order stands for Go's
  unspecified iteration order. Sending is an output: an operation returns the new switch, the
  (port, frame) pairs it hands to the ports' \<^verbatim>\<open>send\<close> in order, and the sources it reports to the
  IPv6 hook. Each operation is one atomic step.
\<close>

subsection \<open>State\<close>

type_synonym mac = bytes

record port =
  pid :: nat
  name :: string
  allowedV4 :: "prefix list"
  allowedV6 :: "prefix list"

record port_config =
  cfg_name :: string
  cfg_allowedV4 :: "prefix list"
  cfg_allowedV6 :: "prefix list"

record switch =
  macs :: "mac \<rightharpoonup> port"
  ports :: "port list"
  onIPv6 :: bool \<comment> \<open>whether the IPv6 hook is set\<close>
  fresh :: nat

definition switch_New :: "bool \<Rightarrow> switch" where
  "switch_New hook = \<lparr>macs = Map.empty, ports = [], onIPv6 = hook, fresh = 0\<rparr>"

definition AddPort :: "port_config \<Rightarrow> switch \<Rightarrow> port \<times> switch" where
  "AddPort cfg s =
     (let p = \<lparr>pid = fresh s, name = cfg_name cfg,
               allowedV4 = cfg_allowedV4 cfg, allowedV6 = cfg_allowedV6 cfg\<rparr>
      in (p, s\<lparr>ports := ports s @ [p], fresh := Suc (fresh s)\<rparr>))"

definition RemovePort :: "port \<Rightarrow> switch \<Rightarrow> switch" where
  "RemovePort p s =
     s\<lparr>ports := filter (\<lambda>q. q \<noteq> p) (ports s),
       macs := (\<lambda>m. if macs s m = Some p then None else macs s m)\<rparr>"

subsection \<open>Frame inspection\<close>

definition etherType :: "bytes \<Rightarrow> u16" where
  "etherType frame =
     (if length frame < 14 then 0 else push_bit 8 (ucast (frame ! 12)) OR ucast (frame ! 13))"

fun prefixesContain :: "prefix list \<Rightarrow> addr \<Rightarrow> bool" where
  "prefixesContain [] a = False"
| "prefixesContain (pfx # ps) a = (if Contains pfx a then True else prefixesContain ps a)"

definition slice :: "nat \<Rightarrow> nat \<Rightarrow> 'a list \<Rightarrow> 'a list" where
  "slice i j xs = take (j - i) (drop i xs)"

definition AddrFrom4 :: "bytes \<Rightarrow> addr" where "AddrFrom4 b = Addr4 (word_of_bytes b)"
definition AddrFrom16 :: "bytes \<Rightarrow> addr" where "AddrFrom16 b = Addr6 (word_of_bytes b) []"

definition sourceAllowed :: "port \<Rightarrow> bytes \<Rightarrow> bool" where
  "sourceAllowed p frame =
     (if allowedV4 p = [] \<and> allowedV6 p = [] then True
      else if etherType frame = 0x0800 then
        (if length frame < 30 then False
         else prefixesContain (allowedV4 p) (AddrFrom4 (slice 26 30 frame)))
      else if etherType frame = 0x0806 then
        (if length frame < 32 \<or> frame ! 18 \<noteq> 4 then True
         else prefixesContain (allowedV4 p) (AddrFrom4 (slice 28 32 frame)))
      else if etherType frame = 0x86dd then
        (if length frame < 38 then False
         else prefixesContain (allowedV6 p) (AddrFrom16 (slice 22 38 frame)))
      else True)"

subsection \<open>Forwarding\<close>

definition flood :: "port \<Rightarrow> bytes \<Rightarrow> switch \<Rightarrow> (port \<times> bytes) list" where
  "flood from frame s = map (\<lambda>p. (p, frame)) (filter (\<lambda>p. p \<noteq> from) (ports s))"

definition is_group :: "mac \<Rightarrow> bool" where
  "is_group m \<longleftrightarrow> m ! 0 AND 1 = 1"

definition Inject ::
    "port \<Rightarrow> bytes \<Rightarrow> switch \<Rightarrow> switch \<times> (port \<times> bytes) list \<times> bytes list" where
  "Inject from frame s =
     (if length frame < 14 then (s, [], [])
      else if \<not> sourceAllowed from frame then (s, [], [])
      else
        let dst = slice 0 6 frame;
            src = slice 6 12 frame;
            s1 = (if src ! 0 AND 1 = 0 then
                    (if macs s src \<noteq> Some from then s\<lparr>macs := (macs s)(src \<mapsto> from)\<rparr> else s)
                  else s);
            hook = (if onIPv6 s1 \<and> etherType frame = 0x86dd \<and> length frame \<ge> 38
                      \<and> frame ! 22 AND 0xe0 = 0x20
                    then [slice 22 38 frame] else [])
        in if dst ! 0 AND 1 = 1 then (s1, flood from frame s1, hook)
           else case macs s1 dst of
                  None \<Rightarrow> (s1, flood from frame s1, hook)
                | Some target \<Rightarrow>
                    if target \<noteq> from then (s1, [(target, frame)], hook) else (s1, [], hook))"

abbreviation after_inject :: "port \<Rightarrow> bytes \<Rightarrow> switch \<Rightarrow> switch" where
  "after_inject from frame s \<equiv> fst (Inject from frame s)"

abbreviation sends_of :: "port \<Rightarrow> bytes \<Rightarrow> switch \<Rightarrow> (port \<times> bytes) list" where
  "sends_of from frame s \<equiv> fst (snd (Inject from frame s))"

subsection \<open>Clients of the switch\<close>

text \<open>
  \<^verbatim>\<open>TunHub.ServeClient\<close>: attach a port, inject every packet of the stream, detach. The value
  is the switch afterwards and everything sent to other ports on the way.
\<close>

fun inject_all :: "port \<Rightarrow> bytes list \<Rightarrow> switch \<Rightarrow> switch \<times> (port \<times> bytes) list" where
  "inject_all p [] s = (s, [])"
| "inject_all p (f # fs) s =
     (let (s1, out, _) = Inject p f s; (s2, outs) = inject_all p fs s1 in (s2, out @ outs))"

definition ServeClient :: "string \<Rightarrow> bytes \<Rightarrow> switch \<Rightarrow> switch \<times> (port \<times> bytes) list" where
  "ServeClient port_name stream s =
     (let (p, s1) = AddPort \<lparr>cfg_name = port_name, cfg_allowedV4 = [], cfg_allowedV6 = []\<rparr> s;
          (s2, outs) = inject_all p (read_packets stream) s1
      in (RemovePort p s2, outs))"

text \<open>
  \<^verbatim>\<open>UDPEndpoint\<close>: one switch port per peer address. The read buffer holds 1600 bytes, so a
  longer datagram is cut; a datagram shorter than 20 bytes is control and only \<open>ping\<close> is
  answered.
\<close>

record endpoint =
  sw :: switch
  peers :: "(string \<times> port) list"

definition minFrameLen :: nat where "minFrameLen = 20"
definition pingMsg :: bytes where "pingMsg = bytes_of_string ''ping''"
definition pongMsg :: bytes where "pongMsg = bytes_of_string ''pong''"

definition peerPort :: "string \<Rightarrow> endpoint \<Rightarrow> port \<times> endpoint" where
  "peerPort key ep =
     (case map_of (peers ep) key of
        Some p \<Rightarrow> (p, ep)
      | None \<Rightarrow>
          let (p, s) = AddPort \<lparr>cfg_name = ''udpt:'' @ key, cfg_allowedV4 = [], cfg_allowedV6 = []\<rparr> (sw ep)
          in (p, ep\<lparr>sw := s, peers := (key, p) # peers ep\<rparr>))"

text \<open>One turn of \<^verbatim>\<open>readLoop\<close>: the reply datagram to the peer, if any, and the switch's sends.\<close>

definition readLoop_turn ::
    "string \<Rightarrow> bytes \<Rightarrow> endpoint \<Rightarrow> endpoint \<times> bytes option \<times> (port \<times> bytes) list" where
  "readLoop_turn key datagram ep =
     (let buf = take MaxEtherFrame datagram in
      if length buf < minFrameLen then
        (ep, if buf = pingMsg then Some pongMsg else None, [])
      else
        let (p, ep1) = peerPort key ep;
            (s, out, _) = Inject p buf (sw ep1)
        in (ep1\<lparr>sw := s\<rparr>, None, out))"

definition endpoint_Close :: "endpoint \<Rightarrow> endpoint" where
  "endpoint_Close ep = ep\<lparr>sw := fold RemovePort (map snd (peers ep)) (sw ep), peers := []\<rparr>"

subsection \<open>Interface: a switch as its clients use it\<close>

text \<open>
  The pump of a carrier stream and the UDP endpoint rely on this much: a new port is new, a
  removed port is gone, injecting neither attaches nor detaches ports, and what is sent goes
  to attached ports other than the source.
\<close>

locale switch_ports =
  fixes add :: "'cfg \<Rightarrow> 's \<Rightarrow> 'p \<times> 's"
    and remove :: "'p \<Rightarrow> 's \<Rightarrow> 's"
    and inject :: "'p \<Rightarrow> 'f \<Rightarrow> 's \<Rightarrow> 's"
    and sends :: "'p \<Rightarrow> 'f \<Rightarrow> 's \<Rightarrow> ('p \<times> 'f) list"
    and attached :: "'s \<Rightarrow> 'p set"
    and inv :: "'s \<Rightarrow> bool"
  assumes add_new: "inv s \<Longrightarrow> add c s = (p, s') \<Longrightarrow>
      p \<notin> attached s \<and> attached s' = insert p (attached s) \<and> inv s'"
    and remove_gone: "inv s \<Longrightarrow> attached (remove p s) = attached s - {p} \<and> inv (remove p s)"
    and inject_keeps: "inv s \<Longrightarrow> p \<in> attached s \<Longrightarrow>
      attached (inject p f s) = attached s \<and> inv (inject p f s)"
    and sends_attached: "inv s \<Longrightarrow> p \<in> attached s \<Longrightarrow> (q, g) \<in> set (sends p f s) \<Longrightarrow>
      q \<in> attached s \<and> q \<noteq> p \<and> g = f"
begin

lemma fold_inject:
  "inv s \<Longrightarrow> p \<in> attached s \<Longrightarrow>
   attached (fold (inject p) fs s) = attached s \<and> inv (fold (inject p) fs s)"
  by (induction fs arbitrary: s) (simp_all add: inject_keeps)

lemma session_restores_ports:
  assumes "inv s" and "add c s = (p, s')"
  shows "attached (remove p (fold (inject p) fs s')) = attached s"
    and "inv (remove p (fold (inject p) fs s'))"
proof -
  have n: "p \<notin> attached s" "attached s' = insert p (attached s)" "inv s'"
    using add_new[OF assms] by auto
  have "attached (fold (inject p) fs s') = insert p (attached s)" "inv (fold (inject p) fs s')"
    using fold_inject[of s' p fs] n by auto
  then show "attached (remove p (fold (inject p) fs s')) = attached s"
    and "inv (remove p (fold (inject p) fs s'))"
    using remove_gone n(1) by auto
qed

lemma fold_remove:
  "inv s \<Longrightarrow> attached (fold remove ps s) = attached s - set ps \<and> inv (fold remove ps s)"
proof (induction ps arbitrary: s)
  case Nil
  then show ?case by simp
next
  case (Cons p ps)
  then have "inv (remove p s)" "attached (remove p s) = attached s - {p}"
    using remove_gone by auto
  with Cons.IH[of "remove p s"] show ?case by auto
qed

end

subsection \<open>Invariant\<close>

definition switch_inv :: "switch \<Rightarrow> bool" where
  "switch_inv s \<longleftrightarrow>
     distinct (ports s) \<and>
     (\<forall>p \<in> set (ports s). pid p < fresh s) \<and>
     (\<forall>m p. macs s m = Some p \<longrightarrow> p \<in> set (ports s) \<and> length m = 6 \<and> m ! 0 AND 1 = 0)"

lemma switch_inv_New: "switch_inv (switch_New hook)"
  by (simp add: switch_inv_def switch_New_def)

lemma switch_inv_AddPort: "switch_inv s \<Longrightarrow> switch_inv (snd (AddPort cfg s))"
  by (auto simp: switch_inv_def AddPort_def Let_def less_Suc_eq)

lemma switch_inv_RemovePort: "switch_inv s \<Longrightarrow> switch_inv (RemovePort p s)"
  by (auto simp: switch_inv_def RemovePort_def split: if_splits)

text \<open>The part of an accepted frame that updates the table.\<close>

definition learn :: "port \<Rightarrow> bytes \<Rightarrow> switch \<Rightarrow> switch" where
  "learn from frame s =
     (if slice 6 12 frame ! 0 AND 1 = 0 then s\<lparr>macs := (macs s)(slice 6 12 frame \<mapsto> from)\<rparr> else s)"

definition accepts :: "port \<Rightarrow> bytes \<Rightarrow> bool" where
  "accepts from frame \<longleftrightarrow> 14 \<le> length frame \<and> sourceAllowed from frame"

lemma length_slice [simp]: "j \<le> length xs \<Longrightarrow> length (slice i j xs) = j - i"
  by (simp add: slice_def)

lemma learn_noop: "macs s m = Some p \<Longrightarrow> s\<lparr>macs := (macs s)(m \<mapsto> p)\<rparr> = s"
  by (simp add: map_upd_triv)

lemma after_inject_eq:
  "after_inject from frame s = (if accepts from frame then learn from frame s else s)"
  by (auto simp: Inject_def accepts_def learn_def Let_def learn_noop split: option.splits)

lemma learn_ports [simp]:
  "ports (learn from frame s) = ports s" "fresh (learn from frame s) = fresh s"
  "onIPv6 (learn from frame s) = onIPv6 s"
  by (simp_all add: learn_def)

lemma sends_of_eq:
  "sends_of from frame s =
     (if \<not> accepts from frame then []
      else let s1 = learn from frame s; dst = slice 0 6 frame in
        if is_group dst then flood from frame s
        else case macs s1 dst of
               None \<Rightarrow> flood from frame s
             | Some target \<Rightarrow> if target \<noteq> from then [(target, frame)] else [])"
  by (auto simp: Inject_def accepts_def learn_def Let_def learn_noop is_group_def flood_def
      split: option.splits)

lemma switch_inv_learn:
  assumes "switch_inv s" "from \<in> set (ports s)" "14 \<le> length frame"
  shows "switch_inv (learn from frame s)"
  using assms by (auto simp: switch_inv_def learn_def)

lemma switch_inv_inject:
  assumes "switch_inv s" "from \<in> set (ports s)"
  shows "switch_inv (after_inject from frame s)"
  using assms by (simp add: after_inject_eq switch_inv_learn accepts_def)

lemma sends_of_attached:
  assumes "switch_inv s" "from \<in> set (ports s)" "(q, g) \<in> set (sends_of from frame s)"
  shows "q \<in> set (ports s) \<and> q \<noteq> from \<and> g = frame"
proof -
  have acc: "accepts from frame" using assms(3) by (auto simp: sends_of_eq split: if_splits)
  then have "switch_inv (learn from frame s)"
    using assms by (simp add: switch_inv_learn accepts_def)
  then show ?thesis
    using assms(3) acc
    by (auto simp: sends_of_eq Let_def flood_def switch_inv_def split: if_splits option.splits)
qed

interpretation l2: switch_ports AddPort RemovePort after_inject sends_of "\<lambda>s. set (ports s)" switch_inv
proof
  show "p \<notin> set (ports s) \<and> set (ports s') = insert p (set (ports s)) \<and> switch_inv s'"
    if "switch_inv s" "AddPort c s = (p, s')" for s c p s'
    using that switch_inv_AddPort[of s c]
    by (auto simp: AddPort_def Let_def switch_inv_def)
  show "set (ports (RemovePort p s)) = set (ports s) - {p} \<and> switch_inv (RemovePort p s)"
    if "switch_inv s" for s p
    using that by (auto simp: switch_inv_RemovePort) (auto simp: RemovePort_def)
  show "set (ports (after_inject p f s)) = set (ports s) \<and> switch_inv (after_inject p f s)"
    if "switch_inv s" "p \<in> set (ports s)" for s p f
    using that by (simp add: switch_inv_inject) (simp add: after_inject_eq)
  show "q \<in> set (ports s) \<and> q \<noteq> p \<and> g = f"
    if "switch_inv s" "p \<in> set (ports s)" "(q, g) \<in> set (sends_of p f s)" for s p q g f
    using that by (rule sends_of_attached)
qed

interpretation port_rules: rule_list Contains prefixesContain
proof
  show "prefixesContain rs x = (\<exists>r\<in>set rs. Contains r x)" for rs x
    by (induction rs) auto
qed

subsection \<open>Runs of the switch\<close>

datatype switch_event = Attach port_config | Detach port | Arrive port bytes

fun switch_step :: "switch_event \<Rightarrow> switch \<Rightarrow> switch" where
  "switch_step (Attach cfg) s = snd (AddPort cfg s)"
| "switch_step (Detach p) s = RemovePort p s"
| "switch_step (Arrive p f) s = after_inject p f s"

text \<open>Frames arrive on attached ports; attaching and detaching is always possible.\<close>

fun switch_enabled :: "switch_event \<Rightarrow> switch \<Rightarrow> bool" where
  "switch_enabled (Arrive p f) s = (p \<in> set (ports s))"
| "switch_enabled _ s = True"

interpretation bridge: invariant_machine switch_step switch_enabled switch_inv
proof
  show "switch_inv (switch_step e s)" if "switch_inv s" "switch_enabled e s" for s e
    using that by (cases e) (auto simp: switch_inv_AddPort switch_inv_RemovePort switch_inv_inject)
qed

text \<open>What leaves the location of a station alone.\<close>

fun keeps_location :: "port \<Rightarrow> mac \<Rightarrow> switch_event \<Rightarrow> bool" where
  "keeps_location p a (Attach _) = True"
| "keeps_location p a (Detach r) = (r \<noteq> p)"
| "keeps_location p a (Arrive r f) = (r = p \<or> \<not> accepts r f \<or> slice 6 12 f \<noteq> a)"

lemma step_keeps_location:
  "macs s a = Some p \<Longrightarrow> keeps_location p a e \<Longrightarrow> macs (switch_step e s) a = Some p"
  by (cases e) (auto simp: AddPort_def Let_def RemovePort_def after_inject_eq learn_def)

lemma run_keeps_location:
  "macs s a = Some p \<Longrightarrow> list_all (keeps_location p a) es \<Longrightarrow> macs (fold switch_step es s) a = Some p"
  by (induction es arbitrary: s) (auto simp: step_keeps_location)

lemma inject_all_fold: "fst (inject_all p fs s) = fold (after_inject p) fs s"
  by (induction fs arbitrary: s) (auto simp: split_beta Let_def)

subsection \<open>Properties\<close>

text \<open>
  In every run of the switch from its creation, with frames arriving on attached ports
  only, each learned address is a 6-byte unicast address located at a port that is attached
  now, and no two attached ports are the same: no frame can be forwarded to a port that has
  been removed.
\<close>

theorem switch_run_inv:
  assumes "all_enabled switch_enabled switch_step es (switch_New hook)"
  shows "switch_inv (fold switch_step es (switch_New hook))"
  using bridge.run_inv[OF switch_inv_New assms] .

theorem switch_run_inv_witness:
  "switch_inv (fold switch_step [Attach \<lparr>cfg_name = ''a'', cfg_allowedV4 = [], cfg_allowedV6 = []\<rparr>,
     Arrive \<lparr>pid = 0, name = ''a'', allowedV4 = [], allowedV6 = []\<rparr> (replicate 14 0)] (switch_New False))"
  by (rule switch_run_inv) (simp add: AddPort_def switch_New_def Let_def)

text \<open>
  A station is reached at the port where it last spoke: after an accepted frame with
  unicast source \<open>a\<close> arrived on port \<open>p\<close>, and whatever happens next short of detaching \<open>p\<close> or
  an accepted frame from \<open>a\<close> on another port, a frame to \<open>a\<close> accepted on another port \<open>q\<close> is
  sent to \<open>p\<close>, once, and to nobody else.
\<close>

theorem unicast_to_last_port:
  assumes "accepts p f" and "slice 6 12 f = a" and "a ! 0 AND 1 = 0"
    and "list_all (keeps_location p a) es"
    and "accepts q g" and "slice 0 6 g = a" and "slice 6 12 g \<noteq> a" and "q \<noteq> p"
  shows "sends_of q g (fold switch_step es (after_inject p f s)) = [(p, g)]"
proof -
  have "macs (after_inject p f s) a = Some p"
    using assms(1-3) by (simp add: after_inject_eq learn_def)
  then have "macs (fold switch_step es (after_inject p f s)) a = Some p"
    using assms(4) by (rule run_keeps_location)
  moreover have "\<not> is_group a" using assms(3) by (simp add: is_group_def)
  ultimately show ?thesis
    using assms(5-8) by (simp add: sends_of_eq Let_def learn_def)
qed

definition wport :: "nat \<Rightarrow> port" where
  "wport i = \<lparr>pid = i, name = [], allowedV4 = [], allowedV6 = []\<rparr>"

definition wframe :: "byte \<Rightarrow> byte \<Rightarrow> bytes" where
  "wframe d s = [2, 0, 0, 0, 0, d, 2, 0, 0, 0, 0, s, 8, 0]"

definition wswitch :: switch where
  "wswitch = \<lparr>macs = Map.empty, ports = [wport 0, wport 1, wport 2], onIPv6 = False, fresh = 3\<rparr>"

lemma wswitch_inv: "switch_inv wswitch"
  by (simp add: switch_inv_def wswitch_def wport_def)

theorem unicast_to_last_port_witness:
  "sends_of (wport 1) (wframe 10 11) (fold switch_step [Arrive (wport 2) (wframe 99 12)]
     (after_inject (wport 0) (wframe 11 10) wswitch)) = [(wport 0, wframe 10 11)]"
  by (rule unicast_to_last_port[where a = "[2, 0, 0, 0, 0, 10]"])
    (simp_all add: wport_def wframe_def accepts_def sourceAllowed_def slice_def)

text \<open>
  Nothing is echoed or sent astray: in a switch that satisfies its invariant, a frame
  arriving on an attached port is handed, unchanged, to attached ports other than its own, and
  to each of them at most once.
\<close>

theorem no_echo:
  assumes "switch_inv s" and "from \<in> set (ports s)"
  shows "distinct (sends_of from frame s) \<and>
    (\<forall>(q, g) \<in> set (sends_of from frame s). q \<in> set (ports s) \<and> q \<noteq> from \<and> g = frame)"
proof -
  have "distinct (flood from frame s)"
    using assms(1) by (auto simp: flood_def switch_inv_def distinct_map inj_on_def)
  then have "distinct (sends_of from frame s)"
    by (simp add: sends_of_eq Let_def split: option.splits)
  then show ?thesis using sends_of_attached[OF assms] by blast
qed

theorem no_echo_witness: "distinct (sends_of (wport 0) (wframe 11 10) wswitch)"
proof -
  have "wport 0 \<in> set (ports wswitch)" by (simp add: wswitch_def)
  from no_echo[OF wswitch_inv this] show ?thesis by blast
qed

text \<open>
  C20. Anti-spoofing for IPv4: on a port with a source restriction, an IPv4 frame whose source
  address is in none of the port's IPv4 prefixes has no effect at all: nothing is learned,
  nothing is sent and the IPv6 hook is not called.
\<close>

theorem spoofed_ipv4_dropped:
  assumes "allowedV4 from \<noteq> []" and "etherType frame = 0x0800"
    and "\<not> (\<exists>pfx \<in> set (allowedV4 from). Contains pfx (AddrFrom4 (slice 26 30 frame)))"
  shows "Inject from frame s = (s, [], [])"
  using assms by (auto simp: Inject_def sourceAllowed_def port_rules.admits_iff)

theorem spoofed_ipv4_dropped_witness:
  "Inject (wport 0\<lparr>allowedV4 := [Prefix (Addr4 0x0a2a0000) 24]\<rparr>)
     (wframe 11 10 @ replicate 12 0 @ [192, 168, 1, 1, 0, 0, 0, 0]) wswitch = (wswitch, [], [])"
  by (rule spoofed_ipv4_dropped) code_simp+

definition arp_packet :: "mac \<Rightarrow> mac \<Rightarrow> byte \<Rightarrow> bytes \<Rightarrow> bytes \<Rightarrow> bytes \<Rightarrow> bytes" where
  "arp_packet dst src oper spa tha tpa =
     dst @ src @ [0x08, 0x06] @ [0, 1, 0x08, 0x00, 6, 4, 0, oper] @ src @ spa @ tha @ tpa"

text \<open>
  The ARP half of the anti-spoofing check does nothing on real Ethernet ARP: byte 18 of
  the frame, which the code reads as the protocol address length, is the hardware address
  length, 6 for Ethernet, so every IPv4-over-Ethernet ARP packet is accepted whatever sender
  address it claims.
\<close>

theorem arp_sender_unchecked:
  assumes "length dst = 6" and "length src = 6"
  shows "sourceAllowed p (arp_packet dst src oper spa tha tpa)"
proof -
  let ?f = "arp_packet dst src oper spa tha tpa"
  have f: "?f = (dst @ src) @ [0x08, 0x06, 0, 1, 0x08, 0x00, 6, 4, 0, oper] @ src @ spa @ tha @ tpa"
    by (simp add: arp_packet_def)
  have len: "length (dst @ src) = 12" using assms by simp
  have "?f ! 12 = 0x08" "?f ! 13 = 0x06" "?f ! 18 = 6"
    unfolding f nth_append len by simp_all
  moreover have "14 \<le> length ?f" using assms by (simp add: f)
  ultimately show ?thesis
    by (simp add: sourceAllowed_def etherType_def)
qed

theorem arp_sender_unchecked_witness:
  "sourceAllowed (wport 0\<lparr>allowedV4 := [Prefix (Addr4 0x0a2a0000) 24]\<rparr>)
     (arp_packet (replicate 6 255) [2, 0, 0, 0, 0, 10] 1 [192, 168, 1, 1] (replicate 6 0) [10, 42, 0, 1])
   \<and> \<not> Contains (Prefix (Addr4 0x0a2a0000) 24) (AddrFrom4 [192, 168, 1, 1])"
proof -
  have "\<not> Contains (Prefix (Addr4 0x0a2a0000) 24) (AddrFrom4 [192, 168, 1, 1])" by code_simp
  then show ?thesis
    using arp_sender_unchecked[of "replicate 6 255" "[2, 0, 0, 0, 0, 10]"] by simp
qed

lemma serve_client_ports:
  assumes "switch_inv s"
  shows "set (ports (fst (ServeClient nm stream s))) = set (ports s) \<and>
    switch_inv (fst (ServeClient nm stream s))"
proof -
  obtain p s1 where add: "AddPort \<lparr>cfg_name = nm, cfg_allowedV4 = [], cfg_allowedV6 = []\<rparr> s = (p, s1)"
    by (meson surj_pair)
  have "fst (ServeClient nm stream s) = RemovePort p (fold (after_inject p) (read_packets stream) s1)"
    using inject_all_fold[of p "read_packets stream" s1]
    by (auto simp: ServeClient_def add split_beta Let_def)
  then show ?thesis
    using l2.session_restores_ports[OF assms add, of "read_packets stream"] by simp
qed

text \<open>
  A client's data stream leaves no trace in the hub's switch once it ends: the attached
  ports are those from before, and the invariant (so that no address is located at the
  detached port) still holds, whatever bytes the stream carried.
\<close>

theorem serve_client_restores:
  assumes "switch_inv s"
  shows "set (ports (fst (ServeClient nm stream s))) = set (ports s) \<and>
    switch_inv (fst (ServeClient nm stream s))"
  using assms by (rule serve_client_ports)

theorem serve_client_restores_witness:
  "set (ports (fst (ServeClient ''client:x'' (0 # 14 # wframe 11 10) wswitch))) = set (ports wswitch) \<and>
   switch_inv (fst (ServeClient ''client:x'' (0 # 14 # wframe 11 10) wswitch))"
  by (rule serve_client_restores[OF wswitch_inv])

definition endpoint_inv :: "endpoint \<Rightarrow> bool" where
  "endpoint_inv ep \<longleftrightarrow>
     switch_inv (sw ep) \<and> distinct (map fst (peers ep)) \<and> distinct (map snd (peers ep)) \<and>
     set (map snd (peers ep)) \<subseteq> set (ports (sw ep))"

lemma peerPort_inv:
  assumes "endpoint_inv ep" "peerPort key ep = (p, ep')"
  shows "endpoint_inv ep' \<and> map_of (peers ep') key = Some p \<and> p \<in> set (ports (sw ep'))"
proof (cases "map_of (peers ep) key")
  case (Some q)
  then have "q \<in> set (map snd (peers ep))" by (force dest: map_of_SomeD)
  with Some assms show ?thesis by (auto simp: peerPort_def endpoint_inv_def)
next
  case None
  obtain q s where add: "AddPort \<lparr>cfg_name = ''udpt:'' @ key, cfg_allowedV4 = [], cfg_allowedV6 = []\<rparr> (sw ep) = (q, s)"
    by (meson surj_pair)
  have new: "q \<notin> set (ports (sw ep))" "set (ports s) = insert q (set (ports (sw ep)))" "switch_inv s"
    using l2.add_new[OF _ add] assms(1) by (auto simp: endpoint_inv_def)
  have "key \<notin> set (map fst (peers ep))" using None by (auto simp: map_of_eq_None_iff)
  moreover have "p = q" "ep' = ep\<lparr>sw := s, peers := (key, q) # peers ep\<rparr>"
    using assms(2) None add by (auto simp: peerPort_def)
  ultimately show ?thesis
    using assms(1) new by (auto simp: endpoint_inv_def)
qed

text \<open>
  Each UDP peer has a switch port of its own: handling a datagram keeps the peers'
  ports pairwise distinct and attached, so two local peers are switched directly.
\<close>

theorem endpoint_turn_inv:
  assumes "endpoint_inv ep"
  shows "endpoint_inv (fst (readLoop_turn key datagram ep))"
proof (cases "length (take MaxEtherFrame datagram) < minFrameLen")
  case True
  with assms show ?thesis by (simp add: readLoop_turn_def Let_def)
next
  case False
  obtain p ep1 where pp: "peerPort key ep = (p, ep1)" by (meson surj_pair)
  have inv: "endpoint_inv ep1" "p \<in> set (ports (sw ep1))" using peerPort_inv[OF assms pp] by auto
  let ?f = "take MaxEtherFrame datagram"
  have "fst (readLoop_turn key datagram ep) = ep1\<lparr>sw := after_inject p ?f (sw ep1)\<rparr>"
    using False by (auto simp: readLoop_turn_def Let_def pp split_beta)
  then show ?thesis
    using inv l2.inject_keeps[of "sw ep1" p ?f] by (auto simp: endpoint_inv_def)
qed

theorem endpoint_turn_inv_witness:
  "endpoint_inv (fst (readLoop_turn ''127.0.0.1:40000'' (wframe 11 10 @ replicate 20 0)
     \<lparr>sw = wswitch, peers = [(''127.0.0.1:40001'', wport 1)]\<rparr>))"
  by (rule endpoint_turn_inv) (simp add: endpoint_inv_def wswitch_inv, simp add: wswitch_def)

end
