(* ===== verification/ControlServer.thy ===== *)
theory ControlServer
  imports Registry L2Switch
begin

text \<open>
  \<^verbatim>\<open>internal/control/server.go\<close>: the control-plane sessions of the server. A session reads JSON
  messages from its control stream and answers each with one acknowledgement; the messages are
  the decoded stream, which ends at the first decoding error. One message is one step; sessions
  run concurrently over the shared registry, so the whole server is a step relation over the
  registry and the open sessions, with every interleaving of their messages.
\<close>

subsection \<open>Interface: a registry of owned entries\<close>

text \<open>
  What the control server relies on: a registration adds entries of that client and session
  only, an update changes no ownership, a removal deletes exactly the session's entries.
\<close>

locale session_registry =
  fixes register :: "string \<Rightarrow> session \<Rightarrow> 'q \<Rightarrow> 'r \<Rightarrow> 'r \<times> 'e option"
    and update :: "string \<Rightarrow> string \<Rightarrow> string list \<Rightarrow> 'r \<Rightarrow> 'r \<times> 'f option"
    and remove :: "session \<Rightarrow> 'r \<Rightarrow> 'r"
    and owners :: "'r \<Rightarrow> (string \<times> session option) set"
  assumes register_owners: "owners (fst (register c sid q r)) \<subseteq> insert (c, Some sid) (owners r)"
    and update_owners: "owners (fst (update c i a r)) = owners r"
    and remove_owners: "owners (remove sid r) = {x \<in> owners r. snd x \<noteq> Some sid}"
begin

lemma register_all: "\<forall>x \<in> owners r. P x \<Longrightarrow> P (c, Some sid) \<Longrightarrow> \<forall>x \<in> owners (fst (register c sid q r)). P x"
  using register_owners[of c sid q r] by blast

lemma update_all: "\<forall>x \<in> owners r. P x \<Longrightarrow> \<forall>x \<in> owners (fst (update c i a r)). P x"
  by (simp add: update_owners)

lemma remove_all:
  "\<forall>x \<in> owners r. P x \<Longrightarrow> \<forall>x \<in> owners (remove sid r). P x \<and> snd x \<noteq> Some sid"
  by (simp add: remove_owners)

lemma remove_absent: "\<forall>x \<in> owners r. snd x \<noteq> Some sid \<Longrightarrow> owners (remove sid r) = owners r"
  by (auto simp: remove_owners)

end

subsection \<open>One session\<close>

record message =
  Type :: string
  UUID :: string
  Certs :: "cert_reg list"
  Services :: "service_reg list"
  msg_ServiceID :: string
  msg_Allow :: "string list"

datatype ack = AckOK | AckAuthRequired | AckUnknownClient | AckRegister register_error
  | AckUpdate update_error | AckUnknownType

record control_session =
  clientID :: string
  authed :: "string option" \<comment> \<open>the one-slot channel the data-stream loop waits on\<close>

definition new_session :: control_session where
  "new_session = \<lparr>clientID = '''', authed = None\<rparr>"

text \<open>
  One turn of the message loop: the acknowledgement, the session or \<open>None\<close> when the loop
  returns, and the registry. \<open>allowed\<close> maps a known UUID to the client's name.
\<close>

definition session_turn ::
    "(string \<Rightarrow> string \<Rightarrow> string + leaf) \<Rightarrow> (string \<rightharpoonup> string) \<Rightarrow> session \<Rightarrow> message \<Rightarrow> control_session \<Rightarrow>
     registry \<Rightarrow> ack \<times> control_session option \<times> registry" where
  "session_turn x509 allowed sid m ss reg =
     (if clientID ss = '''' \<and> Type m \<noteq> ''auth'' then (AckAuthRequired, None, reg)
      else if Type m = ''auth'' then
        (case allowed (UUID m) of
           None \<Rightarrow> (AckUnknownClient, None, reg)
         | Some _ \<Rightarrow>
             (AckOK, Some (ss\<lparr>clientID := UUID m,
                              authed := (case authed ss of None \<Rightarrow> Some (UUID m) | Some c \<Rightarrow> Some c)\<rparr>), reg))
      else if Type m = ''register'' then
        (case Register x509 (clientID ss) (Some sid) (Certs m) (Services m) reg of
           (reg1, Some e) \<Rightarrow> (AckRegister e, Some ss, reg1)
         | (reg1, None) \<Rightarrow> (AckOK, Some ss, reg1))
      else if Type m = ''update_whitelist'' then
        (case UpdateWhitelist (clientID ss) (msg_ServiceID m) (msg_Allow m) reg of
           (reg1, Some e) \<Rightarrow> (AckUpdate e, Some ss, reg1)
         | (reg1, None) \<Rightarrow> (AckOK, Some ss, reg1))
      else if Type m = ''heartbeat'' then (AckOK, Some ss, reg)
      else (AckUnknownType, Some ss, reg))"

text \<open>\<^verbatim>\<open>handleSession\<close> on its own: the acknowledgements written, and the registry after teardown.\<close>

fun session_loop ::
    "(string \<Rightarrow> string \<Rightarrow> string + leaf) \<Rightarrow> (string \<rightharpoonup> string) \<Rightarrow> session \<Rightarrow> message list \<Rightarrow> control_session \<Rightarrow>
     registry \<Rightarrow> ack list \<times> registry" where
  "session_loop x509 allowed sid [] ss reg = ([], reg)"
| "session_loop x509 allowed sid (m # ms) ss reg =
     (case session_turn x509 allowed sid m ss reg of
        (a, None, reg1) \<Rightarrow> ([a], reg1)
      | (a, Some ss1, reg1) \<Rightarrow>
          (let (as, reg2) = session_loop x509 allowed sid ms ss1 reg1 in (a # as, reg2)))"

definition handleSession ::
    "(string \<Rightarrow> string \<Rightarrow> string + leaf) \<Rightarrow> (string \<rightharpoonup> string) \<Rightarrow> session \<Rightarrow> message list \<Rightarrow> registry \<Rightarrow>
     ack list \<times> registry" where
  "handleSession x509 allowed sid ms reg =
     (let (as, reg1) = session_loop x509 allowed sid ms new_session reg
      in (as, fst (RemoveSession (Some sid) reg1)))"

text \<open>
  A further stream of the session: the loop that accepts it waits for the first authenticated
  client, reads the frame and serves only the tunnel tag, and only when there is a hub. The
  value is the switch and what was sent to other ports; \<open>None\<close> when the stream is refused.
\<close>

definition TunService :: string where "TunService = ''tun''"

definition shortID :: "string \<Rightarrow> string" where
  "shortID uuid = (if length uuid \<ge> 8 then take 8 uuid else uuid)"

definition handleDataStream ::
    "string \<Rightarrow> bytes \<Rightarrow> switch option \<Rightarrow> (switch \<times> (port \<times> bytes) list) option" where
  "handleDataStream cid stream hub =
     (case ReadFrame stream of
        Inl _ \<Rightarrow> None
      | Inr (f, rest) \<Rightarrow>
          if Frame.Service f \<noteq> TunService then None
          else (case hub of
                  None \<Rightarrow> None
                | Some hubsw \<Rightarrow> Some (ServeClient (''client:'' @ shortID cid) rest hubsw)))"

definition acceptDataStream ::
    "control_session \<Rightarrow> bytes \<Rightarrow> switch option \<Rightarrow> (switch \<times> (port \<times> bytes) list) option" where
  "acceptDataStream ss stream hub =
     (case authed ss of None \<Rightarrow> None | Some cid \<Rightarrow> handleDataStream cid stream hub)"

subsection \<open>The registry provides the interface\<close>

definition owners :: "registry \<Rightarrow> (string \<times> session option) set" where
  "owners r = (\<lambda>s. (ClientID s, Session s)) ` set (all_services r) \<union>
     (\<lambda>pc. (cert_clientID pc, cert_session pc)) ` set (certs r)"

lemma owners_version [simp]: "owners (r\<lparr>version := n\<rparr>) = owners r"
  by (simp add: owners_def all_services_def)

lemma owners_removeClient: "owners (removeClientLocked c r) \<subseteq> owners r"
  by (auto simp: owners_def services_removeClient) (auto simp: removeClientLocked_def filterCerts_def)

lemma build_cert_owner:
  "build_cert x509 c sess cr = Inr pc \<Longrightarrow> cert_clientID pc = c \<and> cert_session pc = sess"
  by (cases "parseCert x509 (CertPEM cr) (KeyPEM cr)") (auto simp: build_cert_def)

lemma built_certs:
  "traverse_result (build_cert x509 c sess) crts = Inr pcs \<Longrightarrow> pc \<in> set pcs \<Longrightarrow>
     cert_clientID pc = c \<and> cert_session pc = sess"
  by (auto simp: traverse_result_Inr_iff list_all2_conv_all_nth in_set_conv_nth) (metis build_cert_owner)+

lemma Register_owners: "owners (fst (Register x509 c sess crts srvs r)) \<subseteq> insert (c, sess) (owners r)"
proof (cases rule: Register_cases[of x509 c sess crts srvs r])
  case invalid
  then show ?thesis by auto
next
  case conflicted
  then show ?thesis using owners_removeClient[of c r] by auto
next
  case (accepted svcs pcs)
  let ?r1 = "removeClientLocked c r"
  let ?r2 = "fold add_service svcs (?r1\<lparr>certs := certs ?r1 @ pcs\<rparr>)"
  have "set (all_services ?r2) \<subseteq> set svcs \<union> set (all_services ?r1)"
    using all_services_fold[of svcs "?r1\<lparr>certs := certs ?r1 @ pcs\<rparr>"] by (simp add: all_services_def)
  then have "owners ?r2 \<subseteq> insert (c, sess) (owners ?r1)"
    using built_services[OF accepted(1)] built_certs[OF accepted(2)] by (fastforce simp: owners_def)
  then show ?thesis using owners_removeClient[of c r] accepted(4) by auto
qed

lemma owners_erased:
  "owners r = (\<lambda>s. (ClientID s, Session s)) ` set (all_services (erased r)) \<union>
     (\<lambda>pc. (cert_clientID pc, cert_session pc)) ` set (certs r)"
  by (simp add: owners_def all_services_erased image_image)

lemma UpdateWhitelist_certs: "certs (fst (UpdateWhitelist c i a r)) = certs r"
  by (auto simp: UpdateWhitelist_def set_allow_def Let_def split: option.splits prod.splits)

lemma UpdateWhitelist_owners: "owners (fst (UpdateWhitelist c i a r)) = owners r"
  using services_cong[of "erased (fst (UpdateWhitelist c i a r))" "erased r"] UpdateWhitelist_erased[of c i a r]
  by (simp add: owners_erased UpdateWhitelist_certs)

lemma RemoveSession_owners: "owners (fst (RemoveSession sess r)) = {x \<in> owners r. snd x \<noteq> sess}"
proof -
  have "all_services (fst (RemoveSession sess r)) = filter (\<lambda>s. Session s \<noteq> sess) (all_services r)"
    using services_cong[OF RemoveSession_keep] all_services_keep by metis
  moreover have "certs (fst (RemoveSession sess r)) = filter (\<lambda>pc. cert_session pc \<noteq> sess) (certs r)"
    by (simp add: RemoveSession_def filterCerts_def Let_def)
  ultimately show ?thesis by (auto simp: owners_def)
qed

interpretation shared: session_registry
  "\<lambda>c sid q. Register x509 c (Some sid) (fst q) (snd q)" UpdateWhitelist
  "\<lambda>sid r. fst (RemoveSession (Some sid) r)" owners for x509
  by unfold_locales (simp_all add: Register_owners UpdateWhitelist_owners RemoveSession_owners)

subsection \<open>All sessions together\<close>

text \<open>
  A session runs, is about to tear down, or is gone; the teardown is a step of its own, since
  the deferred \<^verbatim>\<open>RemoveSession\<close> runs when other sessions may have taken the lock before it.
\<close>

datatype phase = Running control_session | Closing

record world =
  w_reg :: registry
  w_open :: "session \<rightharpoonup> phase"

definition start :: "registry \<Rightarrow> world" where
  "start r = \<lparr>w_reg = r, w_open = Map.empty\<rparr>"

inductive srv_step ::
    "(string \<Rightarrow> string \<Rightarrow> string + leaf) \<Rightarrow> (string \<rightharpoonup> string) \<Rightarrow> world \<Rightarrow> world \<Rightarrow> bool"
  for x509 allowed where
  connect: "w_open w sid = None \<Longrightarrow>
    srv_step x509 allowed w (w\<lparr>w_open := (w_open w)(sid \<mapsto> Running new_session)\<rparr>)"
| message: "w_open w sid = Some (Running ss) \<Longrightarrow>
    session_turn x509 allowed sid m ss (w_reg w) = (a, Some ss1, reg1) \<Longrightarrow>
    srv_step x509 allowed w (w\<lparr>w_reg := reg1, w_open := (w_open w)(sid \<mapsto> Running ss1)\<rparr>)"
| rejected: "w_open w sid = Some (Running ss) \<Longrightarrow>
    session_turn x509 allowed sid m ss (w_reg w) = (a, None, reg1) \<Longrightarrow>
    srv_step x509 allowed w (w\<lparr>w_reg := reg1, w_open := (w_open w)(sid \<mapsto> Closing)\<rparr>)"
| decode_end: "w_open w sid = Some (Running ss) \<Longrightarrow>
    srv_step x509 allowed w (w\<lparr>w_open := (w_open w)(sid \<mapsto> Closing)\<rparr>)"
| teardown: "w_open w sid = Some Closing \<Longrightarrow>
    srv_step x509 allowed w (w\<lparr>w_reg := fst (RemoveSession (Some sid) (w_reg w)), w_open := (w_open w)(sid := None)\<rparr>)"

inductive_cases srv_stepE: "srv_step x509 allowed w w'"

lemma session_turn_cases:
  assumes turn: "session_turn x509 allowed sid m ss reg = (a, ss1, reg1)"
  obtains (quiet) "reg1 = reg" | (register) q where "reg1 = fst (Register x509 (clientID ss) (Some sid) (fst q) (snd q) reg)" "clientID ss \<noteq> ''''" "ss1 = Some ss"
  | (update) i al where "reg1 = fst (UpdateWhitelist (clientID ss) i al reg)" "clientID ss \<noteq> ''''" "ss1 = Some ss"
proof -
  consider "Type m = ''register''" "clientID ss \<noteq> ''''" | "Type m = ''update_whitelist''" "clientID ss \<noteq> ''''"
    | "reg1 = reg" using turn by (auto simp: session_turn_def split: if_splits option.splits)
  then show thesis
  proof cases
    case 1
    then have "ss1 = Some ss \<and> reg1 = fst (Register x509 (clientID ss) (Some sid) (Certs m) (Services m) reg)"
      using turn by (auto simp: session_turn_def split: prod.splits option.splits)
    then show thesis using register[of "(Certs m, Services m)"] 1 by simp
  next
    case 2
    then have "ss1 = Some ss \<and> reg1 = fst (UpdateWhitelist (clientID ss) (msg_ServiceID m) (msg_Allow m) reg)"
      using turn by (auto simp: session_turn_def split: prod.splits option.splits)
    then show thesis using update 2 by simp
  qed (rule quiet)
qed

lemma session_turn_identity:
  assumes "session_turn x509 allowed sid m ss reg = (a, Some ss1, reg1)"
  shows "clientID ss1 = clientID ss \<or> allowed (clientID ss1) \<noteq> None"
    and "authed ss1 = authed ss \<or> (\<exists>c. authed ss1 = Some c \<and> allowed c \<noteq> None)"
  using assms by (auto simp: session_turn_def split: if_splits option.splits prod.splits)

text \<open>
  The invariant: whatever is published over a session belongs to an admitted client and to a
  session that has not been torn down; an identity a session holds is admitted.
\<close>

definition identity_ok :: "(string \<rightharpoonup> string) \<Rightarrow> control_session \<Rightarrow> bool" where
  "identity_ok allowed ss \<longleftrightarrow>
     (clientID ss \<noteq> '''' \<longrightarrow> allowed (clientID ss) \<noteq> None) \<and>
     (\<forall>c. authed ss = Some c \<longrightarrow> allowed c \<noteq> None)"

definition owner_ok :: "(string \<rightharpoonup> string) \<Rightarrow> (session \<rightharpoonup> phase) \<Rightarrow> string \<times> session option \<Rightarrow> bool" where
  "owner_ok allowed opn x \<longleftrightarrow>
     (\<forall>sid. snd x = Some sid \<longrightarrow> opn sid \<noteq> None \<and> allowed (fst x) \<noteq> None)"

definition world_inv :: "(string \<rightharpoonup> string) \<Rightarrow> world \<Rightarrow> bool" where
  "world_inv allowed w \<longleftrightarrow>
     (\<forall>x \<in> owners (w_reg w). owner_ok allowed (w_open w) x) \<and>
     (\<forall>sid ss. w_open w sid = Some (Running ss) \<longrightarrow> identity_ok allowed ss)"

lemma owner_ok_upd: "owner_ok allowed opn x \<Longrightarrow> owner_ok allowed (opn(sid \<mapsto> p)) x"
  by (auto simp: owner_ok_def)

lemma turn_owners:
  assumes "session_turn x509 allowed sid m ss reg = (a, ss1, reg1)" "identity_ok allowed ss"
    and "\<forall>x \<in> owners reg. owner_ok allowed opn x" "opn sid \<noteq> None"
  shows "\<forall>x \<in> owners reg1. owner_ok allowed opn x"
  using assms(1)
proof (cases rule: session_turn_cases)
  case (register q)
  have "owner_ok allowed opn (clientID ss, Some sid)"
    using assms(2,4) register(2) by (auto simp: owner_ok_def identity_ok_def)
  then show ?thesis using shared.register_all[OF assms(3), of "clientID ss" sid] register(1) by simp
next
  case (update i al)
  then show ?thesis using shared.update_all[OF assms(3)] by simp
qed (use assms(3) in simp)

lemma turn_identity:
  "session_turn x509 allowed sid m ss reg = (a, Some ss1, reg1) \<Longrightarrow> identity_ok allowed ss \<Longrightarrow> identity_ok allowed ss1"
  using session_turn_identity[of x509 allowed sid m ss reg a ss1 reg1] by (auto simp: identity_ok_def)

lemma srv_step_inv: "srv_step x509 allowed w w' \<Longrightarrow> world_inv allowed w \<Longrightarrow> world_inv allowed w'"
proof (induction rule: srv_step.induct)
  case (connect w sid)
  then show ?case by (auto simp: world_inv_def owner_ok_upd identity_ok_def new_session_def)
next
  case (message w sid ss m a ss1 reg1)
  then show ?case
    using turn_owners[of x509 allowed sid m ss "w_reg w" a "Some ss1" reg1 "w_open w"]
      turn_identity[of x509 allowed sid m ss "w_reg w" a ss1 reg1]
    by (auto simp: world_inv_def owner_ok_upd)
next
  case (rejected w sid ss m a reg1)
  then show ?case
    using turn_owners[of x509 allowed sid m ss "w_reg w" a None reg1 "w_open w"]
    by (auto simp: world_inv_def owner_ok_upd)
next
  case (decode_end w sid ss)
  then show ?case by (auto simp: world_inv_def owner_ok_upd)
next
  case (teardown w sid)
  then show ?case by (auto simp: world_inv_def RemoveSession_owners owner_ok_def)
qed

lemma reach_inv:
  "(srv_step x509 allowed)\<^sup>*\<^sup>* w w' \<Longrightarrow> world_inv allowed w \<Longrightarrow> world_inv allowed w'"
  by (induction rule: rtranclp_induct) (auto intro: srv_step_inv)

lemma start_inv: "\<forall>x \<in> owners r. snd x = None \<Longrightarrow> world_inv allowed (start r)"
  by (simp add: world_inv_def start_def owner_ok_def)

text \<open>Executable runs of one session, for examples.\<close>

fun play :: "(string \<Rightarrow> string \<Rightarrow> string + leaf) \<Rightarrow> (string \<rightharpoonup> string) \<Rightarrow> session \<Rightarrow> message list \<Rightarrow> control_session \<Rightarrow>
    registry \<Rightarrow> control_session \<times> registry" where
  "play x509 allowed sid [] ss r = (ss, r)"
| "play x509 allowed sid (m # ms) ss r =
     (case session_turn x509 allowed sid m ss r of
        (_, Some ss1, r1) \<Rightarrow> play x509 allowed sid ms ss1 r1
      | (_, None, r1) \<Rightarrow> (ss, r))"

lemma play_reachable:
  "w_open w sid = Some (Running ss) \<Longrightarrow> w_reg w = r \<Longrightarrow>
     (srv_step x509 allowed)\<^sup>*\<^sup>* w
       (w\<lparr>w_reg := snd (play x509 allowed sid ms ss r), w_open := (w_open w)(sid \<mapsto> Running (fst (play x509 allowed sid ms ss r)))\<rparr>)"
proof (induction ms arbitrary: w ss r)
  case Nil
  then have "w\<lparr>w_reg := r, w_open := (w_open w)(sid \<mapsto> Running ss)\<rparr> = w"
    by (cases w) (auto simp: fun_upd_idem)
  then show ?case by (simp del: fun_upd_apply)
next
  case (Cons m ms)
  obtain a o1 r1 where turn: "session_turn x509 allowed sid m ss r = (a, o1, r1)" by (metis prod_cases3)
  show ?case
  proof (cases o1)
    case None
    have "w\<lparr>w_reg := r, w_open := (w_open w)(sid \<mapsto> Running ss)\<rparr> = w"
      using Cons.prems by (cases w) (auto simp: fun_upd_idem)
    then show ?thesis using turn None by (simp del: fun_upd_apply)
  next
    case (Some ss1)
    let ?w1 = "w\<lparr>w_reg := r1, w_open := (w_open w)(sid \<mapsto> Running ss1)\<rparr>"
    have "srv_step x509 allowed w ?w1" using Cons.prems turn Some by (auto intro: srv_step.message)
    from converse_rtranclp_into_rtranclp[OF this Cons.IH[of ?w1 ss1 r1]]
    show ?thesis using turn Some by (simp del: fun_upd_apply add: fun_upd_upd fun_upd_same)
  qed
qed

lemma play_from_start:
  "(srv_step x509 allowed)\<^sup>*\<^sup>* (start r)
     \<lparr>w_reg = snd (play x509 allowed sid ms new_session r),
      w_open = [sid \<mapsto> Running (fst (play x509 allowed sid ms new_session r))]\<rparr>"
proof -
  have "srv_step x509 allowed (start r) \<lparr>w_reg = r, w_open = [sid \<mapsto> Running new_session]\<rparr>"
    using srv_step.connect[of "start r" sid x509 allowed] by (simp add: start_def)
  from converse_rtranclp_into_rtranclp[OF this play_reachable[where ms = ms and sid = sid and ss = new_session and r = r]]
  show ?thesis by (simp del: fun_upd_apply add: fun_upd_upd fun_upd_same)
qed

subsection \<open>Properties\<close>

definition msg :: "string \<Rightarrow> string \<Rightarrow> service_reg list \<Rightarrow> message" where
  "msg t u srvs = \<lparr>Type = t, UUID = u, Certs = [], Services = srvs, msg_ServiceID = '''', msg_Allow = []\<rparr>"

definition msgs_ex :: "message list" where
  "msgs_ex = [msg ''auth'' ''alice'' [], msg ''register'' '''' [svc_ex ''tcp'' ''ssh.example'' '''' []]]"

definition allowed_ex :: "string \<rightharpoonup> string" where
  "allowed_ex = [''alice'' \<mapsto> ''laptop'']"

definition reg0_ex :: registry where
  "reg0_ex = fst (AddServerCert x509_ex ''*.example'' ''k'' NewRegistry)"

text \<open>
  C1. Nothing is published without authentication, under every interleaving of sessions: from a
  registry with the server's own entries only, every service and certificate that was
  registered over a session belongs to an admitted client, and its session is still connected or
  about to tear down. So the traffic of a closed session is never routed.
\<close>

theorem published_only_by_open_sessions:
  assumes "\<forall>x \<in> owners r0. snd x = None" "(srv_step x509 allowed)\<^sup>*\<^sup>* (start r0) w"
  shows "(\<forall>s \<in> set (all_services (w_reg w)). \<forall>sid. Session s = Some sid \<longrightarrow>
        w_open w sid \<noteq> None \<and> allowed (ClientID s) \<noteq> None) \<and>
    (\<forall>pc \<in> set (certs (w_reg w)). \<forall>sid. cert_session pc = Some sid \<longrightarrow>
        w_open w sid \<noteq> None \<and> allowed (cert_clientID pc) \<noteq> None)"
proof -
  have "\<forall>x \<in> owners (w_reg w). owner_ok allowed (w_open w) x"
    using reach_inv[OF assms(2) start_inv[OF assms(1)]] by (simp add: world_inv_def)
  then have "\<forall>s \<in> set (all_services (w_reg w)). owner_ok allowed (w_open w) (ClientID s, Session s)"
    "\<forall>pc \<in> set (certs (w_reg w)). owner_ok allowed (w_open w) (cert_clientID pc, cert_session pc)"
    by (auto simp: owners_def)
  then show ?thesis by (simp add: owner_ok_def)
qed

theorem published_only_by_open_sessions_witness:
  "allowed_ex (ClientID (hd (all_services (snd (play x509_ex allowed_ex 3 msgs_ex new_session reg0_ex))))) \<noteq> None"
proof -
  let ?P = "play x509_ex allowed_ex 3 msgs_ex new_session reg0_ex"
  let ?w = "\<lparr>w_reg = snd ?P, w_open = [3 \<mapsto> Running (fst ?P)]\<rparr>"
  have o: "\<forall>x \<in> owners reg0_ex. snd x = None"
    by (simp add: owners_def reg0_ex_def AddServerCert_def parseCert_def x509_ex_def NewRegistry_def all_services_def)
  have r: "(srv_step x509_ex allowed_ex)\<^sup>*\<^sup>* (start reg0_ex) ?w" by (rule play_from_start)
  have "all_services (snd ?P) \<noteq> []" "Session (hd (all_services (snd ?P))) = Some 3" by code_simp+
  then show ?thesis using published_only_by_open_sessions[OF o r] by simp
qed

lemma first_turn_rejects:
  "\<not> (Type m = ''auth'' \<and> allowed (UUID m) \<noteq> None) \<Longrightarrow>
     \<exists>a. a \<in> {AckAuthRequired, AckUnknownClient} \<and> session_turn x509 allowed sid m new_session reg = (a, None, reg)"
  by (auto simp: session_turn_def new_session_def)




text \<open>
  A data stream reaches the switch only for an admitted client whose session has
  authenticated, only with the tunnel tag, and after it closes the switch has the ports it had.
\<close>

theorem data_stream_only_for_allowed:
  assumes "\<forall>x \<in> owners r0. snd x = None" "(srv_step x509 allowed)\<^sup>*\<^sup>* (start r0) w"
    and "w_open w sid = Some (Running ss)" "acceptDataStream ss stream (Some hubsw) = Some (hubsw1, out)"
    and "switch_inv hubsw"
  shows "(\<exists>c f rest. authed ss = Some c \<and> allowed c \<noteq> None \<and> ReadFrame stream = Inr (f, rest) \<and>
      Frame.Service f = TunService \<and> (hubsw1, out) = ServeClient (''client:'' @ shortID c) rest hubsw) \<and>
    set (ports hubsw1) = set (ports hubsw)"
proof -
  have i: "identity_ok allowed ss"
    using reach_inv[OF assms(2) start_inv[OF assms(1)]] assms(3) by (auto simp: world_inv_def)
  obtain c f rest where c: "authed ss = Some c" "ReadFrame stream = Inr (f, rest)"
    "Frame.Service f = TunService" "(hubsw1, out) = ServeClient (''client:'' @ shortID c) rest hubsw"
    using assms(4)
    by (auto simp: acceptDataStream_def handleDataStream_def split: option.splits sum.splits if_splits)
  have "set (ports hubsw1) = set (ports hubsw)"
    using serve_client_ports[OF assms(5)] c(4) by (metis fst_conv)
  with c i show ?thesis by (auto simp: identity_ok_def)
qed

theorem data_stream_only_for_allowed_witness:
  "set (ports (fst (ServeClient ''client:alice'' (0 # 14 # wframe 11 10) wswitch))) = set (ports wswitch)"
proof -
  let ?P = "play x509_ex allowed_ex 3 msgs_ex new_session reg0_ex"
  let ?w = "\<lparr>w_reg = snd ?P, w_open = [3 \<mapsto> Running (fst ?P)]\<rparr>"
  let ?S = "ServeClient ''client:alice'' (0 # 14 # wframe 11 10) wswitch"
  have o: "\<forall>x \<in> owners reg0_ex. snd x = None"
    by (simp add: owners_def reg0_ex_def AddServerCert_def parseCert_def x509_ex_def NewRegistry_def all_services_def)
  have r: "(srv_step x509_ex allowed_ex)\<^sup>*\<^sup>* (start reg0_ex) ?w" by (rule play_from_start)
  have a: "authed (fst ?P) = Some ''alice''" by code_simp
  have f: "ReadFrame (put_u32 17 @ mustJSON \<lparr>Frame.Service = ''tun''\<rparr> @ 0 # 14 # wframe 11 10) =
      Inr (\<lparr>Frame.Service = ''tun''\<rparr>, 0 # 14 # wframe 11 10)" by code_simp
  have s: "acceptDataStream (fst ?P) (put_u32 17 @ mustJSON \<lparr>Frame.Service = ''tun''\<rparr> @ 0 # 14 # wframe 11 10) (Some wswitch) =
      Some (fst ?S, snd ?S)"
    using a f by (simp add: acceptDataStream_def handleDataStream_def TunService_def shortID_def)
  have w: "w_open ?w 3 = Some (Running (fst ?P))" by simp
  from data_stream_only_for_allowed[OF o r w s wswitch_inv] show ?thesis by blast
qed

end
