(* ===== verification/DestAllow.thy ===== *)
theory DestAllow
  imports Go_Netip
begin

text \<open>
  \<^verbatim>\<open>internal/destallow/destallow.go\<close>: the allow list of destinations of a published SOCKS5
  service. A rule is the source's record, its optional CIDR the option type; errors carry the
  text the source quotes.
\<close>

subsection \<open>Rules\<close>

record rule =
  any :: bool
  exact :: string
  suffix :: string
  cidr :: "prefix option"
  port :: u16

record dest_set =
  rules :: "rule list"

datatype rule_error = InvalidCIDR string | InvalidBracket string | InvalidHostPort string | InvalidPort string

definition isDigits :: "string \<Rightarrow> bool" where
  "isDigits s = (if s = '''' then False else list_all is_digit s)"

definition parsePort :: "string \<Rightarrow> rule_error + u16" where
  "parsePort s =
     (case ParseUint 16 s of
        (n, None) \<Rightarrow> if n = 0 then Inl (InvalidPort s) else Inr (of_nat n)
      | (_, Some _) \<Rightarrow> Inl (InvalidPort s))"

definition splitHostPort :: "string \<Rightarrow> rule_error + (string \<times> u16)" where
  "splitHostPort s =
     (if CHR ''/'' \<in> set s then Inr (s, 0)
      else if HasPrefix s ''['' then
        (case LastIndexByte s (CHR '']'') of
           None \<Rightarrow> Inl (InvalidBracket s)
         | Some e \<Rightarrow>
             let h = take (e - 1) (drop 1 s); rest = drop (e + 1) s in
             if rest = '''' then Inr (h, 0)
             else if \<not> HasPrefix rest '':'' then Inl (InvalidHostPort s)
             else map_sum id (\<lambda>p. (h, p)) (parsePort (drop 1 rest)))
      else case LastIndexByte s (CHR '':'') of
          Some i \<Rightarrow>
            if CHR '':'' \<notin> set (take i s) \<and> isDigits (drop (i + 1) s)
            then map_sum id (\<lambda>p. (take i s, p)) (parsePort (drop (i + 1) s))
            else Inr (s, 0)
        | None \<Rightarrow> Inr (s, 0))"

definition parseRule :: "string \<Rightarrow> rule_error + rule" where
  "parseRule e =
     (case splitHostPort e of
        Inl err \<Rightarrow> Inl err
      | Inr (host, p) \<Rightarrow>
          let r = \<lparr>any = False, exact = '''', suffix = '''', cidr = None, port = p\<rparr> in
          if host = ''*'' then Inr (r\<lparr>any := True\<rparr>)
          else if CHR ''/'' \<in> set host then
            (case ParsePrefix host of
               None \<Rightarrow> Inl (InvalidCIDR host)
             | Some pre \<Rightarrow> Inr (r\<lparr>cidr := Some pre\<rparr>))
          else if HasPrefix host ''*.'' then Inr (r\<lparr>suffix := ToLower (drop 1 host)\<rparr>)
          else Inr (r\<lparr>exact := ToLower host\<rparr>))"

fun new_loop :: "string list \<Rightarrow> rule list \<Rightarrow> rule_error + rule list" where
  "new_loop [] rs = Inr rs"
| "new_loop (e0 # es) rs =
     (let e = TrimSpace e0 in
      if e = '''' then new_loop es rs
      else case parseRule e of
          Inl err \<Rightarrow> Inl err
        | Inr r \<Rightarrow> new_loop es (rs @ [r]))"

definition New :: "string list \<Rightarrow> rule_error + dest_set" where
  "New entries = map_sum id (\<lambda>rs. \<lparr>rules = rs\<rparr>) (new_loop entries [])"

subsection \<open>Matching\<close>

definition matchHost :: "rule \<Rightarrow> string \<Rightarrow> bool" where
  "matchHost r host =
     (if any r then True
      else case cidr r of
          Some p \<Rightarrow> (case ParseAddr host of None \<Rightarrow> False | Some a \<Rightarrow> Contains p (Unmap a))
        | None \<Rightarrow> if suffix r \<noteq> '''' then HasSuffix host (suffix r) else host = exact r)"

fun allowed_loop :: "rule list \<Rightarrow> string \<times> u16 \<Rightarrow> bool" where
  "allowed_loop [] hp = False"
| "allowed_loop (r # rs) (host, p) =
     (if port r \<noteq> 0 \<and> port r \<noteq> p then allowed_loop rs (host, p)
      else if matchHost r host then True
      else allowed_loop rs (host, p))"

definition Allowed :: "dest_set \<Rightarrow> string \<Rightarrow> u16 \<Rightarrow> bool" where
  "Allowed s host p = allowed_loop (rules s) (ToLower (TrimSuffix host ''.''), p)"

subsection \<open>Lemmas\<close>

definition rule_admits :: "rule \<Rightarrow> string \<times> u16 \<Rightarrow> bool" where
  "rule_admits r hp \<longleftrightarrow> (port r = 0 \<or> port r = snd hp) \<and> matchHost r (fst hp)"

interpretation dest: rule_list rule_admits allowed_loop
proof
  fix rs and hp :: "string \<times> u16"
  obtain host p where hp: "hp = (host, p)" by (cases hp)
  show "allowed_loop rs hp \<longleftrightarrow> (\<exists>r \<in> set rs. rule_admits r hp)"
    unfolding hp by (induction rs) (auto simp: rule_admits_def)
qed

lemma new_loop_Inr:
  "new_loop es acc = Inr rs \<Longrightarrow>
     set rs = set acc \<union> {r. \<exists>e \<in> set es. TrimSpace e \<noteq> [] \<and> parseRule (TrimSpace e) = Inr r}"
proof (induction es arbitrary: acc)
  case (Cons e es)
  show ?case
  proof (cases "TrimSpace e = []")
    case True
    then show ?thesis using Cons by auto
  next
    case False
    then obtain r where r: "parseRule (TrimSpace e) = Inr r" "new_loop es (acc @ [r]) = Inr rs"
      using Cons.prems by (auto split: sum.splits)
    show ?thesis using Cons.IH[OF r(2)] r(1) False by auto
  qed
qed simp

lemma new_loop_Inl:
  "new_loop es acc = Inl err \<Longrightarrow> \<exists>e \<in> set es. TrimSpace e \<noteq> [] \<and> parseRule (TrimSpace e) = Inl err"
  by (induction es arbitrary: acc) (auto simp: Let_def split: if_splits sum.splits)

text \<open>Entries without surrounding space, and host names without the characters of the syntax.\<close>

lemma TrimSpace_id: "(\<And>c. c \<in> set s \<Longrightarrow> \<not> is_space c) \<Longrightarrow> TrimSpace s = s"
proof -
  assume "\<And>c. c \<in> set s \<Longrightarrow> \<not> is_space c"
  moreover from this have "dropWhile is_space s = s" "dropWhile is_space (rev s) = rev s"
    by (metis dropWhile_eq_self_iff hd_in_set set_rev)+
  ultimately show ?thesis by (simp add: TrimSpace_def)
qed

definition plain_host :: "string \<Rightarrow> bool" where
  "plain_host h \<longleftrightarrow> h \<noteq> '''' \<and> list_all (\<lambda>c. \<not> is_space c \<and> c \<notin> set ''/:[]*'') h"

lemma digit_not_special:
  assumes "is_digit c"
  shows "\<not> is_space c" "c \<notin> {CHR ''/'', CHR '':'', CHR ''['', CHR '']'', CHR ''*''}"
proof -
  have "\<not> is_digit (CHR ''/'')" "\<not> is_digit (CHR '':'')" "\<not> is_digit (CHR ''['')"
    "\<not> is_digit (CHR '']'')" "\<not> is_digit (CHR ''*'')" by code_simp+
  then show "c \<notin> {CHR ''/'', CHR '':'', CHR ''['', CHR '']'', CHR ''*''}" using assms by blast
  show "\<not> is_space c" using assms by (auto simp: is_digit_def is_space_def Let_def)
qed

lemma isDigits_Itoa: "isDigits (Itoa n)"
  by (simp add: isDigits_def list_all_iff Itoa_digits)

lemma parsePort_Itoa:
  assumes "p \<noteq> 0"
  shows "parsePort (Itoa (unat p)) = Inr p"
proof -
  have "unat p < 2 ^ 16" using unsigned_less[of p, where 'a = nat] by simp
  then show ?thesis using assms by (simp add: parsePort_def ParseUint_Itoa unat_eq_0)
qed

lemma plain_hostD:
  assumes "plain_host h"
  shows "h \<noteq> []" "CHR ''/'' \<notin> set h" "CHR '':'' \<notin> set h" "\<not> HasPrefix (h @ t) ''[''"
    "\<not> HasPrefix h ''*.''" "h \<noteq> ''*''" "c \<in> set h \<Longrightarrow> \<not> is_space c"
  using assms by (cases h; auto simp: plain_host_def HasPrefix_def list_all_iff)+

lemma splitHostPort_host_port:
  assumes "plain_host h" "p \<noteq> 0"
  shows "splitHostPort (h @ '':'' @ Itoa (unat p)) = Inr (h, p)"
proof -
  note h = plain_hostD[OF assms(1)]
  have "CHR ''/'' \<notin> set (Itoa (unat p))" "CHR '':'' \<notin> set (Itoa (unat p))"
    using digit_not_special Itoa_digits by blast+
  then show ?thesis
    using h(2,3) h(4)[of "'':'' @ Itoa (unat p)"] LastIndexByte_append[of "CHR '':''" "Itoa (unat p)" h]
    by (simp add: splitHostPort_def isDigits_Itoa parsePort_Itoa assms(2))
qed

lemma New_single: "TrimSpace e = e \<Longrightarrow> e \<noteq> [] \<Longrightarrow> New [e] = map_sum id (\<lambda>r. \<lparr>rules = [r]\<rparr>) (parseRule e)"
  by (simp add: New_def Let_def split: sum.split)

lemma Allowed_single:
  "Allowed \<lparr>rules = [r]\<rparr> host p \<longleftrightarrow> rule_admits r (ToLower (TrimSuffix host ''.''), p)"
  by (simp add: Allowed_def rule_admits_def)
text \<open>A dotted address is in lower case and has no final dot.\<close>

lemma dotted_canonical:
  assumes "length ip = 4"
  shows "ToLower (TrimSuffix (dotted ip) ''.'') = dotted ip"
proof -
  from assms obtain a b c d where ip: "ip = [a, b, c, d]"
    by (auto simp: length_Suc_conv numeral_eq_Suc)
  have "is_digit x \<or> x = CHR ''.''" if "x \<in> set (dotted ip)" for x
    using that Itoa_digits by (auto simp: ip dotted_def)
  moreover have "lower_char x = x" if "is_digit x" for x
    using that by (auto simp: is_digit_def lower_char_def Let_def)
  moreover have "lower_char (CHR ''.'') = CHR ''.''" by code_simp
  ultimately have "lower_char x = x" if "x \<in> set (dotted ip)" for x
    using that by metis
  then have "ToLower (dotted ip) = dotted ip" by (simp add: ToLower_def map_idI)
  moreover have "\<not> HasSuffix (dotted ip) ''.''"
  proof
    assume "HasSuffix (dotted ip) ''.''"
    then have "last (dotted ip) = CHR ''.''" by (auto simp: HasSuffix_iff)
    moreover have "last (dotted ip) \<in> set (Itoa (unat d))" by (simp add: ip dotted_def)
    ultimately show False using Itoa_digits not_digit(1) by metis
  qed
  ultimately show ?thesis by (simp add: TrimSuffix_def)
qed

subsection \<open>Properties\<close>

text \<open>
  C26. The allow list is the union of its entries: once it parses, a destination is permitted
  exactly when some non-blank entry, read on its own, admits its port and its host (compared in
  lower case and without a final dot); the order of the entries does not matter.
\<close>

theorem allowed_iff_some_entry:
  assumes "New entries = Inr s"
  shows "Allowed s host p \<longleftrightarrow>
    (\<exists>e \<in> set entries. \<exists>r. TrimSpace e \<noteq> '''' \<and> parseRule (TrimSpace e) = Inr r \<and>
       rule_admits r (ToLower (TrimSuffix host ''.''), p))"
proof -
  obtain rs where rs: "new_loop entries [] = Inr rs" "s = \<lparr>rules = rs\<rparr>"
    using assms by (cases "new_loop entries []") (auto simp: New_def)
  show ?thesis
    using new_loop_Inr[OF rs(1)] by (auto simp: rs(2) Allowed_def dest.admits_iff)
qed

theorem allowed_iff_some_entry_witness:
  "\<exists>s. New ['' '', ''*:443'', ''a.example''] = Inr s \<and> Allowed s ''X.org'' 443 \<and> \<not> Allowed s ''X.org'' 80"
proof -
  let ?es = "['' '', ''*:443'', ''a.example'']"
  have n: "New ?es = Inr (projr (New ?es))" by code_simp
  have "parseRule (TrimSpace ''*:443'') = Inr (projr (parseRule (TrimSpace ''*:443'')))"
    "TrimSpace ''*:443'' \<noteq> ''''"
    "rule_admits (projr (parseRule (TrimSpace ''*:443''))) (ToLower (TrimSuffix ''X.org'' ''.''), 443)"
    by code_simp+
  then have "Allowed (projr (New ?es)) ''X.org'' 443"
    unfolding allowed_iff_some_entry[OF n] by (meson list.set_intros)
  moreover have "\<not> Allowed (projr (New ?es)) ''X.org'' 80" by code_simp
  ultimately show ?thesis using n by blast
qed

text \<open>
  A list that holds nothing but blank entries denies every destination: a SOCKS5 service
  has to opt in.
\<close>

theorem blank_list_denies_all:
  assumes "\<forall>e \<in> set entries. TrimSpace e = ''''"
  shows "New entries = Inr \<lparr>rules = []\<rparr> \<and> \<not> Allowed \<lparr>rules = []\<rparr> host p"
proof -
  have "new_loop entries [] = Inr []" using assms by (induction entries) auto
  then show ?thesis by (simp add: New_def Allowed_def)
qed

theorem blank_list_denies_all_witness: "\<not> Allowed (projr (New ['' '', ''''])) ''127.0.0.1'' 22"
proof -
  have "\<forall>e \<in> set ['' '', '''']. TrimSpace e = ''''" by code_simp
  from blank_list_denies_all[OF this, of "''127.0.0.1''" 22] show ?thesis by simp
qed

text \<open>
  Writing a rule and reading it back: an entry \<^verbatim>\<open>host:port\<close> of a plain host name and a
  non-zero port admits that host, in any case and with or without the final dot, on that port,
  and nothing else.
\<close>

theorem host_port_entry:
  assumes "plain_host h" "p \<noteq> 0"
  shows "\<exists>s. New [h @ '':'' @ Itoa (unat p)] = Inr s \<and>
    (\<forall>host q. Allowed s host q \<longleftrightarrow> ToLower (TrimSuffix host ''.'') = ToLower h \<and> q = p)"
proof -
  note h = plain_hostD[OF assms(1)]
  let ?e = "h @ '':'' @ Itoa (unat p)"
  have "TrimSpace ?e = ?e"
    using h(7) digit_not_special(1) Itoa_digits by (intro TrimSpace_id) (auto, simp add: is_space_def)
  moreover have "parseRule ?e =
      Inr \<lparr>any = False, exact = ToLower h, suffix = '''', cidr = None, port = p\<rparr>"
    using h unfolding parseRule_def splitHostPort_host_port[OF assms] by simp
  ultimately show ?thesis
    using assms(2) by (auto simp: New_single Allowed_single rule_admits_def matchHost_def)
qed

theorem host_port_entry_witness:
  "Allowed (projr (New [''Git.example:22''])) ''GIT.EXAMPLE.'' 22 \<and>
   \<not> Allowed (projr (New [''Git.example:22''])) ''git.example'' 80"
proof -
  have "plain_host ''Git.example''" "(22 :: u16) \<noteq> 0" by code_simp+
  from host_port_entry[OF this] obtain s where s: "New [''Git.example'' @ '':'' @ Itoa (unat (22 :: u16))] = Inr s"
    "\<forall>host q. Allowed s host q \<longleftrightarrow> ToLower (TrimSuffix host ''.'') = ToLower ''Git.example'' \<and> q = 22" by blast
  have e: "''Git.example'' @ '':'' @ Itoa (unat (22 :: u16)) = ''Git.example:22''" by code_simp
  have t: "ToLower (TrimSuffix ''GIT.EXAMPLE.'' ''.'') = ToLower ''Git.example''" by code_simp
  from s(1) have "projr (New [''Git.example:22'']) = s" unfolding e by simp
  then show ?thesis using s(2) t by simp
qed

text \<open>
  A wildcard entry \<^verbatim>\<open>*.domain\<close> admits the names under the domain, on every port, and not
  the domain itself.
\<close>

theorem wildcard_entry:
  assumes "plain_host d"
  shows "\<exists>s. New [''*.'' @ d] = Inr s \<and>
    (\<forall>host q. Allowed s host q \<longleftrightarrow> (\<exists>l. ToLower (TrimSuffix host ''.'') = l @ ''.'' @ ToLower d)) \<and>
    (last d \<noteq> CHR ''.'' \<longrightarrow> \<not> Allowed s d q)"
proof -
  note h = plain_hostD[OF assms]
  let ?e = "''*.'' @ d"
  have "TrimSpace ?e = ?e"
    using h(7) by (intro TrimSpace_id) (auto simp: is_space_def)
  moreover have "splitHostPort ?e = Inr (?e, 0)"
    using h(2,3) by (simp add: splitHostPort_def HasPrefix_def LastIndexByte_None_iff[THEN iffD2])
  then have "parseRule ?e =
      Inr \<lparr>any = False, exact = '''', suffix = ''.'' @ ToLower d, cidr = None, port = 0\<rparr>"
    using h(1,2) by (simp add: parseRule_def HasPrefix_def) (simp add: ToLower_def lower_char_def)
  ultimately have n: "New [?e] = Inr \<lparr>rules = [\<lparr>any = False, exact = '''', suffix = ''.'' @ ToLower d, cidr = None, port = 0\<rparr>]\<rparr>"
    by (simp add: New_single)
  have "Allowed \<lparr>rules = [\<lparr>any = False, exact = '''', suffix = ''.'' @ ToLower d, cidr = None, port = 0\<rparr>]\<rparr> host q
      \<longleftrightarrow> (\<exists>l. ToLower (TrimSuffix host ''.'') = l @ ''.'' @ ToLower d)" for host q
    by (simp add: Allowed_single rule_admits_def matchHost_def HasSuffix_iff)
  moreover have "\<nexists>l. ToLower (TrimSuffix d ''.'') = l @ ''.'' @ ToLower d"
  proof
    assume "\<exists>l. ToLower (TrimSuffix d ''.'') = l @ ''.'' @ ToLower d"
    then obtain l where "ToLower (TrimSuffix d ''.'') = l @ ''.'' @ ToLower d" ..
    from arg_cong[OF this, of length] show False by (simp add: TrimSuffix_def split: if_splits)
  qed
  ultimately show ?thesis using n by blast
qed

theorem wildcard_entry_witness:
  "Allowed (projr (New [''*.corp.example''])) ''db.Corp.example'' 5432 \<and>
   \<not> Allowed (projr (New [''*.corp.example''])) ''corp.example'' 5432"
proof -
  have "plain_host ''corp.example''" by code_simp
  from wildcard_entry[OF this, of 5432] obtain s where s: "New [''*.'' @ ''corp.example''] = Inr s"
    "\<forall>host q. Allowed s host q \<longleftrightarrow> (\<exists>l. ToLower (TrimSuffix host ''.'') = l @ ''.'' @ ToLower ''corp.example'')"
    "last ''corp.example'' \<noteq> CHR ''.'' \<longrightarrow> \<not> Allowed s ''corp.example'' 5432" by blast
  have "ToLower (TrimSuffix ''db.Corp.example'' ''.'') = ''db'' @ ''.'' @ ToLower ''corp.example''" by code_simp
  then have "Allowed s ''db.Corp.example'' 5432" using s(2) by blast
  then show ?thesis using s(1,3) by simp
qed

text \<open>
  A CIDR entry decides on addresses only: an IPv4 destination written as such is admitted,
  on every port, exactly when the prefix contains it, and a destination that is not an address
  literal never is.
\<close>

theorem cidr_entry:
  assumes "ParsePrefix e = Some pre" "CHR ''/'' \<in> set e" "\<forall>c \<in> set e. \<not> is_space c"
  shows "\<exists>s. New [e] = Inr s \<and>
    (\<forall>ip q. length ip = 4 \<longrightarrow> Allowed s (dotted ip) q = Contains pre (Addr4 (word_of_bytes ip))) \<and>
    (\<forall>host q. ParseAddr (ToLower (TrimSuffix host ''.'')) = None \<longrightarrow> \<not> Allowed s host q)"
proof -
  let ?r = "\<lparr>any = False, exact = '''', suffix = '''', cidr = Some pre, port = 0\<rparr>"
  have "TrimSpace e = e" "e \<noteq> []" using assms by (auto intro: TrimSpace_id)
  moreover have "e \<noteq> ''*''" using assms(2) by auto
  ultimately have n: "New [e] = Inr \<lparr>rules = [?r]\<rparr>"
    using assms(1,2) by (simp add: New_single parseRule_def splitHostPort_def)
  have "Allowed \<lparr>rules = [?r]\<rparr> (dotted ip) q = Contains pre (Addr4 (word_of_bytes ip))"
    if "length ip = 4" for ip q
    using that by (simp add: Allowed_single rule_admits_def matchHost_def dotted_canonical ParseAddr_dotted)
  moreover have "\<not> Allowed \<lparr>rules = [?r]\<rparr> host q" if "ParseAddr (ToLower (TrimSuffix host ''.'')) = None" for host q
    using that by (simp add: Allowed_single rule_admits_def matchHost_def)
  ultimately show ?thesis using n by blast
qed

theorem cidr_entry_witness:
  "Allowed (projr (New [''10.0.0.0/8''])) (dotted [10, 1, 2, 3]) 22 \<and>
   \<not> Allowed (projr (New [''10.0.0.0/8''])) ''localhost'' 22"
proof -
  have p: "ParsePrefix ''10.0.0.0/8'' = Some (Prefix (Addr4 0x0a000000) 8)" by code_simp
  have "CHR ''/'' \<in> set ''10.0.0.0/8''" "\<forall>c \<in> set ''10.0.0.0/8''. \<not> is_space c" by code_simp+
  from cidr_entry[OF p this] obtain s where s: "New [''10.0.0.0/8''] = Inr s"
    "\<forall>ip q. length ip = 4 \<longrightarrow> Allowed s (dotted ip) q = Contains (Prefix (Addr4 0x0a000000) 8) (Addr4 (word_of_bytes ip))"
    "\<forall>host q. ParseAddr (ToLower (TrimSuffix host ''.'')) = None \<longrightarrow> \<not> Allowed s host q" by blast
  have "Contains (Prefix (Addr4 0x0a000000) 8) (Addr4 (word_of_bytes [10, 1, 2, 3]))" by code_simp
  moreover have "ParseAddr (ToLower (TrimSuffix ''localhost'' ''.'')) = None" by code_simp
  ultimately show ?thesis using s by simp
qed

end
