(* ===== verification/Socks5.thy ===== *)
theory Socks5
  imports DestAllow
begin

text \<open>
  \<^verbatim>\<open>internal/socks5/server.go\<close>: one SOCKS5 client connection. The connection is the byte stream
  the client sends before it closes; what the server does is a list of effects in order (bytes
  written, a dial, the start of the bidirectional copy with what is left of the stream).
  \<open>wr\<close> tells for each write whether it succeeds, \<open>dial\<close> whether the dial does. A nil allow
  function is \<open>None\<close>. Deadlines only turn a silent client into a short stream.
\<close>

subsection \<open>Model\<close>

datatype effect = Write bytes | Dial string u16 | Pipe bytes

datatype socks_error = ReadError | WriteError | BadVersion byte | BadRequestVersion byte
  | UnsupportedCommand byte | BadAddressType byte | NotAllowed string u16 | DialError string u16

definition version5 :: byte where "version5 = 0x05"
definition cmdConnect :: byte where "cmdConnect = 0x01"
definition atypIPv4 :: byte where "atypIPv4 = 0x01"
definition atypDomain :: byte where "atypDomain = 0x03"
definition atypIPv6 :: byte where "atypIPv6 = 0x04"
definition repSuccess :: byte where "repSuccess = 0x00"
definition repGeneralFailure :: byte where "repGeneralFailure = 0x01"
definition repNotAllowed :: byte where "repNotAllowed = 0x02"
definition repHostUnreachable :: byte where "repHostUnreachable = 0x04"
definition repCmdNotSupported :: byte where "repCmdNotSupported = 0x07"

lemmas socks_consts = version5_def cmdConnect_def atypIPv4_def atypDomain_def atypIPv6_def
  repSuccess_def repGeneralFailure_def repNotAllowed_def repHostUnreachable_def repCmdNotSupported_def

definition reply :: "byte \<Rightarrow> bytes" where
  "reply rep = [version5, rep, 0x00, atypIPv4, 0, 0, 0, 0, 0, 0]"

text \<open>A stage of the protocol: its effects, and an error or its value and the rest of the stream.\<close>

type_synonym 'a stage = "effect list \<times> (socks_error + 'a \<times> bytes)"

definition handshake :: "(bytes \<Rightarrow> bool) \<Rightarrow> bytes \<Rightarrow> unit stage" where
  "handshake wr stream =
     (case ReadFull 2 stream of
        None \<Rightarrow> ([], Inl ReadError)
      | Some (hdr, s1) \<Rightarrow>
          if hdr ! 0 \<noteq> version5 then ([], Inl (BadVersion (hdr ! 0)))
          else case ReadFull (unat (hdr ! 1)) s1 of
              None \<Rightarrow> ([], Inl ReadError)
            | Some (_, s2) \<Rightarrow>
                if wr [version5, 0x00] then ([Write [version5, 0x00]], Inr ((), s2))
                else ([Write [version5, 0x00]], Inl WriteError))"

definition read_address :: "byte \<Rightarrow> bytes \<Rightarrow> string stage" where
  "read_address atyp s =
     (if atyp = atypIPv4 then
        (case ReadFull 4 s of None \<Rightarrow> ([], Inl ReadError) | Some (b, s') \<Rightarrow> ([], Inr (ip_string b, s')))
      else if atyp = atypIPv6 then
        (case ReadFull 16 s of None \<Rightarrow> ([], Inl ReadError) | Some (b, s') \<Rightarrow> ([], Inr (ip_string b, s')))
      else if atyp = atypDomain then
        (case ReadFull 1 s of
           None \<Rightarrow> ([], Inl ReadError)
         | Some (l, s1) \<Rightarrow>
             (case ReadFull (unat (l ! 0)) s1 of
                None \<Rightarrow> ([], Inl ReadError)
              | Some (b, s') \<Rightarrow> ([], Inr (string_of_bytes b, s'))))
      else ([Write (reply repGeneralFailure)], Inl (BadAddressType atyp)))"

definition readConnect :: "bytes \<Rightarrow> (string \<times> u16) stage" where
  "readConnect stream =
     (case ReadFull 4 stream of
        None \<Rightarrow> ([], Inl ReadError)
      | Some (hdr, s1) \<Rightarrow>
          if hdr ! 0 \<noteq> version5 then ([], Inl (BadRequestVersion (hdr ! 0)))
          else if hdr ! 1 \<noteq> cmdConnect then
            ([Write (reply repCmdNotSupported)], Inl (UnsupportedCommand (hdr ! 1)))
          else case read_address (hdr ! 3) s1 of
              (es, Inl e) \<Rightarrow> (es, Inl e)
            | (es, Inr (host, s2)) \<Rightarrow>
                (case ReadFull 2 s2 of
                   None \<Rightarrow> (es, Inl ReadError)
                 | Some (p, s3) \<Rightarrow> (es, Inr ((host, of_nat (be_val p)), s3))))"

text \<open>The part of \<^verbatim>\<open>Serve\<close> after the request has been read.\<close>

definition serve_request ::
    "(bytes \<Rightarrow> bool) \<Rightarrow> (string \<Rightarrow> u16 \<Rightarrow> bool) option \<Rightarrow> (string \<Rightarrow> u16 \<Rightarrow> bool) \<Rightarrow>
     string \<Rightarrow> u16 \<Rightarrow> bytes \<Rightarrow> effect list \<times> socks_error option" where
  "serve_request wr allow dial host prt rest =
     (if (case allow of None \<Rightarrow> True | Some f \<Rightarrow> \<not> f host prt)
      then ([Write (reply repNotAllowed)], Some (NotAllowed host prt))
      else if \<not> dial host prt
      then ([Dial host prt, Write (reply repHostUnreachable)], Some (DialError host prt))
      else if \<not> wr (reply repSuccess)
      then ([Dial host prt, Write (reply repSuccess)], Some WriteError)
      else ([Dial host prt, Write (reply repSuccess), Pipe rest], None))"

definition Serve ::
    "(bytes \<Rightarrow> bool) \<Rightarrow> (string \<Rightarrow> u16 \<Rightarrow> bool) option \<Rightarrow> (string \<Rightarrow> u16 \<Rightarrow> bool) \<Rightarrow> bytes \<Rightarrow>
     effect list \<times> socks_error option" where
  "Serve wr allow dial stream =
     (case handshake wr stream of
        (es, Inl e) \<Rightarrow> (es, Some e)
      | (es, Inr (_, s1)) \<Rightarrow>
          (case readConnect s1 of
             (es', Inl e) \<Rightarrow> (es @ es', Some e)
           | (es', Inr ((host, prt), s2)) \<Rightarrow>
               let (es'', e) = serve_request wr allow dial host prt s2 in (es @ es' @ es'', e)))"

subsection \<open>Lemmas\<close>

lemma handshake_no_dial: "handshake wr s = (es, r) \<Longrightarrow> es \<in> {[], [Write [version5, 0x00]]}"
  by (auto simp: handshake_def split: option.splits if_splits)

lemma read_address_effects: "read_address a s = (es, r) \<Longrightarrow> (\<exists>x. r = Inr x) \<longrightarrow> es = []"
  by (auto simp: read_address_def split: option.splits if_splits)

lemma read_address_no_dial: "read_address a s = (es, r) \<Longrightarrow> e \<in> set es \<Longrightarrow> \<exists>b. e = Write b"
  by (auto simp: read_address_def split: option.splits if_splits)

lemma readConnect_Inr: "readConnect s = (es, Inr x) \<Longrightarrow> es = []"
  using read_address_effects
  by (fastforce simp: readConnect_def split: option.splits if_splits prod.splits sum.splits)

lemma readConnect_no_dial: "readConnect s = (es, r) \<Longrightarrow> e \<in> set es \<Longrightarrow> \<exists>b. e = Write b"
  using read_address_no_dial
  by (fastforce simp: readConnect_def split: option.splits if_splits prod.splits sum.splits)

text \<open>The effects of a connection, by how it ends.\<close>

lemma Serve_cases:
  obtains (early) es e where "Serve wr allow dial s = (es, Some e)" "\<forall>x \<in> set es. \<exists>b. x = Write b"
  | (request) host prt rest where
      "handshake wr s = ([Write [version5, 0x00]], Inr ((), snd (projr (snd (handshake wr s)))))"
      "readConnect (snd (projr (snd (handshake wr s)))) = ([], Inr ((host, prt), rest))"
      "Serve wr allow dial s =
         (Write [version5, 0x00] # fst (serve_request wr allow dial host prt rest),
          snd (serve_request wr allow dial host prt rest))"
proof (cases "handshake wr s")
  case (Pair es r)
  note hs = Pair
  show thesis
  proof (cases r)
    case (Inl e)
    with hs show thesis
      using handshake_no_dial[OF hs] by (intro early[of es e]) (auto simp: Serve_def)
  next
    case (Inr x)
    then obtain s1 where r: "r = Inr ((), s1)" by (cases x) auto
    have es: "es = [Write [version5, 0x00]]"
      using hs r by (auto simp: handshake_def split: option.splits if_splits)
    obtain es' r' where rc: "readConnect s1 = (es', r')" by fastforce
    show thesis
    proof (cases r')
      case (Inl e)
      with hs r es rc show thesis
        using readConnect_no_dial[OF rc] by (intro early[of "es @ es'" e]) (auto simp: Serve_def)
    next
      case (Inr y)
      then obtain host prt s2 where y: "r' = Inr ((host, prt), s2)" by (metis surj_pair)
      have "es' = []" using rc y readConnect_Inr by blast
      then show thesis
        using hs r es rc y by (intro request[of host prt s2]) (auto simp: Serve_def split: prod.split)
    qed
  qed
qed

text \<open>What a client sends for a CONNECT to a domain name.\<close>

definition client_hello :: "bytes \<Rightarrow> bytes" where
  "client_hello methods = version5 # of_nat (length methods) # methods"

definition connect_domain :: "string \<Rightarrow> u16 \<Rightarrow> bytes" where
  "connect_domain host prt =
     [version5, cmdConnect, 0, atypDomain, of_nat (length host)] @ bytes_of_string host @ put_u16 (unat prt)"

lemma ReadFull_Suc: "ReadFull (Suc n) (x # xs) = map_option (\<lambda>(a, b). (x # a, b)) (ReadFull n xs)"
  by (simp add: ReadFull_def)

lemma handshake_hello:
  assumes "length methods < 256" "wr [version5, 0x00]"
  shows "handshake wr (client_hello methods @ rest) = ([Write [version5, 0x00]], Inr ((), rest))"
proof -
  have "unat (of_nat (length methods) :: byte) = length methods"
    using assms(1) by (simp add: unat_of_nat take_bit_eq_mod)
  moreover have "ReadFull 2 (client_hello methods @ rest) =
      Some ([version5, of_nat (length methods)], methods @ rest)"
    by (simp add: ReadFull_def client_hello_def numeral_2_eq_2)
  ultimately show ?thesis using assms(2) by (simp add: handshake_def ReadFull_append)
qed

lemma readConnect_domain:
  assumes "length host < 256"
  shows "readConnect (connect_domain host prt @ rest) = ([], Inr ((host, prt), rest))"
proof -
  let ?tail = "put_u16 (unat prt) @ rest"
  have l: "unat (of_nat (length host) :: byte) = length host"
    using assms by (simp add: unat_of_nat take_bit_eq_mod)
  have p: "unat prt < 65536" using unsigned_less[of prt, where 'a = nat] by simp
  have "ReadFull 4 (connect_domain host prt @ rest) =
      Some ([version5, cmdConnect, 0, atypDomain], of_nat (length host) # bytes_of_string host @ ?tail)"
    by (simp add: ReadFull_def connect_domain_def)
  moreover have "ReadFull 1 (of_nat (length host) # bytes_of_string host @ ?tail) =
      Some ([of_nat (length host)], bytes_of_string host @ ?tail)"
    by (simp add: ReadFull_def)
  then have "read_address atypDomain (of_nat (length host) # bytes_of_string host @ ?tail) = ([], Inr (host, ?tail))"
    by (simp add: read_address_def socks_consts l ReadFull_append)
  ultimately show ?thesis
    using p by (simp add: readConnect_def ReadFull_append be_val_put_u16)
qed

subsection \<open>Properties\<close>


definition set_ex :: dest_set where
  "set_ex = projr (DestAllow.New [''db.example:5432''])"

definition stream_ex :: bytes where
  "stream_ex = client_hello [0] @ connect_domain ''db.example'' 5432 @ [1, 2, 3]"


text \<open>
  C25. The request is read as it was sent: for any greeting and any CONNECT to a permitted name
  of up to 255 bytes and any port, the server dials exactly that name and port and hands on
  exactly the bytes that follow the request.
\<close>

theorem connect_roundtrip:
  assumes "length methods < 256" "length host < 256" "f host prt" "dial host prt"
  shows "Serve (\<lambda>_. True) (Some f) dial (client_hello methods @ connect_domain host prt @ rest) =
    ([Write [version5, 0x00], Dial host prt, Write (reply repSuccess), Pipe rest], None)"
  using assms by (simp add: Serve_def handshake_hello readConnect_domain serve_request_def)

theorem connect_roundtrip_witness:
  "Serve (\<lambda>_. True) (Some (Allowed set_ex)) (\<lambda>_ _. True) stream_ex =
     ([Write [version5, 0x00], Dial ''db.example'' 5432, Write (reply repSuccess), Pipe [1, 2, 3]], None)"
proof -
  have "Allowed set_ex ''db.example'' 5432" by code_simp
  then show ?thesis unfolding stream_ex_def by (intro connect_roundtrip) simp_all
qed

text \<open>
  A refused request is answered and goes nowhere: when the allow function is nil or refuses,
  the client gets exactly one reply, \<^verbatim>\<open>repNotAllowed\<close>, and nothing is dialled.
\<close>

theorem refused_is_reported:
  assumes "length methods < 256" "length host < 256" "case allow of None \<Rightarrow> True | Some f \<Rightarrow> \<not> f host prt"
  shows "Serve (\<lambda>_. True) allow dial (client_hello methods @ connect_domain host prt @ rest) =
    ([Write [version5, 0x00], Write (reply repNotAllowed)], Some (NotAllowed host prt))"
  using assms by (simp add: Serve_def handshake_hello readConnect_domain serve_request_def)

theorem refused_is_reported_witness:
  "Serve (\<lambda>_. True) None (\<lambda>_ _. True) stream_ex =
     ([Write [version5, 0x00], Write (reply repNotAllowed)], Some (NotAllowed ''db.example'' 5432))"
  unfolding stream_ex_def by (intro refused_is_reported) simp_all
end
