(* ===== verification/ControlClient.thy ===== *)
theory ControlClient
  imports ControlServer Socks5
begin

text \<open>
  \<^verbatim>\<open>internal/control/client.go\<close> and the admin commands of \<^verbatim>\<open>internal/app\<close> that change its
  whitelists. The control stream is the parameter \<open>io\<close>: the server's answer to a request, or
  \<open>None\<close> when encoding or decoding fails. Dialling and the tunnel devices are parameters too.
\<close>

subsection \<open>State\<close>

record tun_params =
  TAPEnable :: bool
  TAPName :: string
  TAPBridge :: string
  TAPBridgeMembers :: "string list"
  TAPv4 :: string
  TAPv6 :: string
  TAPDHCP :: bool
  TAPRoutes :: "(string \<times> string) list"
  UDPListen :: string
  AcceptDefaultRoute :: bool
  MTU :: int

record client =
  uuid :: string
  cl_certs :: "cert_reg list"
  cl_services :: "service_reg list"
  tun :: "tun_params option"
  serverRealIP :: string
  serviceByID :: "string \<rightharpoonup> service_reg"
  destSets :: "string \<rightharpoonup> dest_set"
  whitelists :: "(string \<times> string list) list" \<comment> \<open>an association list: Go's map order is unspecified\<close>
  enc_set :: bool
  connected :: bool

definition dest_set_of :: "string list \<Rightarrow> dest_set" where
  "dest_set_of dests = (case DestAllow.New dests of Inr s \<Rightarrow> s | Inl _ \<Rightarrow> projr (DestAllow.New []))"

definition add_client_service :: "service_reg \<Rightarrow> client \<Rightarrow> client" where
  "add_client_service s c =
     (let i = reg_ID s;
          c1 = c\<lparr>serviceByID := (serviceByID c)(i \<mapsto> s), whitelists := AList.update i (reg_Allow s) (whitelists c)\<rparr>
      in if reg_Mode s = ''socks5''
         then c1\<lparr>destSets := (destSets c1)(i \<mapsto> dest_set_of (reg_AllowDest s))\<rparr> else c1)"

definition NewClient ::
    "string \<Rightarrow> cert_reg list \<Rightarrow> service_reg list \<Rightarrow> tun_params option \<Rightarrow> string \<Rightarrow> client" where
  "NewClient u crts srvs tn realIP =
     fold add_client_service srvs
       \<lparr>uuid = u, cl_certs = crts, cl_services = srvs, tun = tn, serverRealIP = realIP,
        serviceByID = Map.empty, destSets = Map.empty, whitelists = [], enc_set = False, connected = False\<rparr>"

subsection \<open>Requests\<close>

datatype client_error = UnknownService string | NotConnected | IOError | Rejected string ack

definition requestResp :: "(message \<Rightarrow> ack option) \<Rightarrow> message \<Rightarrow> client \<Rightarrow> client_error option" where
  "requestResp io m c =
     (if \<not> enc_set c then Some NotConnected
      else case io m of
        None \<Rightarrow> Some IOError
      | Some a \<Rightarrow> if a = AckOK then None else Some (Rejected (Type m) a))"

definition update_message :: "string \<Rightarrow> string list \<Rightarrow> message" where
  "update_message i al =
     \<lparr>Type = ''update_whitelist'', UUID = '''', Certs = [], Services = [], msg_ServiceID = i, msg_Allow = al\<rparr>"

definition ClientUpdateWhitelist ::
    "(message \<Rightarrow> ack option) \<Rightarrow> string \<Rightarrow> string list \<Rightarrow> client \<Rightarrow> client \<times> client_error option" where
  "ClientUpdateWhitelist io i al c =
     (if map_of (whitelists c) i = None then (c, Some (UnknownService i))
      else
        let c1 = c\<lparr>whitelists := AList.update i al (whitelists c)\<rparr> in
        if \<not> connected c1 then (c1, None) else (c1, requestResp io (update_message i al) c1))"

definition Whitelist :: "client \<Rightarrow> string \<Rightarrow> string list option" where
  "Whitelist c i = map_of (whitelists c) i"

definition ServiceIDs :: "client \<Rightarrow> string list" where
  "ServiceIDs c = map fst (whitelists c)"

definition currentServices :: "client \<Rightarrow> service_reg list" where
  "currentServices c =
     map (\<lambda>s. case map_of (whitelists c) (reg_ID s) of Some wl \<Rightarrow> s\<lparr>reg_Allow := wl\<rparr> | None \<Rightarrow> s) (cl_services c)"

text \<open>
  The handshake of \<^verbatim>\<open>session\<close>: authenticate, then register what is current. \<open>io\<close> answers the
  two requests in turn; an error ends the session.
\<close>

definition auth_message :: "client \<Rightarrow> message" where
  "auth_message c = \<lparr>Type = ''auth'', UUID = uuid c, Certs = [], Services = [], msg_ServiceID = '''', msg_Allow = []\<rparr>"

definition register_message :: "client \<Rightarrow> message" where
  "register_message c =
     \<lparr>Type = ''register'', UUID = '''', Certs = cl_certs c, Services = currentServices c, msg_ServiceID = '''', msg_Allow = []\<rparr>"

definition open_session :: "client \<Rightarrow> client" where
  "open_session c = c\<lparr>enc_set := True, connected := True\<rparr>"

definition handshake_requests ::
    "(message \<Rightarrow> ack option) \<Rightarrow> client \<Rightarrow> client \<times> client_error option" where
  "handshake_requests io c =
     (let c1 = open_session c in
      case requestResp io (auth_message c1) c1 of
        Some e \<Rightarrow> (c1\<lparr>connected := False\<rparr>, Some e)
      | None \<Rightarrow>
          (case requestResp io (register_message c1) c1 of
             Some e \<Rightarrow> (c1\<lparr>connected := False\<rparr>, Some e)
           | None \<Rightarrow> (c1, None)))"

text \<open>
  \<^verbatim>\<open>Run\<close>: the seconds waited before each further attempt. A session ends without an error only
  when the context is cancelled; \<open>True\<close> in the second component says that the context was
  cancelled by then in any case.
\<close>

datatype session_end = CtxDone | DialFailure | MuxFailure | StreamFailure | HandshakeFailure client_error | CarrierClosed | HeartbeatFailure client_error

definition session_err :: "session_end \<Rightarrow> bool" where
  "session_err e \<longleftrightarrow> e \<noteq> CtxDone"

definition maxBackoff :: nat where "maxBackoff = 30"

definition next_backoff :: "bool \<Rightarrow> nat \<Rightarrow> nat" where
  "next_backoff failed b = (if \<not> failed then 1 else if b < maxBackoff then b * 2 else b)"

fun run_loop :: "nat \<Rightarrow> (session_end \<times> bool) list \<Rightarrow> nat list" where
  "run_loop b [] = []"
| "run_loop b ((e, cancelled) # es) =
     (if e = CtxDone \<or> cancelled then [] else b # run_loop (next_backoff (session_err e) b) es)"

definition Run :: "(session_end \<times> bool) list \<Rightarrow> nat list" where
  "Run es = run_loop 1 es"

subsection \<open>Reverse streams\<close>

datatype reverse = Refused | Socks "effect list" "socks_error option" | NilDestSet
  | DialFailed string | Piped string bytes

definition handleReverse ::
    "(bytes \<Rightarrow> bool) \<Rightarrow> (string \<Rightarrow> u16 \<Rightarrow> bool) \<Rightarrow> (string \<Rightarrow> bool) \<Rightarrow> client \<Rightarrow> bytes \<Rightarrow> reverse" where
  "handleReverse wr dial dialTCP c stream =
     (case ReadFrame stream of
        Inl _ \<Rightarrow> Refused
      | Inr (f, rest) \<Rightarrow>
          (case serviceByID c (Frame.Service f) of
             None \<Rightarrow> Refused
           | Some svc \<Rightarrow>
               if reg_Mode svc = ''socks5'' then
                 (case destSets c (Frame.Service f) of
                    Some dset \<Rightarrow> (case Serve wr (Some (DestAllow.Allowed dset)) dial rest of (es, err) \<Rightarrow> Socks es err)
                  | None \<Rightarrow> NilDestSet)
               else if dialTCP (reg_Upstream svc) then Piped (reg_Upstream svc) rest
               else DialFailed (reg_Upstream svc)))"

subsection \<open>The tunnel of a client\<close>

record client_tap =
  tap_Name :: string
  tap_Bridge :: string
  tap_BridgeMembers :: "string list"
  tap_IPv4CIDR :: string
  tap_IPv6 :: string
  tap_Routes :: "(string \<times> string) list"

record client_options =
  opt_TAP :: "client_tap option"
  opt_UDPListen :: string
  opt_MTU :: int

datatype tun_error = OpenStream | TagStream | NothingUsable | StartNode

definition tap_of :: "tun_params \<Rightarrow> client_tap" where
  "tap_of t =
     \<lparr>tap_Name = TAPName t, tap_Bridge = TAPBridge t, tap_BridgeMembers = TAPBridgeMembers t,
      tap_IPv4CIDR = (if TAPv4 t \<noteq> '''' then TAPv4 t else ''''), tap_IPv6 = TAPv6 t, tap_Routes = TAPRoutes t\<rparr>"

definition tun_options :: "tun_params \<Rightarrow> client_options" where
  "tun_options t =
     \<lparr>opt_TAP =
        (if TAPEnable t then
           (let tap = tap_of t in
            if tap_IPv4CIDR tap = '''' \<and> \<not> TAPDHCP t \<and> tap_Bridge tap = '''' then None else Some tap)
         else None),
      opt_UDPListen = UDPListen t, opt_MTU = MTU t\<rparr>"

definition dhcp_device :: "tun_params \<Rightarrow> client_options \<Rightarrow> string option" where
  "dhcp_device t opts =
     (if TAPEnable t \<and> TAPv4 t = '''' \<and> TAPDHCP t then
        (case opt_TAP opts of
           None \<Rightarrow> None
         | Some tap \<Rightarrow> Some (if tap_Bridge tap \<noteq> '''' then tap_Bridge tap else tap_Name tap))
      else None)"

text \<open>
  The options the node is started with and the device DHCP then runs on. \<open>openOK\<close>, \<open>tagOK\<close> and
  \<open>startOK\<close> are the outcomes of the stream and of \<^verbatim>\<open>l2.StartClient\<close>.
\<close>

definition startTun ::
    "bool \<Rightarrow> bool \<Rightarrow> (client_options \<Rightarrow> bool) \<Rightarrow> tun_params \<Rightarrow> tun_error + (client_options \<times> string option)" where
  "startTun openOK tagOK startOK t =
     (if \<not> openOK then Inl OpenStream
      else if \<not> tagOK then Inl TagStream
      else let opts = tun_options t in
        if opt_TAP opts = None \<and> opt_UDPListen opts = '''' then Inl NothingUsable
        else if \<not> startOK opts then Inl StartNode
        else Inr (opts, dhcp_device t opts))"

text \<open>
  \<^verbatim>\<open>runDHCP\<close> after the exchange: the changes it makes to the network configuration in order,
  up to the first one whose failure it reports. \<open>ok\<close> says which changes succeed.
\<close>

record lease =
  lease_IPv4 :: bytes
  lease_SubnetMask :: bytes
  lease_Gateway :: "bytes option"
  lease_ServerID :: bytes
  lease_LeaseTime :: time
  lease_DefaultRoute :: bool

text \<open>
  The arguments are what the packet library reads from an ACK: the address, the subnet mask, the routers, the server
  identifier and the lease time, which is zero when the option is absent.
\<close>

definition leaseFromACK :: "bytes \<Rightarrow> bytes \<Rightarrow> bytes list \<Rightarrow> bytes \<Rightarrow> time \<Rightarrow> lease" where
  "leaseFromACK yourIP subnetMask routers serverIdentifier lt =
     \<lparr>lease_IPv4 = yourIP, lease_SubnetMask = subnetMask,
      lease_Gateway = (if routers = [] then None else Some (hd routers)),
      lease_ServerID = serverIdentifier, lease_LeaseTime = (if lt > 0 then lt else 0),
      lease_DefaultRoute = (routers \<noteq> [])\<rparr>"

datatype netcfg = AddAddr string string | AddRoute string string | PinHostRoute string | AddDefaultRoute string string

datatype dhcp_error = NoLease | MissingMask | ApplyAddr string | DefaultRouteVia string

text \<open>\<^verbatim>\<open>IPMask.Size\<close>: the number of leading ones, or zero for a mask that is not of that form.\<close>

definition mask_ones :: "bytes \<Rightarrow> nat" where
  "mask_ones m =
     (case find (\<lambda>n. CIDRMask n (8 * length m) = m) [0..<Suc (8 * length m)] of None \<Rightarrow> 0 | Some n \<Rightarrow> n)"

definition default_route_steps :: "(netcfg \<Rightarrow> bool) \<Rightarrow> client \<Rightarrow> string \<Rightarrow> bytes \<Rightarrow> netcfg list \<times> dhcp_error option" where
  "default_route_steps ok c dev gw =
     (let pin = (if serverRealIP c \<noteq> '''' then [PinHostRoute (serverRealIP c)] else []);
          def = AddDefaultRoute dev (ip_string gw)
      in (pin @ [def], if ok def then None else Some (DefaultRouteVia (ip_string gw))))"

definition runDHCP ::
    "(netcfg \<Rightarrow> bool) \<Rightarrow> client \<Rightarrow> tun_params \<Rightarrow> string \<Rightarrow> lease option \<Rightarrow> netcfg list \<times> dhcp_error option" where
  "runDHCP ok c t dev l =
     (case l of
        None \<Rightarrow> ([], Some NoLease)
      | Some le \<Rightarrow>
          let ones = mask_ones (lease_SubnetMask le) in
          if ones = 0 then ([], Some MissingMask)
          else
            let cidr = ip_string (lease_IPv4 le) @ ''/'' @ Itoa ones;
                subnet = ip_string (ip_mask (lease_IPv4 le) (lease_SubnetMask le)) @ ''/'' @ Itoa ones
            in if \<not> ok (AddAddr dev cidr) then ([AddAddr dev cidr], Some (ApplyAddr cidr))
               else
                 (case lease_Gateway le of
                    Some gw \<Rightarrow>
                      if AcceptDefaultRoute t \<and> lease_DefaultRoute le then
                        (let (es, e) = default_route_steps ok c dev gw in (AddAddr dev cidr # AddRoute dev subnet # es, e))
                      else ([AddAddr dev cidr, AddRoute dev subnet], None)
                  | None \<Rightarrow> ([AddAddr dev cidr, AddRoute dev subnet], None)))"

subsection \<open>Whitelist commands\<close>

text \<open>
  \<^verbatim>\<open>whitelistcmd.go\<close> over the admin API of a running client: read the current list, change it,
  post it back.
\<close>

datatype admin_error = ServiceNotFound string | AdminError client_error

definition fetchAllow :: "client \<Rightarrow> string \<Rightarrow> admin_error + string list" where
  "fetchAllow c service =
     (case find (\<lambda>i. i = service) (ServiceIDs c) of
        None \<Rightarrow> Inl (ServiceNotFound service)
      | Some i \<Rightarrow> Inr (case Whitelist c i of Some al \<Rightarrow> al | None \<Rightarrow> []))"

definition postWhitelist ::
    "(message \<Rightarrow> ack option) \<Rightarrow> string \<Rightarrow> string list \<Rightarrow> client \<Rightarrow> client \<times> admin_error option" where
  "postWhitelist io service al c =
     (case ClientUpdateWhitelist io service al c of
        (c1, None) \<Rightarrow> (c1, None) | (c1, Some e) \<Rightarrow> (c1, Some (AdminError e)))"

definition merge_allow :: "string list \<Rightarrow> string list \<Rightarrow> string list" where
  "merge_allow cur add = fold (\<lambda>x merged. if x \<in> set merged then merged else merged @ [x]) (cur @ add) []"

definition WhitelistAdd ::
    "(message \<Rightarrow> ack option) \<Rightarrow> string \<Rightarrow> string list \<Rightarrow> client \<Rightarrow> client \<times> admin_error option" where
  "WhitelistAdd io service add c =
     (case fetchAllow c service of
        Inl e \<Rightarrow> (c, Some e) | Inr cur \<Rightarrow> postWhitelist io service (merge_allow cur add) c)"

definition WhitelistRemove ::
    "(message \<Rightarrow> ack option) \<Rightarrow> string \<Rightarrow> string list \<Rightarrow> client \<Rightarrow> client \<times> admin_error option" where
  "WhitelistRemove io service rm c =
     (case fetchAllow c service of
        Inl e \<Rightarrow> (c, Some e)
      | Inr cur \<Rightarrow> postWhitelist io service (filter (\<lambda>x. x \<notin> set rm) cur) c)"

subsection \<open>Lemmas\<close>

text \<open>What every operation keeps of a client of the services \<open>srvs\<close>.\<close>

definition client_inv :: "service_reg list \<Rightarrow> client \<Rightarrow> bool" where
  "client_inv srvs c \<longleftrightarrow>
     cl_services c = srvs \<and>
     (\<forall>sr \<in> set srvs. serviceByID c (reg_ID sr) = Some sr \<and>
        (reg_Mode sr = ''socks5'' \<longrightarrow> destSets c (reg_ID sr) = Some (dest_set_of (reg_AllowDest sr)))) \<and>
     dom (serviceByID c) = reg_ID ` set srvs \<and> set (map fst (whitelists c)) = reg_ID ` set srvs"

datatype client_event = CUpdate "message \<Rightarrow> ack option" string "string list" | CSession "message \<Rightarrow> ack option" | CDrop

fun client_step :: "client_event \<Rightarrow> client \<Rightarrow> client" where
  "client_step (CUpdate io i al) c = fst (ClientUpdateWhitelist io i al c)"
| "client_step (CSession io) c = fst (handshake_requests io c)"
| "client_step CDrop c = c\<lparr>connected := False\<rparr>"

lemma dom_alist_update: "set (map fst (AList.update k x m)) = insert k (set (map fst m))"
  by (metis dom_map_of_conv_image_fst update_conv' dom_fun_upd option.distinct(1) set_map)

lemma add_client_service_fields:
  "serviceByID (add_client_service s c) = (serviceByID c)(reg_ID s \<mapsto> s)"
  "whitelists (add_client_service s c) = AList.update (reg_ID s) (reg_Allow s) (whitelists c)"
  "destSets (add_client_service s c) =
     (if reg_Mode s = ''socks5'' then (destSets c)(reg_ID s \<mapsto> dest_set_of (reg_AllowDest s)) else destSets c)"
  "cl_services (add_client_service s c) = cl_services c"
  by (simp_all add: add_client_service_def Let_def)

lemma fold_add_other:
  "i \<notin> reg_ID ` set srvs \<Longrightarrow> serviceByID (fold add_client_service srvs c) i = serviceByID c i \<and>
     destSets (fold add_client_service srvs c) i = destSets c i"
  by (induction srvs arbitrary: c) (auto simp: add_client_service_fields)

lemma fold_add_mem:
  "distinct (map reg_ID srvs) \<Longrightarrow> sr \<in> set srvs \<Longrightarrow>
     serviceByID (fold add_client_service srvs c) (reg_ID sr) = Some sr \<and>
     (reg_Mode sr = ''socks5'' \<longrightarrow>
        destSets (fold add_client_service srvs c) (reg_ID sr) = Some (dest_set_of (reg_AllowDest sr)))"
proof (induction srvs arbitrary: c)
  case (Cons s srvs)
  then show ?case
    using fold_add_other[of "reg_ID s" srvs "add_client_service s c"] by (auto simp: add_client_service_fields)
qed simp

lemma fold_add_keys:
  "dom (serviceByID (fold add_client_service srvs c)) = reg_ID ` set srvs \<union> dom (serviceByID c)"
  "set (map fst (whitelists (fold add_client_service srvs c))) = reg_ID ` set srvs \<union> set (map fst (whitelists c))"
  "cl_services (fold add_client_service srvs c) = cl_services c"
  by (induction srvs arbitrary: c) (simp_all add: add_client_service_fields dom_alist_update del: set_map)

lemma NewClient_inv: "distinct (map reg_ID srvs) \<Longrightarrow> client_inv srvs (NewClient u crts srvs tn ip)"
  using fold_add_mem[of srvs] by (simp add: client_inv_def NewClient_def fold_add_keys del: set_map)

interpretation client: invariant_machine client_step "\<lambda>_ _. True" "client_inv srvs" for srvs
proof
  fix c e assume i: "client_inv srvs c"
  show "client_inv srvs (client_step e c)"
  proof (cases e)
    case (CUpdate io i al)
    moreover have "set (map fst (AList.update i al (whitelists c))) = set (map fst (whitelists c))" if "map_of (whitelists c) i \<noteq> None"
      using that dom_alist_update[of i al "whitelists c"] by (auto simp: map_of_eq_None_iff)
    ultimately show ?thesis using i by (auto simp: client_inv_def ClientUpdateWhitelist_def Let_def simp del: set_map)
  qed (use i in \<open>auto simp: client_inv_def handshake_requests_def open_session_def Let_def split: option.splits\<close>)
qed

lemma client_run_inv:
  "distinct (map reg_ID srvs) \<Longrightarrow> client_inv srvs (fold client_step es (NewClient u crts srvs tn ip))"
  by (rule client.run_inv[OF NewClient_inv all_enabled_True])

subsection \<open>Properties\<close>

lemma built_service_ID:
  "build_service c sess sr = Inr s \<Longrightarrow> ToLower (reg_Host sr) = reg_Host sr \<Longrightarrow> service_ID s = reg_ID sr"
  by (auto simp: build_service_def service_ID_def reg_ID_def ServiceID_def isRaw_def split: sum.splits)

definition client_ex :: client where
  "client_ex = NewClient ''alice'' [] [svc_ex ''tcp'' ''ssh.example'' '''' [], svc_ex ''socks5'' ''p.example'' '''' []] None ''''"

text \<open>The server's answer to each request of a client, from the state its session is in.\<close>

definition answer ::
    "(string \<Rightarrow> string \<Rightarrow> string + leaf) \<Rightarrow> (string \<rightharpoonup> string) \<Rightarrow> session \<Rightarrow> control_session \<Rightarrow> registry \<Rightarrow> message \<Rightarrow> ack option" where
  "answer x509 allowed sid ss r m = Some (fst (session_turn x509 allowed sid m ss r))"

lemma handleReverse_own:
  assumes "client_inv srvs c" "sr \<in> set srvs" "ReadFrame stream = Inr (\<lparr>Frame.Service = reg_ID sr\<rparr>, rest)"
  shows "handleReverse wr dial dialTCP c stream =
    (if reg_Mode sr = ''socks5''
     then (case Serve wr (Some (DestAllow.Allowed (dest_set_of (reg_AllowDest sr)))) dial rest of (fx, err) \<Rightarrow> Socks fx err)
     else if dialTCP (reg_Upstream sr) then Piped (reg_Upstream sr) rest else DialFailed (reg_Upstream sr))"
  using assms by (simp add: client_inv_def handleReverse_def)

text \<open>
  A stream the server opens for a published service reaches that service's own upstream:
  through any history of whitelist updates and reconnections, the identifier under which the
  registry holds a service with a lower-case host is the one under which the client finds it after the
  header it is written to has crossed the stream as JSON (its name being well-formed UTF-8), so a tcp, http or ws stream is piped to the configured upstream, and a socks5 stream is served
  with the service's own destination list.
\<close>

theorem reverse_reaches_own_upstream:
  assumes "distinct (map reg_ID srvs)" "sr \<in> set srvs" "ToLower (reg_Host sr) = reg_Host sr"
    and "build_service u sess sr = Inr s" "WriteFrame [] \<lparr>Frame.Service = service_ID s\<rparr> = Inr hdr" "to_valid (service_ID s) = service_ID s"
  shows "handleReverse wr dial dialTCP (fold client_step es (NewClient u crts srvs tn ip)) (hdr @ rest) =
    (if reg_Mode sr = ''socks5''
     then (case Serve wr (Some (DestAllow.Allowed (dest_set_of (reg_AllowDest sr)))) dial rest of (fx, err) \<Rightarrow> Socks fx err)
     else if dialTCP (reg_Upstream sr) then Piped (reg_Upstream sr) rest else DialFailed (reg_Upstream sr))"
proof -
  let ?c = "fold client_step es (NewClient u crts srvs tn ip)"
  have "client_inv srvs ?c"
    by (rule client_run_inv[OF assms(1)])
  moreover have "ReadFrame (hdr @ rest) = Inr (\<lparr>Frame.Service = reg_ID sr\<rparr>, rest)"
    using WriteFrame_read[OF assms(5)] assms(6) built_service_ID[OF assms(4,3)] by simp
  ultimately show ?thesis using assms(2) by (intro handleReverse_own)
qed

theorem reverse_reaches_own_upstream_witness:
  "handleReverse (\<lambda>_. True) (\<lambda>_ _. True) (\<lambda>_. True) client_ex
     (put_u32 31 @ mustJSON \<lparr>Frame.Service = ''tcp://ssh.example''\<rparr> @ [1, 2]) = Piped ''127.0.0.1:80'' [1, 2]"
proof -
  let ?srvs = "[svc_ex ''tcp'' ''ssh.example'' '''' [], svc_ex ''socks5'' ''p.example'' '''' []]"
  let ?sr = "svc_ex ''tcp'' ''ssh.example'' '''' []"
  let ?s = "projr (build_service ''alice'' (Some 1) ?sr)"
  let ?hdr = "put_u32 31 @ mustJSON \<lparr>Frame.Service = ''tcp://ssh.example''\<rparr>"
  have d: "distinct (map reg_ID ?srvs)" "ToLower (reg_Host ?sr) = reg_Host ?sr" by code_simp+
  have b: "build_service ''alice'' (Some 1) ?sr = Inr ?s" by code_simp
  have f: "WriteFrame [] \<lparr>Frame.Service = service_ID ?s\<rparr> = Inr ?hdr" "to_valid (service_ID ?s) = service_ID ?s" by code_simp+
  have m: "reg_Mode ?sr \<noteq> ''socks5''" "reg_Upstream ?sr = ''127.0.0.1:80''" by code_simp+
  from reverse_reaches_own_upstream[OF d(1) _ d(2) b f, where es = "[]" and rest = "[1, 2]"] m show ?thesis
    by (simp add: client_ex_def)
qed

text \<open>
  A host configured with an upper-case letter is published but not served: the registry
  lower-cases the host, so the identifier on the stream differs from the one the client knows, and
  the client refuses the stream.
\<close>

theorem mixed_case_host_refused:
  "reg_ID (svc_ex ''tcp'' ''SSH.example'' '''' []) = ''tcp://SSH.example'' \<and>
   service_ID (projr (build_service ''alice'' (Some 1) (svc_ex ''tcp'' ''SSH.example'' '''' []))) = ''tcp://ssh.example'' \<and>
   handleReverse (\<lambda>_. True) (\<lambda>_ _. True) (\<lambda>_. True)
     (NewClient ''alice'' [] [svc_ex ''tcp'' ''SSH.example'' '''' []] None '''')
     (put_u32 31 @ mustJSON \<lparr>Frame.Service = ''tcp://ssh.example''\<rparr> @ [1, 2]) = Refused"
  by code_simp

lemma currentServices_update:
  assumes "client_inv srvs c" "i \<in> set (ServiceIDs c)" "ClientUpdateWhitelist io i al c = (c', e)"
  shows "currentServices c' = map (\<lambda>s. if reg_ID s = i then s\<lparr>reg_Allow := al\<rparr> else s) (currentServices c) \<and>
    Whitelist c' = (Whitelist c)(i \<mapsto> al)"
proof -
  have "map_of (whitelists c) i \<noteq> None"
    using assms(2) by (simp add: ServiceIDs_def map_of_eq_None_iff)
  then have c': "whitelists c' = AList.update i al (whitelists c)" "cl_services c' = cl_services c"
    using assms(3) by (auto simp: ClientUpdateWhitelist_def Let_def split: if_splits)
  have upd: "(if reg_ID (s\<lparr>reg_Allow := wl\<rparr>) = i then s\<lparr>reg_Allow := wl, reg_Allow := al\<rparr> else s\<lparr>reg_Allow := wl\<rparr>) =
      (if reg_ID s = i then s\<lparr>reg_Allow := al\<rparr> else s\<lparr>reg_Allow := wl\<rparr>)" for s wl
    by (simp add: reg_ID_def)
  show ?thesis
    using upd by (auto simp: currentServices_def c' Whitelist_def update_conv' fun_eq_iff reg_ID_def split: option.splits)
qed

lemma currentServices_allow:
  assumes "client_inv srvs c" "sr \<in> set srvs"
  shows "\<exists>al. Whitelist c (reg_ID sr) = Some al \<and> sr\<lparr>reg_Allow := al\<rparr> \<in> set (currentServices c)"
proof -
  have "reg_ID sr \<in> set (map fst (whitelists c))" using assms unfolding client_inv_def by blast
  then obtain al where "map_of (whitelists c) (reg_ID sr) = Some al"
    by (metis not_Some_eq map_of_eq_None_iff set_map)
  then show ?thesis
    using assms by (auto simp: Whitelist_def currentServices_def client_inv_def intro!: image_eqI[of _ _ sr])
qed

text \<open>
  An update is replayed: whatever the server answers, and also when the client is not
  connected, an update of a published service becomes its current list, the next registration
  carries it for that service, and every other service is registered as before.
\<close>

theorem whitelist_update_replayed:
  assumes "distinct (map reg_ID srvs)" "c = fold client_step es (NewClient u crts srvs tn ip)"
    and "sr \<in> set srvs" "ClientUpdateWhitelist io (reg_ID sr) al c = (c', e)"
  shows "Services (register_message c') =
      map (\<lambda>s. if reg_ID s = reg_ID sr then s\<lparr>reg_Allow := al\<rparr> else s) (Services (register_message c)) \<and>
    Whitelist c' = (Whitelist c)(reg_ID sr \<mapsto> al)"
proof -
  have i: "client_inv srvs c"
    unfolding assms(2) by (rule client_run_inv[OF assms(1)])
  then have "reg_ID sr \<in> set (ServiceIDs c)" using assms(3) by (simp add: client_inv_def ServiceIDs_def)
  from currentServices_update[OF i this assms(4)] show ?thesis by (simp add: register_message_def)
qed

theorem whitelist_update_replayed_witness:
  "Whitelist (fst (ClientUpdateWhitelist (\<lambda>_. None) ''tcp://ssh.example'' [''10.0.0.0/8''] client_ex)) ''tcp://ssh.example'' =
     Some [''10.0.0.0/8'']"
proof -
  let ?srvs = "[svc_ex ''tcp'' ''ssh.example'' '''' [], svc_ex ''socks5'' ''p.example'' '''' []]"
  let ?sr = "svc_ex ''tcp'' ''ssh.example'' '''' []"
  let ?U = "ClientUpdateWhitelist (\<lambda>_. None) (reg_ID ?sr) [''10.0.0.0/8''] client_ex"
  have d: "distinct (map reg_ID ?srvs)" by code_simp
  have c: "client_ex = fold client_step [] (NewClient ''alice'' [] ?srvs None '''')" by (simp add: client_ex_def)
  have u: "?U = (fst ?U, snd ?U)" by simp
  have i: "reg_ID ?sr = ''tcp://ssh.example''" by code_simp
  from whitelist_update_replayed[OF d c _ u] show ?thesis by (simp add: i)
qed


definition web_client_ex :: client where
  "web_client_ex = NewClient ''alice'' [] [svc_ex ''http'' ''app.example'' ''/x'' [''10.0.0.0/8'']] None ''''"


definition bad_update_ex :: "client \<times> client_error option" where
  "bad_update_ex =
     (let (ss, r) = play x509_ex allowed_ex 3 msgs_ex new_session reg0_ex
      in ClientUpdateWhitelist (answer x509_ex allowed_ex 3 ss r) ''tcp://ssh.example'' [''10.0.0.300'']
           (open_session client_ex))"

text \<open>
  A rejected update outlives the rejection: after an update with an invalid entry, which
  the server refuses, the client keeps the entry as its current list, so its next registration is
  refused as a whole and all its services stay unpublished.
\<close>

theorem rejected_update_blocks_registration:
  "snd bad_update_ex =
     Some (Rejected ''update_whitelist'' (AckUpdate (BadAllow (IpAllow.InvalidCIDR ''10.0.0.300'')))) \<and>
   fst (session_loop x509_ex allowed_ex 4 [auth_message (fst bad_update_ex), register_message (fst bad_update_ex)]
      new_session reg0_ex) =
     [AckOK, AckRegister (InvalidAllow ''tcp://ssh.example'' (IpAllow.InvalidCIDR ''10.0.0.300''))]"
  by code_simp

lemma run_loop_bound:
  "b \<in> {1, 2, 4, 8, 16, 32} \<Longrightarrow> set (run_loop b es) \<subseteq> {1, 2, 4, 8, 16, 32} \<and>
     sorted (run_loop b es) \<and> (\<forall>d \<in> set (run_loop b es). b \<le> d)"
proof (induction es arbitrary: b)
  case (Cons x es)
  obtain e d where x: "x = (e, d)" by force
  let ?b = "next_backoff True b"
  have b: "?b \<in> {1, 2, 4, 8, 16, 32}" "b \<le> ?b" using Cons.prems by (auto simp: next_backoff_def maxBackoff_def)
  then show ?case using Cons.IH[OF b(1)] Cons.prems by (auto simp: x session_err_def)
qed simp

text \<open>
  C31. The reconnection delay is bounded, never shrinks, and is never reset: however the
  sessions end, the delays are powers of two from 1 to 32 seconds in non-decreasing order, since the
  only session that ends without an error is the one ended by cancellation, after which
  there is no further attempt. The largest delay is above the maximum of 30 seconds.
\<close>

theorem backoff_bounded_never_reset:
  "set (Run es) \<subseteq> {1, 2, 4, 8, 16, 32} \<and> sorted (Run es) \<and>
   Run (replicate 7 (CarrierClosed, False)) = [1, 2, 4, 8, 16, 32, 32] \<and> maxBackoff < 32"
  using run_loop_bound[of 1 es]
  by (simp add: Run_def numeral_eq_Suc next_backoff_def maxBackoff_def session_err_def)

lemma merge_fold:
  "set (fold (\<lambda>x merged. if x \<in> set merged then merged else merged @ [x]) xs acc) = set acc \<union> set xs \<and>
   (distinct acc \<longrightarrow> distinct (fold (\<lambda>x merged. if x \<in> set merged then merged else merged @ [x]) xs acc))"
proof (induction xs arbitrary: acc)
  case (Cons x xs)
  then show ?case by (cases "x \<in> set acc") (auto simp: Cons)
qed simp

lemma find_eq_self: "x \<in> set xs \<Longrightarrow> find (\<lambda>y. y = x) xs = Some x"
  by (induction xs) auto

lemma fetchAllow_Inr:
  "Whitelist c i = Some cur \<Longrightarrow> fetchAllow c i = Inr cur"
proof -
  assume w: "Whitelist c i = Some cur"
  then have "i \<in> set (ServiceIDs c)"
    by (metis Whitelist_def ServiceIDs_def map_of_eq_None_iff option.distinct(1) set_map)
  then have "find (\<lambda>j. j = i) (ServiceIDs c) = Some i" by (rule find_eq_self)
  with w show ?thesis by (simp add: fetchAllow_def)
qed

lemma postWhitelist_sets:
  "Whitelist c i \<noteq> None \<Longrightarrow> Whitelist (fst (postWhitelist io i al c)) i = Some al"
  by (auto simp: postWhitelist_def Whitelist_def ClientUpdateWhitelist_def Let_def update_conv'
      split: prod.splits option.splits if_splits)

text \<open>
  The whitelist commands edit the current list: adding gives the union, each entry once;
  removing gives the difference. Removing every entry does not close the service: the list is
  then empty, and an empty list admits every address.
\<close>

theorem whitelist_commands:
  assumes "Whitelist c i = Some cur"
  shows "(\<exists>al. Whitelist (fst (WhitelistAdd io i add c)) i = Some al \<and> set al = set cur \<union> set add \<and> distinct al) \<and>
    (\<exists>al. Whitelist (fst (WhitelistRemove io i rm c)) i = Some al \<and> set al = set cur - set rm \<and>
       (set cur \<subseteq> set rm \<longrightarrow> (\<exists>s. ipallow_New al = Inr s \<and> (\<forall>a. IpAllow.Allowed s a))))"
proof -
  have "\<exists>al. Whitelist (fst (WhitelistAdd io i add c)) i = Some al \<and> set al = set cur \<union> set add \<and> distinct al"
    using assms merge_fold[of "cur @ add" "[]"]
    by (simp add: WhitelistAdd_def fetchAllow_Inr postWhitelist_sets merge_allow_def)
  moreover have "set cur \<subseteq> set rm \<Longrightarrow> filter (\<lambda>x. x \<notin> set rm) cur = []" by (auto simp: filter_empty_conv)
  moreover have "\<exists>s. ipallow_New [] = Inr s \<and> (\<forall>a. IpAllow.Allowed s a)"
    by (simp add: ipallow_New_def Allowed_iff)
  ultimately show ?thesis
    using assms by (auto simp: WhitelistRemove_def fetchAllow_Inr postWhitelist_sets)
qed

theorem whitelist_commands_witness:
  "Whitelist (fst (WhitelistRemove (\<lambda>_. None) ''https://app.example/x'' [''10.0.0.0/8''] web_client_ex)) ''https://app.example/x'' = Some []"
proof -
  have "Whitelist web_client_ex ''https://app.example/x'' = Some [''10.0.0.0/8'']" by code_simp
  from whitelist_commands[OF this, of "\<lambda>_. None" "[]" "[''10.0.0.0/8'']"] show ?thesis by auto
qed

text \<open>
  The carrier is not captured by the tunnel's default route: a default route is installed
  only when the client accepts one and the lease has a gateway, and when the server's address is
  known, the pin of its host route is the step directly before it.
\<close>

theorem default_route_after_pin:
  assumes "runDHCP ok c t dev l = (steps, e)" "AddDefaultRoute d g \<in> set steps"
  shows "AcceptDefaultRoute t \<and> d = dev \<and>
    (\<exists>le gw. l = Some le \<and> lease_Gateway le = Some gw \<and> lease_DefaultRoute le \<and> g = ip_string gw) \<and>
    last steps = AddDefaultRoute d g \<and>
    (serverRealIP c \<noteq> '''' \<longrightarrow> last (butlast steps) = PinHostRoute (serverRealIP c))"
  using assms
  by (auto simp: runDHCP_def default_route_steps_def Let_def split: option.splits if_splits)

theorem default_route_after_pin_witness:
  "AddDefaultRoute ''tbox0'' ''10.42.0.1'' \<in> set (fst (runDHCP (\<lambda>_. True) (NewClient ''a'' [] [] None ''198.51.100.7'')
      \<lparr>TAPEnable = True, TAPName = ''tbox0'', TAPBridge = '''', TAPBridgeMembers = [], TAPv4 = '''', TAPv6 = '''', TAPDHCP = True,
       TAPRoutes = [], UDPListen = '''', AcceptDefaultRoute = True, MTU = 1448\<rparr> ''tbox0''
      (Some (leaseFromACK [10, 42, 0, 9] [255, 255, 255, 0] [[10, 42, 0, 1]] [10, 42, 0, 1] 3600000000000)))) \<and>
   last (butlast (fst (runDHCP (\<lambda>_. True) (NewClient ''a'' [] [] None ''198.51.100.7'')
      \<lparr>TAPEnable = True, TAPName = ''tbox0'', TAPBridge = '''', TAPBridgeMembers = [], TAPv4 = '''', TAPv6 = '''', TAPDHCP = True,
       TAPRoutes = [], UDPListen = '''', AcceptDefaultRoute = True, MTU = 1448\<rparr> ''tbox0''
      (Some (leaseFromACK [10, 42, 0, 9] [255, 255, 255, 0] [[10, 42, 0, 1]] [10, 42, 0, 1] 3600000000000))))) = PinHostRoute ''198.51.100.7''"
proof -
  let ?c = "NewClient ''a'' [] [] None ''198.51.100.7''"
  let ?R = "runDHCP (\<lambda>_. True) ?c
      \<lparr>TAPEnable = True, TAPName = ''tbox0'', TAPBridge = '''', TAPBridgeMembers = [], TAPv4 = '''', TAPv6 = '''', TAPDHCP = True,
       TAPRoutes = [], UDPListen = '''', AcceptDefaultRoute = True, MTU = 1448\<rparr> ''tbox0''
      (Some (leaseFromACK [10, 42, 0, 9] [255, 255, 255, 0] [[10, 42, 0, 1]] [10, 42, 0, 1] 3600000000000))"
  have r: "?R = (fst ?R, snd ?R)" by simp
  have m: "AddDefaultRoute ''tbox0'' ''10.42.0.1'' \<in> set (fst ?R)" by code_simp
  have s: "serverRealIP ?c = ''198.51.100.7''" by code_simp
  from default_route_after_pin[OF r m] m s show ?thesis by simp
qed

text \<open>
  The node a client starts is never useless: when the tunnel starts, it has a UDP endpoint
  or a TAP device, and the TAP device has a static address, a bridge, or DHCP running on the
  bridge if there is one and on the device otherwise.
\<close>

theorem tunnel_start_is_usable:
  assumes "startTun openOK tagOK startOK t = Inr (opts, dev)"
  shows "(opt_UDPListen opts \<noteq> '''' \<or> opt_TAP opts \<noteq> None) \<and>
    (\<forall>tap. opt_TAP opts = Some tap \<longrightarrow>
       (tap_IPv4CIDR tap \<noteq> '''' \<or> tap_Bridge tap \<noteq> '''' \<or> dev = Some (tap_Name tap)) \<and>
       (TAPDHCP t \<and> tap_IPv4CIDR tap = '''' \<longrightarrow> dev = Some (if tap_Bridge tap \<noteq> '''' then tap_Bridge tap else tap_Name tap)))"
  using assms by (auto simp: startTun_def tun_options_def dhcp_device_def tap_of_def Let_def split: if_splits option.splits)

theorem tunnel_start_is_usable_witness:
  "opt_TAP (tun_options \<lparr>TAPEnable = True, TAPName = ''tbox0'', TAPBridge = ''br0'', TAPBridgeMembers = [], TAPv4 = '''', TAPv6 = '''',
     TAPDHCP = True, TAPRoutes = [], UDPListen = '''', AcceptDefaultRoute = True, MTU = 1448\<rparr>) \<noteq> None"
proof -
  let ?t = "\<lparr>TAPEnable = True, TAPName = ''tbox0'', TAPBridge = ''br0'', TAPBridgeMembers = [], TAPv4 = '''', TAPv6 = '''',
     TAPDHCP = True, TAPRoutes = [], UDPListen = '''', AcceptDefaultRoute = True, MTU = 1448\<rparr>"
  have "startTun True True (\<lambda>_. True) ?t = Inr (tun_options ?t, Some ''br0'')" by code_simp
  moreover have "opt_UDPListen (tun_options ?t) = ''''" by code_simp
  ultimately show ?thesis using tunnel_start_is_usable[of True True "\<lambda>_. True" ?t] by blast
qed

end
