(* ===== verification/Streams.thy ===== *)
theory Streams
  imports Tbox_Prelude "HOL-Library.Sublist" "HOL-Library.Multiset"
begin

text \<open>
  The two concurrent pieces every published connection passes: \<^verbatim>\<open>Pipe\<close> of \<^verbatim>\<open>internal/tunnel/session.go\<close>, two goroutines
  that copy in opposite directions and close both ends once, and the \<^verbatim>\<open>connListener\<close> of \<^verbatim>\<open>internal/l4router/router.go\<close>,
  which hands routed connections to the publish server over an unbuffered channel. Both are step relations in which
  the goroutines and the outside world interleave freely.
\<close>

subsection \<open>Pipe: state and steps\<close>

datatype side = A | B

fun other :: "side \<Rightarrow> side" where
  "other A = B"
| "other B = A"

text \<open>
  One end of the pipe: what its peer has sent in all and what of it is still unread, whether the peer has ended its stream
  or broken the connection, what was written to it, whether it is closed and how often \<^verbatim>\<open>Close\<close> was called.
\<close>

record conn_end =
  sent :: bytes
  inbox :: bytes
  at_eof :: bool
  broken :: bool
  outbox :: bytes
  shut :: bool
  closes :: nat

text \<open>
  The goroutine that reads from an end and writes to the other one: inside \<^verbatim>\<open>io.Copy\<close> waiting for a read, or holding
  bytes to write; \<^verbatim>\<open>io.Copy\<close> has returned (on the end of the stream or on an error) and \<^verbatim>\<open>closeBoth\<close> is next; returned.
\<close>

datatype copier = Reading | Holding bytes | Ended bool | Returned bool

record pipe =
  ends :: "side \<Rightarrow> conn_end"
  copier :: "side \<Rightarrow> copier"
  once :: bool

definition copy_buffer :: nat where "copy_buffer = 32 * 1024"

definition dead :: "conn_end \<Rightarrow> bool" where
  "dead c = (shut c \<or> broken c)"

definition set_end :: "side \<Rightarrow> (conn_end \<Rightarrow> conn_end) \<Rightarrow> pipe \<Rightarrow> pipe" where
  "set_end x f p = p\<lparr>ends := (ends p)(x := f (ends p x))\<rparr>"

definition set_copier :: "side \<Rightarrow> copier \<Rightarrow> pipe \<Rightarrow> pipe" where
  "set_copier x c p = p\<lparr>copier := (copier p)(x := c)\<rparr>"

definition close_end :: "conn_end \<Rightarrow> conn_end" where
  "close_end c = c\<lparr>shut := True, closes := Suc (closes c)\<rparr>"

definition closeBoth :: "pipe \<Rightarrow> pipe" where
  "closeBoth p = (if once p then p else p\<lparr>ends := (\<lambda>x. close_end (ends p x)), once := True\<rparr>)"

definition write_to :: "bytes \<Rightarrow> conn_end \<Rightarrow> conn_end" where
  "write_to bs c = c\<lparr>outbox := outbox c @ bs\<rparr>"

text \<open>The two peers.\<close>

inductive peer_step :: "pipe \<Rightarrow> pipe \<Rightarrow> bool" where
  peer_send: "\<not> at_eof (ends p x) \<Longrightarrow> peer_step p (set_end x (\<lambda>c. c\<lparr>sent := sent c @ bs, inbox := inbox c @ bs\<rparr>) p)"
| peer_eof: "peer_step p (set_end x (at_eof_update (\<lambda>_. True)) p)"
| peer_break: "peer_step p (set_end x (broken_update (\<lambda>_. True)) p)"

text \<open>The two goroutines; a write that fails may have written a part.\<close>

inductive pipe_step :: "pipe \<Rightarrow> pipe \<Rightarrow> bool" where
  copy_read: "copier p x = Reading \<Longrightarrow> \<not> dead (ends p x) \<Longrightarrow> inbox (ends p x) = bs @ rest \<Longrightarrow> bs \<noteq> [] \<Longrightarrow> length bs \<le> copy_buffer \<Longrightarrow>
    pipe_step p (set_copier x (Holding bs) (set_end x (inbox_update (\<lambda>_. rest)) p))"
| copy_eof: "copier p x = Reading \<Longrightarrow> \<not> dead (ends p x) \<Longrightarrow> inbox (ends p x) = [] \<Longrightarrow> at_eof (ends p x) \<Longrightarrow>
    pipe_step p (set_copier x (Ended True) p)"
| copy_read_error: "copier p x = Reading \<Longrightarrow> dead (ends p x) \<Longrightarrow> pipe_step p (set_copier x (Ended False) p)"
| copy_write: "copier p x = Holding bs \<Longrightarrow> \<not> dead (ends p (other x)) \<Longrightarrow>
    pipe_step p (set_copier x Reading (set_end (other x) (write_to bs) p))"
| copy_write_error: "copier p x = Holding bs \<Longrightarrow> dead (ends p (other x)) \<Longrightarrow>
    pipe_step p (set_copier x (Ended False) (set_end (other x) (write_to (take n bs)) p))"
| copy_close: "copier p x = Ended clean \<Longrightarrow> pipe_step p (set_copier x (Returned clean) (closeBoth p))"

definition piping :: "pipe \<Rightarrow> pipe \<Rightarrow> bool" where
  "piping p q \<longleftrightarrow> peer_step p q \<or> pipe_step p q"

definition fresh_end :: conn_end where
  "fresh_end = \<lparr>sent = [], inbox = [], at_eof = False, broken = False, outbox = [], shut = False, closes = 0\<rparr>"

definition Pipe :: pipe where
  "Pipe = \<lparr>ends = (\<lambda>_. fresh_end), copier = (\<lambda>_. Reading), once = False\<rparr>"

definition pipe_returned :: "pipe \<Rightarrow> bool" where
  "pipe_returned p \<longleftrightarrow> (\<forall>x. \<exists>clean. copier p x = Returned clean)"

subsection \<open>Pipe: lemmas\<close>

lemma other_simps [simp]: "other x \<noteq> x" "x \<noteq> other x" "other (other x) = x" "other x = other y \<longleftrightarrow> x = y"
  by (cases x; cases y; simp)+

lemma set_end_sel [simp]:
  "ends (set_end x f p) y = (if y = x then f (ends p x) else ends p y)" "copier (set_end x f p) = copier p" "once (set_end x f p) = once p"
  "ends (set_copier x c p) = ends p" "copier (set_copier x c p) y = (if y = x then c else copier p y)" "once (set_copier x c p) = once p"
  by (simp_all add: set_end_def set_copier_def)

lemma closeBoth_sel [simp]:
  "ends (closeBoth p) y = (if once p then ends p y else close_end (ends p y))" "copier (closeBoth p) = copier p" "once (closeBoth p)"
  by (simp_all add: closeBoth_def)

lemma write_to_sel [simp]:
  "sent (write_to bs c) = sent c" "inbox (write_to bs c) = inbox c" "at_eof (write_to bs c) = at_eof c" "broken (write_to bs c) = broken c"
  "outbox (write_to bs c) = outbox c @ bs" "shut (write_to bs c) = shut c" "closes (write_to bs c) = closes c"
  by (simp_all add: write_to_def)

lemma close_end_sel [simp]:
  "sent (close_end c) = sent c" "inbox (close_end c) = inbox c" "at_eof (close_end c) = at_eof c" "broken (close_end c) = broken c"
  "outbox (close_end c) = outbox c" "shut (close_end c)" "closes (close_end c) = Suc (closes c)"
  by (simp_all add: close_end_def)

text \<open>One direction: what is written, held and unread, in this order, is what was sent, until the goroutine ends.\<close>

definition direction_ok :: "pipe \<Rightarrow> side \<Rightarrow> bool" where
  "direction_ok p x \<longleftrightarrow>
     (let c = ends p x; out = outbox (ends p (other x)) in
      case copier p x of
        Reading \<Rightarrow> sent c = out @ inbox c
      | Holding bs \<Rightarrow> sent c = out @ bs @ inbox c
      | Ended clean \<Rightarrow> prefix out (sent c) \<and> (clean \<longrightarrow> at_eof c \<and> out = sent c)
      | Returned clean \<Rightarrow> prefix out (sent c) \<and> (clean \<longrightarrow> at_eof c \<and> out = sent c) \<and> once p)"

definition closing_ok :: "pipe \<Rightarrow> bool" where
  "closing_ok p \<longleftrightarrow> (\<forall>x. shut (ends p x) = once p \<and> closes (ends p x) = (if once p then 1 else 0))"

definition pipe_inv :: "pipe \<Rightarrow> bool" where
  "pipe_inv p \<longleftrightarrow> (\<forall>x. direction_ok p x) \<and> closing_ok p"

lemma pipe_inv_start: "pipe_inv Pipe"
  by (simp add: pipe_inv_def direction_ok_def closing_ok_def Pipe_def fresh_end_def)

lemma direction_peer: "peer_step p q \<Longrightarrow> direction_ok p y \<Longrightarrow> direction_ok q y"
  by (induction rule: peer_step.induct)
    (auto simp: direction_ok_def Let_def split: copier.splits intro: prefix_prefix)

lemma direction_step: "pipe_step p q \<Longrightarrow> direction_ok p y \<Longrightarrow> direction_ok q y"
proof (induction rule: pipe_step.induct)
  case (copy_write_error p x bs n)
  then show ?case
    by (cases "y = x"; cases "y = other x")
      (auto simp: direction_ok_def Let_def prefix_def split: copier.splits, metis append_take_drop_id append.assoc)
qed (auto simp: direction_ok_def Let_def prefix_def split: copier.splits if_splits)

lemma closing_preserved: "piping p q \<Longrightarrow> closing_ok p \<Longrightarrow> closing_ok q"
  unfolding piping_def closing_ok_def by (auto elim!: peer_step.cases pipe_step.cases split: if_splits)

lemma pipe_inv_reach: "piping\<^sup>*\<^sup>* Pipe p \<Longrightarrow> pipe_inv p"
proof (induction rule: rtranclp_induct)
  case (step p q)
  then show ?case
    using closing_preserved direction_peer direction_step unfolding pipe_inv_def piping_def by blast
qed (rule pipe_inv_start)

text \<open>How many own steps a goroutine has left once the ends are closed.\<close>

fun steps_left :: "copier \<Rightarrow> nat" where
  "steps_left (Returned _) = 0"
| "steps_left (Ended _) = 1"
| "steps_left _ = 2"

definition pipe_steps_left :: "pipe \<Rightarrow> nat" where
  "pipe_steps_left p = steps_left (copier p A) + steps_left (copier p B)"

lemma steps_left_dec:
  assumes "pipe_step p q" "closing_ok p" "once p"
  shows "once q" "pipe_steps_left q < pipe_steps_left p"
proof -
  have d: "dead (ends p x)" for x using assms(2,3) by (simp add: closing_ok_def dead_def)
  have "once q \<and> pipe_steps_left q < pipe_steps_left p"
    using assms(1)
  proof cases
    case (copy_read_error x)
    then show ?thesis using assms(3) by (cases x) (simp_all add: pipe_steps_left_def)
  next
    case (copy_write_error x bs n)
    then show ?thesis using assms(3) by (cases x) (simp_all add: pipe_steps_left_def)
  next
    case (copy_close x clean)
    then show ?thesis using assms(3) by (cases x) (simp_all add: pipe_steps_left_def)
  qed (use d in auto)
  then show "once q" "pipe_steps_left q < pipe_steps_left p" by blast+
qed


text \<open>A goroutine that cannot move waits for its peer.\<close>

lemma waits_for_peer:
  assumes "\<not> (\<exists>q. pipe_step p q)"
  shows "(\<exists>clean. copier p x = Returned clean) \<or>
    copier p x = Reading \<and> \<not> dead (ends p x) \<and> inbox (ends p x) = [] \<and> \<not> at_eof (ends p x)"
proof (cases "copier p x")
  case Reading
  have "\<exists>q. pipe_step p q" if "\<not> dead (ends p x)" "inbox (ends p x) \<noteq> []"
  proof -
    have "inbox (ends p x) = [hd (inbox (ends p x))] @ tl (inbox (ends p x))" using that(2) by simp
    from copy_read[OF Reading that(1) this] show ?thesis by (auto simp: copy_buffer_def)
  qed
  then show ?thesis using Reading assms copy_eof copy_read_error by blast
next
  case (Holding bs)
  then show ?thesis using assms copy_write copy_write_error by blast
next
  case (Ended clean)
  then show ?thesis using assms copy_close by blast
qed simp

lemma returned_once: "direction_ok p x \<Longrightarrow> copier p x = Returned clean \<Longrightarrow> once p"
  by (simp add: direction_ok_def Let_def)

lemma pipe_stuck:
  assumes "pipe_inv p" "\<not> (\<exists>q. pipe_step p q)"
  shows "pipe_returned p \<or>
    (\<forall>x. copier p x = Reading \<and> \<not> dead (ends p x) \<and> inbox (ends p x) = [] \<and> \<not> at_eof (ends p x))"
proof (cases "once p")
  case True
  then have "dead (ends p x)" for x using assms(1) by (simp add: pipe_inv_def closing_ok_def dead_def)
  then show ?thesis using waits_for_peer[OF assms(2)] by (auto simp: pipe_returned_def)
next
  case False
  have "direction_ok p x" for x using assms(1) by (simp add: pipe_inv_def)
  then have "copier p x \<noteq> Returned clean" for x clean using False returned_once by blast
  then show ?thesis using waits_for_peer[OF assms(2)] by blast
qed

lemma pipe_step_closing: "pipe_step p q \<Longrightarrow> closing_ok p \<Longrightarrow> closing_ok q"
  using closing_preserved[of p q] by (simp add: piping_def)

lemma closed_stays: "(pipe_step ^^ n) p q \<Longrightarrow> closing_ok p \<Longrightarrow> once p \<Longrightarrow> closing_ok q \<and> once q"
proof (induction n arbitrary: q)
  case (Suc n)
  then obtain r where "(pipe_step ^^ n) p r" "pipe_step r q" by auto
  then show ?case using Suc pipe_step_closing steps_left_dec(1) by blast
qed auto

lemma closed_steps_bound:
  "(pipe_step ^^ n) p q \<Longrightarrow> closing_ok p \<Longrightarrow> once p \<Longrightarrow> n + pipe_steps_left q \<le> pipe_steps_left p"
proof (induction n arbitrary: q)
  case (Suc n)
  then obtain r where r: "(pipe_step ^^ n) p r" "pipe_step r q" by auto
  then show ?case using Suc.IH[OF r(1)] Suc.prems closed_stays[OF r(1)] steps_left_dec(2)[OF r(2)] by auto
qed simp

subsection \<open>The connection listener\<close>

text \<open>
  Connections blocked in \<^verbatim>\<open>push\<close>, the number of blocked \<^verbatim>\<open>Accept\<close> calls, what was handed over, what \<^verbatim>\<open>push\<close> closed, the
  \<^verbatim>\<open>Accept\<close> calls that failed, and all connections ever pushed.
\<close>

record 'c connListener =
  pushing :: "'c list"
  accepting :: nat
  handed :: "'c list"
  refused :: "'c list"
  failed :: nat
  is_closed :: bool
  pushed :: "'c list"

definition newConnListener :: "'c connListener" where
  "newConnListener = \<lparr>pushing = [], accepting = 0, handed = [], refused = [], failed = 0, is_closed = False, pushed = []\<rparr>"

definition call_push :: "'c \<Rightarrow> 'c connListener \<Rightarrow> 'c connListener" where
  "call_push c l = l\<lparr>pushing := pushing l @ [c], pushed := pushed l @ [c]\<rparr>"

definition call_Accept :: "'c connListener \<Rightarrow> 'c connListener" where
  "call_Accept l = l\<lparr>accepting := Suc (accepting l)\<rparr>"

definition listener_Close :: "'c connListener \<Rightarrow> 'c connListener" where
  "listener_Close l = l\<lparr>is_closed := True\<rparr>"

text \<open>The outcomes of the two selects: a hand-over, and the closed channel on either side.\<close>

definition hand_over :: "'c \<Rightarrow> 'c connListener \<Rightarrow> 'c connListener" where
  "hand_over c l = l\<lparr>pushing := remove1 c (pushing l), accepting := accepting l - 1, handed := handed l @ [c]\<rparr>"

definition push_closed :: "'c \<Rightarrow> 'c connListener \<Rightarrow> 'c connListener" where
  "push_closed c l = l\<lparr>pushing := remove1 c (pushing l), refused := refused l @ [c]\<rparr>"

definition accept_closed :: "'c connListener \<Rightarrow> 'c connListener" where
  "accept_closed l = l\<lparr>accepting := accepting l - 1, failed := Suc (failed l)\<rparr>"

inductive select_step :: "'c connListener \<Rightarrow> 'c connListener \<Rightarrow> bool" where
  hand: "c \<in> set (pushing l) \<Longrightarrow> 0 < accepting l \<Longrightarrow> select_step l (hand_over c l)"
| push_gone: "c \<in> set (pushing l) \<Longrightarrow> is_closed l \<Longrightarrow> select_step l (push_closed c l)"
| accept_gone: "0 < accepting l \<Longrightarrow> is_closed l \<Longrightarrow> select_step l (accept_closed l)"

inductive listener_step :: "'c connListener \<Rightarrow> 'c connListener \<Rightarrow> bool" where
  do_push: "listener_step l (call_push c l)"
| do_accept: "listener_step l (call_Accept l)"
| do_close: "listener_step l (listener_Close l)"
| do_select: "select_step l m \<Longrightarrow> listener_step l m"

inductive_cases select_cases: "select_step l m"

lemmas listener_ops = call_push_def call_Accept_def listener_Close_def hand_over_def push_closed_def accept_closed_def

definition listener_inv :: "'c connListener \<Rightarrow> bool" where
  "listener_inv l \<longleftrightarrow>
     mset (pushed l) = mset (pushing l) + mset (handed l) + mset (refused l) \<and>
     (refused l \<noteq> [] \<or> 0 < failed l \<longrightarrow> is_closed l)"

lemma listener_inv_step: "listener_step l m \<Longrightarrow> listener_inv l \<Longrightarrow> listener_inv m"
  by (induction rule: listener_step.induct) (auto simp: listener_ops listener_inv_def elim!: select_cases)

lemma listener_inv_reach: "listener_step\<^sup>*\<^sup>* newConnListener l \<Longrightarrow> listener_inv l"
proof (induction rule: rtranclp_induct)
  case base
  then show ?case by (simp add: newConnListener_def listener_inv_def)
qed (rule listener_inv_step)

subsection \<open>Properties\<close>



text \<open>A peer that sends one byte and ends its stream, and the other one answering too late.\<close>

definition half_closed :: "byte \<Rightarrow> pipe" where
  "half_closed b = set_end A (at_eof_update (\<lambda>_. True)) (set_end A (\<lambda>c. c\<lparr>sent := sent c @ [b], inbox := inbox c @ [b]\<rparr>) Pipe)"

definition forwarded :: "byte \<Rightarrow> pipe" where
  "forwarded b = set_copier A Reading (set_end B (write_to [b])
     (set_copier A (Holding [b]) (set_end A (inbox_update (\<lambda>_. [])) (half_closed b))))"

definition shut_down :: "byte \<Rightarrow> pipe" where
  "shut_down b = set_copier A (Returned True) (closeBoth (set_copier A (Ended True) (forwarded b)))"

lemma half_closed_reach: "piping\<^sup>*\<^sup>* Pipe (half_closed b)"
proof -
  let ?p = "set_end A (\<lambda>c. c\<lparr>sent := sent c @ [b], inbox := inbox c @ [b]\<rparr>) Pipe"
  have "piping Pipe ?p" unfolding piping_def by (intro disjI1 peer_send) (simp add: Pipe_def fresh_end_def)
  moreover have "piping ?p (half_closed b)" unfolding piping_def half_closed_def by (intro disjI1 peer_eof)
  ultimately show ?thesis by (meson rtranclp.rtrancl_refl rtranclp.rtrancl_into_rtrancl)
qed

lemma forwarded_reach: "piping\<^sup>*\<^sup>* Pipe (forwarded b)"
proof -
  let ?p = "set_copier A (Holding [b]) (set_end A (inbox_update (\<lambda>_. [])) (half_closed b))"
  have "piping (half_closed b) ?p"
    unfolding piping_def by (intro disjI2 copy_read) (simp_all add: half_closed_def Pipe_def fresh_end_def dead_def copy_buffer_def)
  moreover have "pipe_step ?p (set_copier A Reading (set_end (other A) (write_to [b]) ?p))"
    by (intro copy_write) (simp_all add: half_closed_def Pipe_def fresh_end_def dead_def)
  then have "piping ?p (forwarded b)" by (simp add: piping_def forwarded_def)
  ultimately show ?thesis using half_closed_reach by (meson rtranclp.rtrancl_into_rtrancl)
qed

lemma shut_down_reach: "piping\<^sup>*\<^sup>* Pipe (shut_down b)"
proof -
  let ?p = "set_copier A (Ended True) (forwarded b)"
  have "piping (forwarded b) ?p"
    unfolding piping_def by (intro disjI2 copy_eof) (simp_all add: forwarded_def half_closed_def Pipe_def fresh_end_def dead_def)
  moreover have "piping ?p (shut_down b)" unfolding piping_def shut_down_def by (intro disjI2 copy_close) simp
  ultimately show ?thesis using forwarded_reach by (meson rtranclp.rtrancl_into_rtrancl)
qed



text \<open>
  A half-closed connection loses its answer: when a peer sends its request and ends its stream, \<^verbatim>\<open>Pipe\<close> can deliver the
  request, close both ends and return without writing anything of any answer the other side then sends.
\<close>

theorem half_close_loses_answer:
  "\<exists>p. piping\<^sup>*\<^sup>* Pipe p \<and> pipe_returned p \<and> sent (ends p A) = [b] \<and> \<not> broken (ends p A) \<and> outbox (ends p B) = [b] \<and>
     sent (ends p B) = answer \<and> \<not> broken (ends p B) \<and> outbox (ends p A) = []"
proof -
  let ?p = "set_end B (\<lambda>c. c\<lparr>sent := sent c @ answer, inbox := inbox c @ answer\<rparr>) (shut_down b)"
  let ?q = "set_copier B (Ended False) ?p"
  let ?r = "set_copier B (Returned False) (closeBoth ?q)"
  note defs = shut_down_def forwarded_def half_closed_def Pipe_def fresh_end_def
  have "piping (shut_down b) ?p" unfolding piping_def by (intro disjI1 peer_send) (simp add: defs)
  moreover have "piping ?p ?q" unfolding piping_def by (intro disjI2 copy_read_error) (simp_all add: defs dead_def)
  moreover have "piping ?q ?r" unfolding piping_def by (intro disjI2 copy_close) simp
  ultimately have "piping\<^sup>*\<^sup>* Pipe ?r" using shut_down_reach by (meson rtranclp.rtrancl_into_rtrancl)
  moreover have "pipe_returned ?r" unfolding pipe_returned_def
  proof
    fix x show "\<exists>clean. copier ?r x = Returned clean" by (cases x) (auto simp: defs)
  qed
  ultimately show ?thesis by (intro exI[of _ ?r]) (simp add: defs)
qed

text \<open>
  The listener between the router and the publish server loses no connection: each one pushed is waiting, handed to the
  server or closed, in all exactly as often as it was pushed; one is closed and an \<^verbatim>\<open>Accept\<close> fails only after \<^verbatim>\<open>Close\<close>, and then
  nothing that waits is stuck; before it, a waiting connection and a waiting \<^verbatim>\<open>Accept\<close> always meet.
\<close>

theorem listener_loses_nothing:
  assumes "listener_step\<^sup>*\<^sup>* newConnListener l"
  shows "mset (pushed l) = mset (pushing l) + mset (handed l) + mset (refused l) \<and>
    (refused l \<noteq> [] \<or> 0 < failed l \<longrightarrow> is_closed l) \<and>
    (is_closed l \<and> (pushing l \<noteq> [] \<or> 0 < accepting l) \<longrightarrow> (\<exists>m. select_step l m)) \<and>
    (pushing l \<noteq> [] \<and> 0 < accepting l \<longrightarrow> (\<exists>m. select_step l m \<and> hd (pushing l) \<in> set (handed m)))"
proof -
  have "select_step l (hand_over (hd (pushing l)) l) \<and> hd (pushing l) \<in> set (handed (hand_over (hd (pushing l)) l))"
    if "pushing l \<noteq> []" "0 < accepting l"
    using that hand[of "hd (pushing l)" l] by (simp add: hand_over_def)
  moreover have "\<exists>m. select_step l m" if "is_closed l" "pushing l \<noteq> [] \<or> 0 < accepting l"
    using that push_gone[of "hd (pushing l)" l] accept_gone[of l] by auto
  ultimately show ?thesis using listener_inv_reach[OF assms] unfolding listener_inv_def by blast
qed

theorem listener_loses_nothing_witness:
  "\<exists>m. select_step (listener_Close (call_push (5 :: nat) newConnListener)) m"
proof -
  have "listener_step newConnListener (call_push (5 :: nat) newConnListener)"
    "listener_step (call_push (5 :: nat) newConnListener) (listener_Close (call_push 5 newConnListener))"
    by (rule do_push do_close)+
  then have "listener_step\<^sup>*\<^sup>* newConnListener (listener_Close (call_push (5 :: nat) newConnListener))"
    by (meson rtranclp.rtrancl_refl rtranclp.rtrancl_into_rtrancl)
  from listener_loses_nothing[OF this] show ?thesis by (simp add: listener_ops newConnListener_def)
qed

end
