(* ===== verification/DataPlane.thy ===== *)
theory DataPlane
  imports L2Switch
begin

text \<open>
  The L2 tunnel as a whole: the switch of the server's hub with its TAP port and the pumps of \<^verbatim>\<open>TunHub.ServeClient\<close>
  (\<^verbatim>\<open>internal/control/tunhub.go\<close>), and on each client the node of \<^verbatim>\<open>StartClient\<close> (\<^verbatim>\<open>internal/l2/clientnode.go\<close>) with its own switch, an
  uplink port and a TAP port. Each client's data stream is two byte queues; the pumps of all parts interleave, one packet
  at a time. A port's \<^verbatim>\<open>send\<close> closure writes to the device or the stream it captured. The UDP endpoint is left out here.
\<close>

subsection \<open>State\<close>

record l2_node =
  nsw :: switch
  n_uplink :: port
  n_tap :: port

datatype site = HubTap | NodeTap nat

datatype attachment = Waiting | Attached port | Detached

text \<open>
  Streams are numbered in the order they are opened. \<open>stream_of\<close> is the stream that the closure of a hub port captured; \<open>tap_in\<close> and
  \<open>tap_out\<close> are all frames read from and written to a TAP device.
\<close>

record plane =
  psw :: switch
  ptap :: port
  clients_at :: "nat \<Rightarrow> attachment"
  stream_of :: "port \<rightharpoonup> nat"
  pnodes :: "nat \<rightharpoonup> l2_node"
  up :: "nat \<Rightarrow> bytes"
  down :: "nat \<Rightarrow> bytes"
  tap_in :: "site \<Rightarrow> bytes list"
  tap_out :: "site \<Rightarrow> bytes list"
  opened :: nat

definition plain :: "string \<Rightarrow> port_config" where
  "plain nm = \<lparr>cfg_name = nm, cfg_allowedV4 = [], cfg_allowedV6 = []\<rparr>"

definition start_plane :: "bool \<Rightarrow> string \<Rightarrow> plane" where
  "start_plane hook dev =
     (let (t, s) = AddPort (plain (''tap:'' @ dev)) (switch_New hook)
      in \<lparr>psw = s, ptap = t, clients_at = (\<lambda>_. Waiting), stream_of = Map.empty, pnodes = Map.empty, up = (\<lambda>_. []), down = (\<lambda>_. []),
          tap_in = (\<lambda>_. []), tap_out = (\<lambda>_. []), opened = 0\<rparr>)"

subsection \<open>Sending\<close>

text \<open>The \<^verbatim>\<open>send\<close> of a carrier port: one packet into the stream; a frame that cannot be framed is only logged.\<close>

definition stream_send :: "bytes \<Rightarrow> bytes \<Rightarrow> bytes" where
  "stream_send w f = (case WritePacket w f of Inl _ \<Rightarrow> w | Inr w' \<Rightarrow> w')"

definition hub_send :: "port \<times> bytes \<Rightarrow> plane \<Rightarrow> plane" where
  "hub_send = (\<lambda>(q, f) n.
     if q = ptap n then n\<lparr>tap_out := (tap_out n)(HubTap := tap_out n HubTap @ [f])\<rparr>
     else case stream_of n q of
            None \<Rightarrow> n
          | Some j \<Rightarrow> n\<lparr>down := (down n)(j := stream_send (down n j) f)\<rparr>)"

definition node_send :: "nat \<Rightarrow> l2_node \<Rightarrow> port \<times> bytes \<Rightarrow> plane \<Rightarrow> plane" where
  "node_send i d = (\<lambda>(q, f) n.
     if q = n_tap d then n\<lparr>tap_out := (tap_out n)(NodeTap i := tap_out n (NodeTap i) @ [f])\<rparr>
     else if q = n_uplink d then n\<lparr>up := (up n)(i := stream_send (up n i) f)\<rparr>
     else n)"

definition hub_inject :: "port \<Rightarrow> bytes \<Rightarrow> plane \<Rightarrow> plane" where
  "hub_inject p f n = (let (s, out, _) = Inject p f (psw n) in fold hub_send out (n\<lparr>psw := s\<rparr>))"

definition node_inject :: "nat \<Rightarrow> l2_node \<Rightarrow> port \<Rightarrow> bytes \<Rightarrow> plane \<Rightarrow> plane" where
  "node_inject i d p f n =
     (let (s, out, _) = Inject p f (nsw d) in fold (node_send i d) out (n\<lparr>pnodes := (pnodes n)(i \<mapsto> d\<lparr>nsw := s\<rparr>)\<rparr>))"

subsection \<open>The turns of the goroutines\<close>

definition start_node :: "string \<Rightarrow> l2_node" where
  "start_node dev =
     (let (u, s1) = AddPort (plain ''uplink'') (switch_New False);
          (t, s2) = AddPort (plain (''tap:'' @ dev)) s1
      in \<lparr>nsw = s2, n_uplink = u, n_tap = t\<rparr>)"

definition open_node :: "string \<Rightarrow> plane \<Rightarrow> plane" where
  "open_node dev n = n\<lparr>pnodes := (pnodes n)(opened n \<mapsto> start_node dev), opened := Suc (opened n)\<rparr>"

definition close_node :: "nat \<Rightarrow> plane \<Rightarrow> plane" where
  "close_node i n = n\<lparr>pnodes := (pnodes n)(i := None)\<rparr>"

definition attach :: "nat \<Rightarrow> string \<Rightarrow> plane \<Rightarrow> plane" where
  "attach i nm n =
     (let (p, s) = AddPort (plain (''client:'' @ nm)) (psw n)
      in n\<lparr>psw := s, clients_at := (clients_at n)(i := Attached p), stream_of := (stream_of n)(p \<mapsto> i)\<rparr>)"

definition detach :: "nat \<Rightarrow> port \<Rightarrow> plane \<Rightarrow> plane" where
  "detach i p n = n\<lparr>psw := RemovePort p (psw n), clients_at := (clients_at n)(i := Detached)\<rparr>"

text \<open>A frame read from a TAP device, and a packet read from a stream; a reader without a complete packet waits.\<close>

definition hub_tap_turn :: "bytes \<Rightarrow> plane \<Rightarrow> plane" where
  "hub_tap_turn f n = hub_inject (ptap n) f (n\<lparr>tap_in := (tap_in n)(HubTap := tap_in n HubTap @ [f])\<rparr>)"

definition node_tap_turn :: "nat \<Rightarrow> bytes \<Rightarrow> plane \<Rightarrow> plane" where
  "node_tap_turn i f n =
     (case pnodes n i of
        None \<Rightarrow> n
      | Some d \<Rightarrow> node_inject i d (n_tap d) f (n\<lparr>tap_in := (tap_in n)(NodeTap i := tap_in n (NodeTap i) @ [f])\<rparr>))"

definition hub_read_turn :: "nat \<Rightarrow> plane \<Rightarrow> plane" where
  "hub_read_turn i n =
     (case clients_at n i of
        Attached p \<Rightarrow>
          (case ReadPacket MaxEtherFrame (up n i) of
             Inl _ \<Rightarrow> n
           | Inr (f, rest) \<Rightarrow> hub_inject p f (n\<lparr>up := (up n)(i := rest)\<rparr>))
      | _ \<Rightarrow> n)"

definition uplink_turn :: "nat \<Rightarrow> plane \<Rightarrow> plane" where
  "uplink_turn i n =
     (case pnodes n i of
        None \<Rightarrow> n
      | Some d \<Rightarrow>
          (case ReadPacket MaxEtherFrame (down n i) of
             Inl _ \<Rightarrow> n
           | Inr (f, rest) \<Rightarrow> node_inject i d (n_uplink d) f (n\<lparr>down := (down n)(i := rest)\<rparr>)))"

text \<open>A stream may break at any time: then the node closes itself and the hub detaches the port.\<close>

inductive plane_step :: "plane \<Rightarrow> plane \<Rightarrow> bool" where
  step_open: "plane_step n (open_node dev n)"
| step_attach: "i < opened n \<Longrightarrow> clients_at n i = Waiting \<Longrightarrow> plane_step n (attach i nm n)"
| step_detach: "clients_at n i = Attached p \<Longrightarrow> plane_step n (detach i p n)"
| step_close: "plane_step n (close_node i n)"
| step_hub_tap: "length f \<le> MaxEtherFrame \<Longrightarrow> plane_step n (hub_tap_turn f n)"
| step_node_tap: "length f \<le> MaxEtherFrame \<Longrightarrow> plane_step n (node_tap_turn i f n)"
| step_hub_read: "plane_step n (hub_read_turn i n)"
| step_uplink: "plane_step n (uplink_turn i n)"

inductive_cases plane_step_cases: "plane_step n n'"

subsection \<open>Invariant\<close>

definition framed :: "bytes list \<Rightarrow> bytes" where
  "framed fs = concat (map (\<lambda>f. put_u16 (length f) @ f) fs)"

definition elsewhere :: "plane \<Rightarrow> site \<Rightarrow> bytes set" where
  "elsewhere n x = (\<Union>y \<in> - {x}. set (tap_in n y))"

definition carries_only :: "bytes set \<Rightarrow> bytes \<Rightarrow> bool" where
  "carries_only F w \<longleftrightarrow> (\<exists>fs. w = framed fs \<and> (\<forall>f \<in> set fs. packet_ok f \<and> f \<in> F))"

definition unfiltered :: "port \<Rightarrow> bool" where
  "unfiltered p \<longleftrightarrow> allowedV4 p = [] \<and> allowedV6 p = []"

definition node_ok :: "l2_node \<Rightarrow> bool" where
  "node_ok d \<longleftrightarrow> switch_inv (nsw d) \<and> set (ports (nsw d)) = {n_uplink d, n_tap d} \<and> n_uplink d \<noteq> n_tap d \<and>
     unfiltered (n_uplink d) \<and> unfiltered (n_tap d)"

definition hub_ok :: "plane \<Rightarrow> bool" where
  "hub_ok n \<longleftrightarrow> switch_inv (psw n) \<and> set (ports (psw n)) = insert (ptap n) {p. \<exists>i. clients_at n i = Attached p} \<and>
     (\<forall>i p. clients_at n i = Attached p \<longrightarrow> stream_of n p = Some i \<and> p \<noteq> ptap n) \<and> (\<forall>p \<in> set (ports (psw n)). unfiltered p)"

definition traffic_ok :: "plane \<Rightarrow> bool" where
  "traffic_ok n \<longleftrightarrow> (\<forall>i. carries_only (set (tap_in n (NodeTap i))) (up n i)) \<and>
     (\<forall>i. carries_only (elsewhere n (NodeTap i)) (down n i)) \<and> (\<forall>x. set (tap_out n x) \<subseteq> elsewhere n x)"

definition plane_inv :: "plane \<Rightarrow> bool" where
  "plane_inv n \<longleftrightarrow> hub_ok n \<and> (\<forall>i d. pnodes n i = Some d \<longrightarrow> node_ok d) \<and> traffic_ok n"


subsection \<open>Lemmas\<close>

lemma framed_simps: "framed [] = []" "framed (f # fs) = put_u16 (length f) @ f @ framed fs" "framed (fs @ gs) = framed fs @ framed gs"
  by (simp_all add: framed_def)

lemma framed_ne: "framed fs = [] \<longleftrightarrow> fs = []"
  by (cases fs) (auto simp: framed_simps put_u16_def)

lemma carries_only_nil [simp]: "carries_only F []"
  unfolding carries_only_def by (rule exI[of _ "[]"]) (simp add: framed_simps)

lemma carries_only_mono: "carries_only F w \<Longrightarrow> F \<subseteq> G \<Longrightarrow> carries_only G w"
  unfolding carries_only_def by blast

lemma carries_only_send:
  assumes "carries_only F w" "f \<in> F"
  shows "carries_only F (stream_send w f)"
proof (cases "packet_ok f")
  case True
  from assms(1) obtain fs where "w = framed fs" "\<forall>f \<in> set fs. packet_ok f \<and> f \<in> F" by (auto simp: carries_only_def)
  moreover from True have "stream_send w f = w @ put_u16 (length f) @ f"
    by (auto simp: stream_send_def WritePacket_def packet_ok_def)
  ultimately show ?thesis unfolding carries_only_def using True assms(2)
    by (intro exI[of _ "fs @ [f]"]) (simp add: framed_simps)
next
  case False
  then show ?thesis using assms(1) by (auto simp: stream_send_def WritePacket_def packet_ok_def)
qed

lemma carries_only_read:
  assumes "carries_only F w" "ReadPacket MaxEtherFrame w = Inr (f, rest)"
  shows "f \<in> F" "carries_only F rest"
proof -
  from assms(1) obtain fs where w: "w = framed fs" and fs: "\<forall>f \<in> set fs. packet_ok f \<and> f \<in> F" by (auto simp: carries_only_def)
  have "w \<noteq> []" using ReadPacket_shorter[OF assms(2)] by auto
  with w obtain g gs where g: "fs = g # gs" by (cases fs) (auto simp: framed_simps)
  with fs have "ReadPacket MaxEtherFrame w = Inr (g, framed gs)"
    using ReadPacket_WritePacket[of g MaxEtherFrame "framed gs"] by (simp add: w framed_simps packet_ok_def)
  with assms(2) have "g = f" "rest = framed gs" by simp_all
  with fs g show "f \<in> F" "carries_only F rest" by (auto simp: carries_only_def)
qed

lemma write_framed: "\<forall>f \<in> set fs. packet_ok f \<Longrightarrow> write_packets w fs = Inr (w @ framed fs)"
  by (induction fs arbitrary: w) (simp_all add: framed_simps WritePacket_Inr_iff[THEN iffD2])

lemma carries_only_packets:
  assumes "carries_only F w"
  shows "write_packets [] (read_packets w) = Inr w \<and> set (read_packets w) \<subseteq> F"
proof -
  obtain fs where w: "w = framed fs" "\<forall>f \<in> set fs. packet_ok f \<and> f \<in> F" using assms by (auto simp: carries_only_def)
  have "read_packets [] = []" by code_simp
  then have "read_packets w = fs" using packets.decode_all_encode[of fs "[]"] w by (simp add: framed_def)
  with w write_framed[of fs "[]"] show ?thesis by auto
qed

lemma hub_send_sel [simp]:
  "psw (hub_send x n) = psw n" "ptap (hub_send x n) = ptap n" "clients_at (hub_send x n) = clients_at n" "stream_of (hub_send x n) = stream_of n"
  "pnodes (hub_send x n) = pnodes n" "up (hub_send x n) = up n" "tap_in (hub_send x n) = tap_in n" "opened (hub_send x n) = opened n"
  by (simp_all add: hub_send_def split: prod.split option.split)

lemma node_send_sel [simp]:
  "psw (node_send i d x n) = psw n" "ptap (node_send i d x n) = ptap n" "clients_at (node_send i d x n) = clients_at n"
  "stream_of (node_send i d x n) = stream_of n" "pnodes (node_send i d x n) = pnodes n" "down (node_send i d x n) = down n"
  "tap_in (node_send i d x n) = tap_in n" "opened (node_send i d x n) = opened n"
  by (simp_all add: node_send_def split: prod.split)

lemma hub_ok_cong:
  "psw n = psw m \<Longrightarrow> ptap n = ptap m \<Longrightarrow> clients_at n = clients_at m \<Longrightarrow> stream_of n = stream_of m \<Longrightarrow> hub_ok n = hub_ok m"
  by (simp add: hub_ok_def)

lemma elsewhere_cong [simp]: "elsewhere (hub_send x n) = elsewhere n" "elsewhere (node_send i d x n) = elsewhere n"
  by (simp_all add: elsewhere_def fun_eq_iff)

text \<open>A hub port reaches one place only: the device of the hub, or the node at the other end of the stream.\<close>

definition port_site :: "plane \<Rightarrow> port \<Rightarrow> site option" where
  "port_site n q = (if q = ptap n then Some HubTap else map_option NodeTap (stream_of n q))"

lemma port_site_send [simp]: "port_site (hub_send x n) = port_site n"
  by (simp add: port_site_def fun_eq_iff)

lemma hub_send_traffic:
  assumes "traffic_ok n" "\<And>x. port_site n q = Some x \<Longrightarrow> f \<in> elsewhere n x"
  shows "traffic_ok (hub_send (q, f) n)"
proof -
  have "carries_only (elsewhere n (NodeTap j)) (stream_send (down n j) f)" if "q \<noteq> ptap n" "stream_of n q = Some j" for j
    using that assms(1) assms(2)[of "NodeTap j"] by (intro carries_only_send) (simp_all add: traffic_ok_def port_site_def)
  then show ?thesis
    using assms unfolding traffic_ok_def elsewhere_cong hub_send_sel
    by (auto simp: hub_send_def port_site_def split: option.splits)
qed

lemma hub_sends_traffic:
  assumes "traffic_ok n" "\<And>q g x. (q, g) \<in> set out \<Longrightarrow> port_site n q = Some x \<Longrightarrow> g \<in> elsewhere n x"
  shows "traffic_ok (fold hub_send out n)"
  using assms
proof (induction out arbitrary: n)
  case (Cons a out)
  obtain q g where a: "a = (q, g)" by fastforce
  have "traffic_ok (hub_send a n)" using Cons.prems unfolding a by (intro hub_send_traffic) auto
  from Cons.IH[OF this] show ?case using Cons.prems(2) by auto
qed simp

lemma fold_hub_send_sel [simp]:
  "psw (fold hub_send out n) = psw n" "ptap (fold hub_send out n) = ptap n" "clients_at (fold hub_send out n) = clients_at n"
  "stream_of (fold hub_send out n) = stream_of n" "pnodes (fold hub_send out n) = pnodes n"
  by (induction out arbitrary: n) simp_all

lemma fold_node_send_sel [simp]:
  "psw (fold (node_send i d) out n) = psw n" "ptap (fold (node_send i d) out n) = ptap n" "clients_at (fold (node_send i d) out n) = clients_at n"
  "stream_of (fold (node_send i d) out n) = stream_of n" "pnodes (fold (node_send i d) out n) = pnodes n"
  by (induction out arbitrary: n) simp_all

lemma traffic_cong:
  "up n = up m \<Longrightarrow> down n = down m \<Longrightarrow> tap_in n = tap_in m \<Longrightarrow> tap_out n = tap_out m \<Longrightarrow> traffic_ok n = traffic_ok m"
  by (simp add: traffic_ok_def elsewhere_def)

lemma hub_inject_inv:
  assumes inv: "plane_inv n" and p: "p \<in> set (ports (psw n))"
    and f: "\<And>q x. q \<in> set (ports (psw n)) \<Longrightarrow> q \<noteq> p \<Longrightarrow> port_site n q = Some x \<Longrightarrow> f \<in> elsewhere n x"
  shows "plane_inv (hub_inject p f n)"
proof -
  obtain s out hk where I: "Inject p f (psw n) = (s, out, hk)" by (metis prod_cases3)
  let ?n = "n\<lparr>psw := s\<rparr>"
  have sw: "switch_inv (psw n)" using inv by (simp add: plane_inv_def hub_ok_def)
  have s: "switch_inv s" "set (ports s) = set (ports (psw n))"
    using l2.inject_keeps[OF sw p, of f] I by simp_all
  have o: "q \<in> set (ports (psw n)) \<and> q \<noteq> p \<and> g = f" if "(q, g) \<in> set out" for q g
    using sends_of_attached[OF sw p, of q g f] I that by simp
  have "hub_ok ?n" using inv s by (simp add: plane_inv_def hub_ok_def)
  then have h: "hub_ok (fold hub_send out ?n)" by (subst hub_ok_cong[of _ ?n]) simp_all
  have "traffic_ok ?n" using inv traffic_cong[of ?n n] by (simp add: plane_inv_def)
  then have "traffic_ok (fold hub_send out ?n)"
  proof (rule hub_sends_traffic)
    fix q g x assume "(q, g) \<in> set out" "port_site ?n q = Some x"
    moreover have "port_site ?n q = port_site n q" "elsewhere ?n x = elsewhere n x" by (simp_all add: port_site_def elsewhere_def)
    ultimately show "g \<in> elsewhere ?n x" using o f by metis
  qed
  with h show ?thesis using inv by (simp add: hub_inject_def I plane_inv_def)
qed


text \<open>On a node a frame from one of the two ports can only go to the other one.\<close>

lemma node_sends:
  assumes "node_ok d" "p \<in> {n_uplink d, n_tap d}" "(q, g) \<in> set (sends_of p f (nsw d))"
  shows "g = f \<and> q \<noteq> p \<and> q \<in> {n_uplink d, n_tap d}"
  using sends_of_attached[of "nsw d" p q g f] assms by (auto simp: node_ok_def)

lemma node_send_traffic:
  assumes "traffic_ok n" "q = n_tap d \<Longrightarrow> f \<in> elsewhere n (NodeTap i)" "q \<noteq> n_tap d \<Longrightarrow> f \<in> set (tap_in n (NodeTap i))"
  shows "traffic_ok (node_send i d (q, f) n)"
proof -
  have "carries_only (set (tap_in n (NodeTap i))) (stream_send (up n i) f)" if "q \<noteq> n_tap d"
    using that assms(1,3) by (intro carries_only_send) (simp_all add: traffic_ok_def)
  then show ?thesis using assms unfolding traffic_ok_def elsewhere_cong node_send_sel by (auto simp: node_send_def)
qed

lemma node_sends_traffic:
  assumes "traffic_ok n" "\<And>q g. (q, g) \<in> set out \<Longrightarrow> (if q = n_tap d then g \<in> elsewhere n (NodeTap i) else g \<in> set (tap_in n (NodeTap i)))"
  shows "traffic_ok (fold (node_send i d) out n)"
  using assms
proof (induction out arbitrary: n)
  case (Cons a out)
  obtain q g where a: "a = (q, g)" by fastforce
  have "traffic_ok (node_send i d a n)" using Cons.prems(1) Cons.prems(2)[of q g] unfolding a by (intro node_send_traffic) auto
  then have "traffic_ok (fold (node_send i d) out (node_send i d a n))"
    by (rule Cons.IH) (unfold elsewhere_cong node_send_sel, rule Cons.prems(2), simp)
  then show ?case by simp
qed simp

lemma node_inject_inv:
  assumes inv: "plane_inv n" and d: "node_ok d" and p: "p \<in> {n_uplink d, n_tap d}"
    and f: "if p = n_tap d then f \<in> set (tap_in n (NodeTap i)) else f \<in> elsewhere n (NodeTap i)"
  shows "plane_inv (node_inject i d p f n)"
proof -
  obtain s out hk where I: "Inject p f (nsw d) = (s, out, hk)" by (metis prod_cases3)
  let ?n = "n\<lparr>pnodes := (pnodes n)(i \<mapsto> d\<lparr>nsw := s\<rparr>)\<rparr>"
  have pp: "p \<in> set (ports (nsw d))" "switch_inv (nsw d)" using d p by (auto simp: node_ok_def)
  have s: "node_ok (d\<lparr>nsw := s\<rparr>)" using l2.inject_keeps[OF pp(2,1), of f] I d by (simp add: node_ok_def)
  have "traffic_ok ?n" using inv traffic_cong[of ?n n] by (simp add: plane_inv_def)
  then have "traffic_ok (fold (node_send i d) out ?n)"
  proof (rule node_sends_traffic)
    fix q g assume "(q, g) \<in> set out"
    with node_sends[OF d p, of q g f] I have "g = f" "q \<noteq> p" "q \<in> {n_uplink d, n_tap d}" by simp_all
    moreover have "elsewhere ?n = elsewhere n" by (simp add: elsewhere_def fun_eq_iff)
    ultimately show "if q = n_tap d then g \<in> elsewhere ?n (NodeTap i) else g \<in> set (tap_in ?n (NodeTap i))"
      using f p d by (auto simp: node_ok_def split: if_splits)
  qed
  moreover have "hub_ok (fold (node_send i d) out ?n)" using inv by (subst hub_ok_cong[of _ n]) (simp_all add: plane_inv_def)
  ultimately show ?thesis using inv s by (auto simp: node_inject_def I plane_inv_def split: if_splits)
qed

text \<open>Recording a frame read from a device.\<close>

lemma tap_in_inv:
  assumes "plane_inv n"
  shows "plane_inv (n\<lparr>tap_in := (tap_in n)(x := tap_in n x @ [f])\<rparr>)" (is "plane_inv ?n")
proof -
  have e: "elsewhere n y \<subseteq> elsewhere ?n y" "set (tap_in n y) \<subseteq> set (tap_in ?n y)" for y by (auto simp: elsewhere_def)
  have "traffic_ok n" using assms by (simp add: plane_inv_def)
  then have t: "carries_only (set (tap_in n (NodeTap i))) (up n i)" "carries_only (elsewhere n (NodeTap i)) (down n i)"
      "set (tap_out n y) \<subseteq> elsewhere n y" for i y by (simp_all add: traffic_ok_def)
  have "traffic_ok ?n" unfolding traffic_ok_def
    using carries_only_mono[OF t(1) e(2)] carries_only_mono[OF t(2) e(1)] order.trans[OF t(3) e(1)] by simp
  moreover have "hub_ok ?n = hub_ok n" by (rule hub_ok_cong) simp_all
  ultimately show ?thesis using assms by (simp add: plane_inv_def)
qed

lemma AddPort_plain:
  assumes "AddPort (plain nm) s = (p, s')" "switch_inv s"
  shows "unfiltered p \<and> p \<notin> set (ports s) \<and> set (ports s') = insert p (set (ports s)) \<and> switch_inv s'"
  using assms l2.add_new[OF assms(2,1)] by (auto simp: AddPort_def plain_def unfiltered_def Let_def)

lemma start_node_ok: "node_ok (start_node dev)"
proof -
  obtain u s1 t s2 where a: "AddPort (plain ''uplink'') (switch_New False) = (u, s1)" "AddPort (plain (''tap:'' @ dev)) s1 = (t, s2)" by fastforce
  note 1 = AddPort_plain[OF a(1) switch_inv_New]
  note 2 = AddPort_plain[OF a(2)]
  have "start_node dev = \<lparr>nsw = s2, n_uplink = u, n_tap = t\<rparr>" unfolding start_node_def a by (simp only: prod.case Let_def a)
  moreover have "ports (switch_New False) = []" by (simp add: switch_New_def)
  ultimately show ?thesis using 1 2 by (auto simp: node_ok_def)
qed

lemma start_plane_inv: "plane_inv (start_plane hook dev)"
proof -
  obtain t s where a: "AddPort (plain (''tap:'' @ dev)) (switch_New hook) = (t, s)" by fastforce
  note AddPort_plain[OF a switch_inv_New]
  moreover have "ports (switch_New hook) = []" by (simp add: switch_New_def)
  ultimately show ?thesis unfolding start_plane_def a plane_inv_def hub_ok_def traffic_ok_def by simp
qed

lemma attach_hub_ok:
  assumes "hub_ok n" "clients_at n i = Waiting"
  shows "hub_ok (attach i nm n)"
proof -
  obtain p s where a: "AddPort (plain (''client:'' @ nm)) (psw n) = (p, s)" by fastforce
  have h: "switch_inv (psw n)" "set (ports (psw n)) = insert (ptap n) {p. \<exists>i. clients_at n i = Attached p}"
    "\<And>i p. clients_at n i = Attached p \<Longrightarrow> stream_of n p = Some i \<and> p \<noteq> ptap n" "\<forall>p \<in> set (ports (psw n)). unfiltered p"
    using assms(1) unfolding hub_ok_def by blast+
  note p = AddPort_plain[OF a h(1)]
  have at: "attach i nm n = n\<lparr>psw := s, clients_at := (clients_at n)(i := Attached p), stream_of := (stream_of n)(p \<mapsto> i)\<rparr>"
    unfolding attach_def a by simp
  have e: "{q. \<exists>j. ((clients_at n)(i := Attached p)) j = Attached q} = insert p {q. \<exists>j. clients_at n j = Attached q}" (is "?L = ?R")
  proof
    show "?L \<subseteq> ?R" by (auto split: if_splits)
    show "?R \<subseteq> ?L" using assms(2) by (force intro: exI[of _ i])
  qed
  have new: "p \<noteq> ptap n" "clients_at n j \<noteq> Attached p" for j using p h(2) by auto
  have st: "((stream_of n)(p \<mapsto> i)) q = Some j \<and> q \<noteq> ptap n" if "((clients_at n)(i := Attached p)) j = Attached q" for j q
    using that new h(3)[of j q] by (auto split: if_splits)
  show ?thesis unfolding at hub_ok_def using p h(2,4) e st by (simp add: insert_commute)
qed

lemma attached_inj:
  assumes "hub_ok n" "clients_at n i = Attached p" "clients_at n j = Attached p"
  shows "j = i"
proof -
  from assms have "stream_of n p = Some j" "stream_of n p = Some i" unfolding hub_ok_def by blast+
  then show ?thesis by simp
qed

lemma detach_hub_ok:
  assumes "hub_ok n" "clients_at n i = Attached p"
  shows "hub_ok (detach i p n)"
proof -
  have "switch_inv (psw n)" using assms(1) by (simp add: hub_ok_def)
  note g = l2.remove_gone[OF this, of p]
  have "{q. \<exists>j. ((clients_at n)(i := Detached)) j = Attached q} = {q. \<exists>j. clients_at n j = Attached q} - {p}" (is "?L = ?R")
  proof -
    have "q \<in> ?L" if "clients_at n j = Attached q" "q \<noteq> p" for j q
      using that assms(2) by (auto intro!: exI[of _ j])
    then have "?R \<subseteq> ?L" by blast
    moreover have "?L \<subseteq> ?R" using attached_inj[OF assms] by (auto split: if_splits)
    ultimately show ?thesis by blast
  qed
  moreover have "p \<noteq> ptap n" using assms by (simp add: hub_ok_def)
  ultimately show ?thesis using assms g unfolding hub_ok_def detach_def by (auto simp del: fun_upd_apply) (auto split: if_splits)
qed

lemma hub_tap_turn_inv:
  assumes "plane_inv n"
  shows "plane_inv (hub_tap_turn f n)"
proof -
  let ?n = "n\<lparr>tap_in := (tap_in n)(HubTap := tap_in n HubTap @ [f])\<rparr>"
  have i: "plane_inv ?n" using assms tap_in_inv by blast
  then have "ptap n \<in> set (ports (psw n))" by (simp add: plane_inv_def hub_ok_def)
  then show ?thesis unfolding hub_tap_turn_def
    by (intro hub_inject_inv[OF i]) (auto simp: port_site_def elsewhere_def)
qed

lemma node_tap_turn_inv:
  assumes "plane_inv n"
  shows "plane_inv (node_tap_turn i f n)"
proof (cases "pnodes n i")
  case (Some d)
  then have "node_ok d" using assms by (auto simp: plane_inv_def)
  from node_inject_inv[OF tap_in_inv[OF assms, of "NodeTap i" f] this, of "n_tap d" f i] show ?thesis
    by (simp add: node_tap_turn_def Some)
qed (use assms in \<open>simp add: node_tap_turn_def\<close>)

lemma port_site_attached: "hub_ok n \<Longrightarrow> clients_at n i = Attached p \<Longrightarrow> port_site n p = Some (NodeTap i)"
  by (simp add: hub_ok_def port_site_def)

lemma port_site_inj:
  assumes "hub_ok n" "p \<in> set (ports (psw n))" "q \<in> set (ports (psw n))" "port_site n p = port_site n q"
  shows "p = q"
proof -
  have "r = ptap n \<or> (\<exists>i. clients_at n i = Attached r \<and> stream_of n r = Some i)" if "r \<in> set (ports (psw n))" for r
    using that assms(1) unfolding hub_ok_def by blast
  from this[OF assms(2)] this[OF assms(3)] assms(4) show ?thesis by (auto simp: port_site_def split: if_splits)
qed

lemma hub_read_turn_inv:
  assumes "plane_inv n"
  shows "plane_inv (hub_read_turn i n)"
proof (cases "\<exists>p f rest. clients_at n i = Attached p \<and> ReadPacket MaxEtherFrame (up n i) = Inr (f, rest)")
  case True
  then obtain p f rest where p: "clients_at n i = Attached p" and r: "ReadPacket MaxEtherFrame (up n i) = Inr (f, rest)" by blast
  let ?n = "n\<lparr>up := (up n)(i := rest)\<rparr>"
  have c: "carries_only (set (tap_in n (NodeTap i))) (up n i)" using assms by (simp add: plane_inv_def traffic_ok_def)
  note f = carries_only_read[OF c r]
  have "hub_ok ?n = hub_ok n" by (rule hub_ok_cong) simp_all
  moreover have "elsewhere ?n = elsewhere n" by (simp add: elsewhere_def fun_eq_iff)
  ultimately have inv: "plane_inv ?n" using assms f(2) by (simp add: plane_inv_def traffic_ok_def)
  then have h: "hub_ok ?n" by (simp add: plane_inv_def)
  have pin: "p \<in> set (ports (psw ?n))" using h p by (auto simp: hub_ok_def)
  have ps: "port_site ?n p = Some (NodeTap i)" using port_site_attached[OF h] p by simp
  have "plane_inv (hub_inject p f ?n)"
  proof (rule hub_inject_inv[OF inv pin])
    fix q x assume "q \<in> set (ports (psw ?n))" "q \<noteq> p" "port_site ?n q = Some x"
    with port_site_inj[OF h, of q p] pin ps have "x \<noteq> NodeTap i" by metis
    with f(1) show "f \<in> elsewhere ?n x" by (auto simp: elsewhere_def)
  qed
  then show ?thesis by (simp add: hub_read_turn_def p r)
next
  case False
  then have "hub_read_turn i n = n" by (auto simp: hub_read_turn_def split: attachment.split sum.split)
  with assms show ?thesis by simp
qed

lemma uplink_turn_inv:
  assumes "plane_inv n"
  shows "plane_inv (uplink_turn i n)"
proof (cases "\<exists>d f rest. pnodes n i = Some d \<and> ReadPacket MaxEtherFrame (down n i) = Inr (f, rest)")
  case True
  then obtain d f rest where d: "pnodes n i = Some d" and r: "ReadPacket MaxEtherFrame (down n i) = Inr (f, rest)" by blast
  let ?n = "n\<lparr>down := (down n)(i := rest)\<rparr>"
  have c: "carries_only (elsewhere n (NodeTap i)) (down n i)" using assms by (simp add: plane_inv_def traffic_ok_def)
  note f = carries_only_read[OF c r]
  have e: "hub_ok ?n = hub_ok n" "elsewhere ?n = elsewhere n" by (rule hub_ok_cong) (simp_all add: elsewhere_def fun_eq_iff)
  then have inv: "plane_inv ?n" using assms f(2) by (simp add: plane_inv_def traffic_ok_def)
  have ok: "node_ok d" using d assms by (auto simp: plane_inv_def)
  then have "n_uplink d \<noteq> n_tap d" by (simp add: node_ok_def)
  then have "plane_inv (node_inject i d (n_uplink d) f ?n)" using e(2) f(1) by (intro node_inject_inv[OF inv ok]) simp_all
  then show ?thesis by (simp add: uplink_turn_def d r)
next
  case False
  then have "uplink_turn i n = n" by (auto simp: uplink_turn_def split: option.split sum.split)
  with assms show ?thesis by simp
qed

lemma plane_step_inv: "plane_step n n' \<Longrightarrow> plane_inv n \<Longrightarrow> plane_inv n'"
proof (induction rule: plane_step.induct)
  case (step_open n dev)
  have "hub_ok (open_node dev n) = hub_ok n" "traffic_ok (open_node dev n) = traffic_ok n"
    by (rule hub_ok_cong traffic_cong; simp add: open_node_def)+
  with step_open show ?case by (auto simp: plane_inv_def open_node_def start_node_ok split: if_splits)
next
  case (step_attach i n nm)
  have "traffic_ok (attach i nm n) = traffic_ok n" "pnodes (attach i nm n) = pnodes n"
    by (rule traffic_cong; simp add: attach_def split: prod.split) (simp add: attach_def split: prod.split)
  with step_attach show ?case by (simp add: plane_inv_def attach_hub_ok)
next
  case (step_detach n i p)
  have "traffic_ok (detach i p n) = traffic_ok n" by (rule traffic_cong) (simp_all add: detach_def)
  with step_detach show ?case by (simp add: plane_inv_def detach_hub_ok) (simp add: detach_def)
next
  case (step_close n i)
  have "hub_ok (close_node i n) = hub_ok n" "traffic_ok (close_node i n) = traffic_ok n"
    by (rule hub_ok_cong traffic_cong; simp add: close_node_def)+
  with step_close show ?case by (auto simp: plane_inv_def close_node_def split: if_splits)
qed (simp_all add: hub_tap_turn_inv node_tap_turn_inv hub_read_turn_inv uplink_turn_inv)

lemma plane_reach_inv: "plane_step\<^sup>*\<^sup>* (start_plane hook dev) n \<Longrightarrow> plane_inv n"
  by (induction rule: rtranclp_induct) (auto simp: start_plane_inv plane_step_inv)

subsection \<open>Delivery\<close>

lemma accepts_unfiltered: "unfiltered p \<Longrightarrow> accepts p f \<longleftrightarrow> 14 \<le> length f"
  by (simp add: accepts_def sourceAllowed_def unfiltered_def)

text \<open>A unicast frame to a known station, or to one that is not known where there is only one way on.\<close>

lemma known_unicast:
  assumes "unfiltered p" "14 \<le> length f" "\<not> is_group (slice 0 6 f)" "slice 0 6 f \<noteq> slice 6 12 f" "macs s (slice 0 6 f) = Some q" "q \<noteq> p"
  shows "Inject p f s = (learn p f s, [(q, f)], snd (snd (Inject p f s)))"
proof -
  have "sends_of p f s = [(q, f)]" "after_inject p f s = learn p f s"
    using assms by (auto simp: sends_of_eq after_inject_eq accepts_unfiltered learn_def Let_def)
  then show ?thesis by (metis prod.collapse)
qed

lemma distinct_single: "set xs = {x} \<Longrightarrow> distinct xs \<Longrightarrow> xs = [x]"
  by (cases xs; cases "tl xs") auto

lemma only_way:
  assumes "unfiltered p" "14 \<le> length f" "\<not> is_group (slice 0 6 f)" "slice 0 6 f \<noteq> slice 6 12 f" "macs s (slice 0 6 f) \<in> {None, Some q}"
    and "switch_inv s" "set (ports s) = {p, q}" "q \<noteq> p"
  shows "Inject p f s = (learn p f s, [(q, f)], snd (snd (Inject p f s)))"
proof (cases "macs s (slice 0 6 f)")
  case None
  have "set (filter (\<lambda>r. r \<noteq> p) (ports s)) = {q}" "distinct (filter (\<lambda>r. r \<noteq> p) (ports s))"
    using assms(6-8) by (auto simp: switch_inv_def)
  then have "filter (\<lambda>r. r \<noteq> p) (ports s) = [q]" by (rule distinct_single)
  then have "sends_of p f s = [(q, f)]" "after_inject p f s = learn p f s"
    using assms None by (auto simp: sends_of_eq after_inject_eq accepts_unfiltered learn_def Let_def flood_def)
  then show ?thesis by (metis prod.collapse)
next
  case (Some r)
  then show ?thesis using assms by (intro known_unicast) auto
qed


lemma stream_send_empty:
  assumes "packet_ok f"
  shows "stream_send [] f = framed [f]" "ReadPacket MaxEtherFrame (framed [f]) = Inr (f, [])"
  using ReadPacket_WritePacket[of f MaxEtherFrame "[]"] assms
  by (auto simp: stream_send_def WritePacket_def packet_ok_def framed_simps)

text \<open>The frame of a station behind node \<open>i\<close> to one behind node \<open>j\<close> finds its way.\<close>

definition route :: "plane \<Rightarrow> nat \<Rightarrow> nat \<Rightarrow> mac \<Rightarrow> bool" where
  "route n i j a =
     (case (pnodes n i, pnodes n j, clients_at n i, clients_at n j) of
        (Some di, Some dj, Attached p, Attached q) \<Rightarrow>
          macs (nsw di) a \<in> {None, Some (n_uplink di)} \<and> macs (psw n) a = Some q \<and> macs (nsw dj) a \<in> {None, Some (n_tap dj)}
      | _ \<Rightarrow> False)"

definition unicast_frame :: "bytes \<Rightarrow> bool" where
  "unicast_frame f \<longleftrightarrow> 14 \<le> length f \<and> length f \<le> MaxEtherFrame \<and> \<not> is_group (slice 0 6 f) \<and> slice 6 12 f ! 0 AND 1 = 0 \<and>
     slice 0 6 f \<noteq> slice 6 12 f"

lemma node_tap_forwards:
  assumes "pnodes n i = Some d" "node_ok d" "unicast_frame f" "macs (nsw d) (slice 0 6 f) \<in> {None, Some (n_uplink d)}" "up n i = []"
  shows "node_tap_turn i f n =
    n\<lparr>tap_in := (tap_in n)(NodeTap i := tap_in n (NodeTap i) @ [f]), pnodes := (pnodes n)(i \<mapsto> d\<lparr>nsw := learn (n_tap d) f (nsw d)\<rparr>),
      up := (up n)(i := framed [f])\<rparr>"
proof -
  have "Inject (n_tap d) f (nsw d) = (learn (n_tap d) f (nsw d), [(n_uplink d, f)], snd (snd (Inject (n_tap d) f (nsw d))))"
    using assms by (intro only_way) (auto simp: node_ok_def unicast_frame_def)
  then obtain hk where "Inject (n_tap d) f (nsw d) = (learn (n_tap d) f (nsw d), [(n_uplink d, f)], hk)" by blast
  moreover have "packet_ok f" using assms(3) by (auto simp: unicast_frame_def packet_ok_def)
  moreover have "n_uplink d \<noteq> n_tap d" using assms(2) by (simp add: node_ok_def)
  ultimately show ?thesis using assms(1,5) by (simp add: node_tap_turn_def node_inject_def node_send_def stream_send_empty)
qed

lemma hub_forwards:
  assumes "hub_ok n" "clients_at n i = Attached p" "clients_at n j = Attached q" "i \<noteq> j" "unicast_frame f"
    and "macs (psw n) (slice 0 6 f) = Some q" "up n i = framed [f]" "down n j = []"
  shows "hub_read_turn i n = n\<lparr>up := (up n)(i := []), psw := learn p f (psw n), down := (down n)(j := framed [f])\<rparr>"
proof -
  have pq: "q \<noteq> p" "q \<noteq> ptap n" "stream_of n q = Some j" "unfiltered p"
    using assms(1-4) attached_inj[OF assms(1), of i p j] by (auto simp: hub_ok_def)
  have "Inject p f (psw n) = (learn p f (psw n), [(q, f)], snd (snd (Inject p f (psw n))))"
    using assms pq by (intro known_unicast) (auto simp: unicast_frame_def)
  then obtain hk where "Inject p f (psw n) = (learn p f (psw n), [(q, f)], hk)" by blast
  moreover have "packet_ok f" using assms(5) by (auto simp: unicast_frame_def packet_ok_def)
  ultimately show ?thesis using assms(2,7,8) pq by (simp add: hub_read_turn_def hub_inject_def hub_send_def stream_send_empty)
qed

lemma uplink_delivers:
  assumes "pnodes n j = Some d" "node_ok d" "unicast_frame f" "macs (nsw d) (slice 0 6 f) \<in> {None, Some (n_tap d)}" "down n j = framed [f]"
  shows "uplink_turn j n =
    n\<lparr>down := (down n)(j := []), pnodes := (pnodes n)(j \<mapsto> d\<lparr>nsw := learn (n_uplink d) f (nsw d)\<rparr>),
      tap_out := (tap_out n)(NodeTap j := tap_out n (NodeTap j) @ [f])\<rparr>"
proof -
  have "Inject (n_uplink d) f (nsw d) = (learn (n_uplink d) f (nsw d), [(n_tap d, f)], snd (snd (Inject (n_uplink d) f (nsw d))))"
    using assms by (intro only_way) (auto simp: node_ok_def unicast_frame_def)
  then obtain hk where "Inject (n_uplink d) f (nsw d) = (learn (n_uplink d) f (nsw d), [(n_tap d, f)], hk)" by blast
  moreover have "packet_ok f" using assms(3) by (auto simp: unicast_frame_def packet_ok_def)
  ultimately show ?thesis using assms(1,5) by (simp add: uplink_turn_def node_inject_def node_send_def stream_send_empty)
qed

lemma learn_macs: "slice 6 12 f ! 0 AND 1 = 0 \<Longrightarrow> macs (learn p f s) = (macs s)(slice 6 12 f \<mapsto> p)"
  by (simp add: learn_def)

subsection \<open>Properties\<close>

text \<open>
  C12. The tunnel forges nothing and loops nothing: in every run, with clients that come and go and every interleaving of the pumps, a
  frame that is written to a TAP device was read, byte for byte, from another TAP device of the segment; never from
  the same one. The bytes in flight on a client's stream are always whole packets of such frames.
\<close>

theorem tap_frames_come_from_elsewhere:
  assumes "plane_step\<^sup>*\<^sup>* (start_plane hook dev) n" "f \<in> set (tap_out n x)"
  shows "(\<exists>y. y \<noteq> x \<and> f \<in> set (tap_in n y)) \<and>
    (\<forall>i. write_packets [] (read_packets (up n i)) = Inr (up n i) \<and> set (read_packets (up n i)) \<subseteq> set (tap_in n (NodeTap i))) \<and>
    (\<forall>i. write_packets [] (read_packets (down n i)) = Inr (down n i) \<and>
       set (read_packets (down n i)) \<subseteq> (\<Union>y \<in> - {NodeTap i}. set (tap_in n y)))"
proof -
  have t: "traffic_ok n" using plane_reach_inv[OF assms(1)] by (simp add: plane_inv_def)
  then have "f \<in> elsewhere n x" using assms(2) by (auto simp: traffic_ok_def)
  then have "\<exists>y. y \<noteq> x \<and> f \<in> set (tap_in n y)" by (auto simp: elsewhere_def)
  moreover have "carries_only (set (tap_in n (NodeTap i))) (up n i)" "carries_only (elsewhere n (NodeTap i)) (down n i)" for i
    using t by (simp_all add: traffic_ok_def)
  note carries_only_packets[OF this(1)] carries_only_packets[OF this(2)]
  ultimately show ?thesis by (simp add: elsewhere_def)
qed


text \<open>A server and two clients; a station behind the second one has spoken.\<close>

definition plane_ex :: plane where
  "plane_ex =
     uplink_turn 0 (hub_read_turn 1 (node_tap_turn 1 (wframe 255 11)
       (attach 1 ''b'' (attach 0 ''a'' (open_node ''t1'' (open_node ''t0'' (start_plane False ''tbox0'')))))))"

lemmas reach_step = rtranclp.rtrancl_into_rtrancl[of plane_step]

lemma plane_ex_reach: "plane_step\<^sup>*\<^sup>* (start_plane False ''tbox0'') plane_ex"
  unfolding plane_ex_def
  by (rule reach_step[OF _ step_uplink], rule reach_step[OF _ step_hub_read], rule reach_step[OF _ step_node_tap], rule reach_step[OF _ step_attach],
      rule reach_step[OF _ step_attach], rule reach_step[OF _ step_open], rule reach_step[OF _ step_open], rule rtranclp.rtrancl_refl) code_simp+

theorem tap_frames_come_from_elsewhere_witness:
  "\<exists>y. y \<noteq> HubTap \<and> wframe 255 11 \<in> set (tap_in plane_ex y)"
proof -
  have "wframe 255 11 \<in> set (tap_out plane_ex HubTap)" by code_simp
  from tap_frames_come_from_elsewhere[OF plane_ex_reach this] show ?thesis by blast
qed


end
