(* ===== verification/Ban.thy ===== *)
theory Ban
  imports Go_Netip "HOL-Library.AList"
begin

text \<open>
  \<^verbatim>\<open>internal/ban/ban.go\<close>: the failure throttle of the publishing path. The three maps are
  association lists, because the escalation counts the entries of one of them; their order
  stands for Go's unspecified iteration order. The injectable clock is the argument \<open>now\<close> of
  each operation, which is one atomic step under the mutex.
\<close>

subsection \<open>State\<close>

record config =
  Methods :: "string list"
  Statuses :: "int list"
  PathPrefix :: string
  Window :: time
  Threshold :: int
  BanDuration :: time
  SubnetThreshold :: int
  Exempt :: "prefix list"

record banner =
  cfg :: config
  methods :: "string \<Rightarrow> bool"
  statuses :: "int \<Rightarrow> bool"
  fails :: "(addr \<times> time list) list"
  bannedIP :: "(addr \<times> time) list"
  bannedNet :: "(prefix \<times> time) list"

definition New :: "config \<Rightarrow> banner" where
  "New c =
     \<lparr>cfg = c,
      methods = fold (\<lambda>m f. f(ToUpper m := True)) (Methods c) (\<lambda>_. False),
      statuses = fold (\<lambda>st f. f(st := True)) (Statuses c) (\<lambda>_. False),
      fails = [], bannedIP = [], bannedNet = []\<rparr>"

subsection \<open>Operations\<close>

text \<open>\<^verbatim>\<open>len(b.methods) > 0\<close> holds exactly when a method was configured.\<close>

definition Counts :: "banner \<Rightarrow> string \<Rightarrow> string \<Rightarrow> int \<Rightarrow> bool" where
  "Counts b method path status =
     (if \<not> statuses b status then False
      else if length (Methods (cfg b)) > 0 \<and> \<not> methods b (ToUpper method) then False
      else if PathPrefix (cfg b) \<noteq> '''' \<and> \<not> HasPrefix path (PathPrefix (cfg b)) then False
      else True)"

fun exempt_loop :: "prefix list \<Rightarrow> addr \<Rightarrow> bool" where
  "exempt_loop [] ip = False"
| "exempt_loop (p # ps) ip = (if Contains p ip then True else exempt_loop ps ip)"

definition isExempt :: "banner \<Rightarrow> addr \<Rightarrow> bool" where
  "isExempt b ip = exempt_loop (Exempt (cfg b)) ip"

definition subnet :: "addr \<Rightarrow> prefix option" where
  "subnet ip = (if \<not> Is4 ip then None else Some (addr_prefix 24 ip))"

definition pruneBefore :: "time list \<Rightarrow> time \<Rightarrow> time list" where
  "pruneBefore ts cutoff = dropWhile (\<lambda>t. \<not> t > cutoff) ts"

definition sweepLocked :: "time \<Rightarrow> banner \<Rightarrow> banner" where
  "sweepLocked now b =
     b\<lparr>bannedIP := filter (\<lambda>(_, until). now < until) (bannedIP b),
       bannedNet := filter (\<lambda>(_, until). now < until) (bannedNet b),
       fails := filter (\<lambda>(_, ts). \<not> (ts = [] \<or> \<not> last ts > now - Window (cfg b))) (fails b)\<rparr>"

text \<open>The two map tests of \<^verbatim>\<open>Blocked\<close>: a live entry answers, an expired one is deleted.\<close>

definition check_ban :: "time \<Rightarrow> 'k \<Rightarrow> ('k \<times> time) list \<Rightarrow> bool \<times> ('k \<times> time) list" where
  "check_ban now k m =
     (case map_of m k of
        None \<Rightarrow> (False, m)
      | Some until \<Rightarrow> if now < until then (True, m) else (False, AList.delete k m))"

definition Blocked :: "time \<Rightarrow> addr \<Rightarrow> banner \<Rightarrow> bool \<times> banner" where
  "Blocked now ip0 b =
     (let ip = Unmap ip0 in
      if isExempt b ip then (False, b)
      else let (hit, m) = check_ban now ip (bannedIP b); b1 = b\<lparr>bannedIP := m\<rparr> in
        if hit then (True, b1)
        else case subnet ip of
            None \<Rightarrow> (False, b1)
          | Some pfx \<Rightarrow>
              let (hit', m') = check_ban now pfx (bannedNet b1) in
              (hit', b1\<lparr>bannedNet := m'\<rparr>))"

definition prefix_string :: "prefix \<Rightarrow> string" where
  "prefix_string p =
     (case p of Prefix a n \<Rightarrow>
        (case a of Addr4 w \<Rightarrow> dotted (addr4_bytes w) | Addr6 w z \<Rightarrow> v6_string (addr6_bytes w))
          @ ''/'' @ Itoa n)"

definition live_in_subnet :: "time \<Rightarrow> prefix \<Rightarrow> (addr \<times> time) list \<Rightarrow> nat" where
  "live_in_subnet now pfx m =
     length (filter (\<lambda>(banned, until). now < until \<and> subnet banned = Some pfx) m)"

definition escalate :: "time \<Rightarrow> addr \<Rightarrow> banner \<Rightarrow> string \<times> banner" where
  "escalate now ip b =
     (if SubnetThreshold (cfg b) > 0 then
        (case subnet ip of
           None \<Rightarrow> ('''', b)
         | Some pfx \<Rightarrow>
             if map_of (bannedNet b) pfx \<noteq> None then ('''', b)
             else if int (live_in_subnet now pfx (bannedIP b)) \<ge> SubnetThreshold (cfg b)
               then (prefix_string pfx,
                     b\<lparr>bannedNet := AList.update pfx (now + BanDuration (cfg b)) (bannedNet b)\<rparr>)
             else ('''', b))
      else ('''', b))"

definition fail_times :: "banner \<Rightarrow> addr \<Rightarrow> time list" where
  "fail_times b ip = (case map_of (fails b) ip of None \<Rightarrow> [] | Some ts \<Rightarrow> ts)"

definition Fail :: "time \<Rightarrow> addr \<Rightarrow> banner \<Rightarrow> (bool \<times> string) \<times> banner" where
  "Fail now ip0 b0 =
     (let ip = Unmap ip0 in
      if isExempt b0 ip then ((False, ''''), b0)
      else
        let b = sweepLocked now b0;
            times = pruneBefore (fail_times b ip) (now - Window (cfg b)) @ [now];
            b1 = b\<lparr>fails := AList.update ip times (fails b)\<rparr>
        in if int (length times) < Threshold (cfg b) then ((False, ''''), b1)
           else let b2 = b1\<lparr>bannedIP := AList.update ip (now + BanDuration (cfg b)) (bannedIP b1),
                            fails := AList.delete ip (fails b1)\<rparr>;
                    (sub, b3) = escalate now ip b2
                in ((True, sub), b3))"

interpretation exempt: rule_list Contains exempt_loop
proof
  fix rs x
  show "exempt_loop rs x \<longleftrightarrow> (\<exists>r \<in> set rs. Contains r x)" by (induction rs) auto
qed

subsection \<open>Lemmas: the maps\<close>

lemma map_of_filter_val:
  "distinct (map fst m) \<Longrightarrow>
     map_of (filter (\<lambda>(_, v). P v) m) k = (case map_of m k of Some v \<Rightarrow> if P v then Some v else None | None \<Rightarrow> None)"
proof (induction m)
  case (Cons kv m)
  have "k \<notin> fst ` set m \<Longrightarrow> map_of (filter (\<lambda>(_, v). P v) m) k = None"
    by (auto simp: map_of_eq_None_iff)
  with Cons show ?case by (cases kv) (auto simp: map_of_eq_None_iff split: option.splits)
qed simp

lemma map_of_filter_subset:
  "map_of (filter (\<lambda>(_, v). P v) m) k = Some v \<Longrightarrow> distinct (map fst m) \<Longrightarrow> map_of m k = Some v"
  by (simp only: map_of_filter_val split: option.splits if_splits) simp

lemma distinct_filter_keys: "distinct (map fst m) \<Longrightarrow> distinct (map fst (filter P m))"
  by (induction m) auto

lemma map_of_update [simp]: "map_of (AList.update k v m) = (map_of m)(k \<mapsto> v)"
  by (rule AList.update_conv')

lemma map_of_delete [simp]: "map_of (AList.delete k m) = (map_of m)(k := None)"
  by (rule AList.delete_conv')

text \<open>What \<^verbatim>\<open>check_ban\<close> answers, and that it only removes a dead entry.\<close>

definition live :: "time \<Rightarrow> ('k \<times> time) list \<Rightarrow> 'k \<Rightarrow> bool" where
  "live now m k = (case map_of m k of None \<Rightarrow> False | Some until \<Rightarrow> now < until)"

lemma check_ban_hit: "fst (check_ban now k m) = live now m k"
  by (simp add: check_ban_def live_def split: option.split)

lemma check_ban_live_imp: "live t (snd (check_ban now k m)) k' \<Longrightarrow> live t m k'"
  by (auto simp: check_ban_def live_def split: option.splits if_splits)

lemma check_ban_keeps:
  "map_of m k' = Some u \<Longrightarrow> now < u \<Longrightarrow> map_of (snd (check_ban now k m)) k' = Some u"
  by (auto simp: check_ban_def split: option.splits)

lemma distinct_delete: "distinct (map fst m) \<Longrightarrow> distinct (map fst (AList.delete k m))"
  by (rule AList.distinct_delete)

lemma check_ban_distinct: "distinct (map fst m) \<Longrightarrow> distinct (map fst (snd (check_ban now k m)))"
  by (auto simp: check_ban_def distinct_delete split: option.split)
subsection \<open>Lemmas: one operation\<close>

lemma Blocked_iff:
  "fst (Blocked now ip b) \<longleftrightarrow>
     \<not> isExempt b (Unmap ip) \<and>
     (live now (bannedIP b) (Unmap ip) \<or> (\<exists>pfx. subnet (Unmap ip) = Some pfx \<and> live now (bannedNet b) pfx))"
  using check_ban_hit[of now "Unmap ip" "bannedIP b"]
  by (auto simp: Blocked_def Let_def check_ban_hit split: prod.splits option.splits)
    (metis check_ban_hit fst_conv)+

lemma Blocked_frame:
  "cfg (snd (Blocked now ip b)) = cfg b" "fails (snd (Blocked now ip b)) = fails b"
  by (simp_all add: Blocked_def Let_def split: prod.split option.split)

lemma Blocked_bannedIP:
  "bannedIP (snd (Blocked now ip b)) \<in> {bannedIP b, snd (check_ban now (Unmap ip) (bannedIP b))}"
  by (simp add: Blocked_def Let_def split: prod.split option.split)

lemma Blocked_bannedNet:
  "bannedNet (snd (Blocked now ip b)) = bannedNet b \<or>
   (\<exists>pfx. bannedNet (snd (Blocked now ip b)) = snd (check_ban now pfx (bannedNet b)))"
  by (auto simp: Blocked_def Let_def split: prod.split option.split) (metis snd_conv)

lemma escalate_frame [simp]:
  "cfg (snd (escalate now ip b)) = cfg b" "fails (snd (escalate now ip b)) = fails b"
  "bannedIP (snd (escalate now ip b)) = bannedIP b"
  by (simp_all add: escalate_def split: option.split)

lemma sweep_frame [simp]: "cfg (sweepLocked now b) = cfg b"
  by (simp add: sweepLocked_def)

lemma isExempt_cong: "cfg b = cfg b' \<Longrightarrow> isExempt b = isExempt b'"
  by (simp add: isExempt_def fun_eq_iff)

text \<open>The parts of a call of \<^verbatim>\<open>Fail\<close> that is not exempt.\<close>

definition new_times :: "time \<Rightarrow> addr \<Rightarrow> banner \<Rightarrow> time list" where
  "new_times now ip b =
     pruneBefore (fail_times (sweepLocked now b) (Unmap ip)) (now - Window (cfg b)) @ [now]"

definition banned_state :: "time \<Rightarrow> addr \<Rightarrow> banner \<Rightarrow> banner" where
  "banned_state now ip b =
     (sweepLocked now b)
       \<lparr>bannedIP := AList.update (Unmap ip) (now + BanDuration (cfg b)) (bannedIP (sweepLocked now b)),
        fails := AList.delete (Unmap ip) (AList.update (Unmap ip) (new_times now ip b) (fails (sweepLocked now b)))\<rparr>"

lemma Fail_exempt: "isExempt b (Unmap ip) \<Longrightarrow> Fail now ip b = ((False, []), b)"
  by (simp add: Fail_def)

lemma Fail_counted:
  assumes "\<not> isExempt b (Unmap ip)" "int (length (new_times now ip b)) < Threshold (cfg b)"
  shows "Fail now ip b = ((False, []), (sweepLocked now b)
    \<lparr>fails := AList.update (Unmap ip) (new_times now ip b) (fails (sweepLocked now b))\<rparr>)"
  using assms unfolding Fail_def new_times_def by (simp add: Let_def)

lemma Fail_banned:
  assumes "\<not> isExempt b (Unmap ip)" "\<not> int (length (new_times now ip b)) < Threshold (cfg b)"
  shows "Fail now ip b =
    ((True, fst (escalate now (Unmap ip) (banned_state now ip b))),
     snd (escalate now (Unmap ip) (banned_state now ip b)))"
  using assms unfolding Fail_def new_times_def banned_state_def by (simp add: Let_def split: prod.split)

lemma Fail_cases:
  obtains (exempt) "isExempt b (Unmap ip)" "Fail now ip b = ((False, []), b)"
  | (counted) "\<not> isExempt b (Unmap ip)" "int (length (new_times now ip b)) < Threshold (cfg b)"
      "Fail now ip b = ((False, []), (sweepLocked now b)
        \<lparr>fails := AList.update (Unmap ip) (new_times now ip b) (fails (sweepLocked now b))\<rparr>)"
  | (banned) "\<not> isExempt b (Unmap ip)" "\<not> int (length (new_times now ip b)) < Threshold (cfg b)"
      "Fail now ip b =
        ((True, fst (escalate now (Unmap ip) (banned_state now ip b))),
         snd (escalate now (Unmap ip) (banned_state now ip b)))"
  using Fail_exempt Fail_counted Fail_banned by blast

lemma banned_state_frame [simp]: "cfg (banned_state now ip b) = cfg b"
  by (simp add: banned_state_def)

lemma Fail_cfg [simp]: "cfg (snd (Fail now ip b)) = cfg b"
  by (cases rule: Fail_cases[of b ip now]) auto

subsection \<open>The throttle as a machine\<close>

datatype op = CheckOp addr | FailOp addr

type_synonym event = "time \<times> op"

fun ban_step :: "event \<Rightarrow> banner \<Rightarrow> banner" where
  "ban_step (now, CheckOp ip) b = snd (Blocked now ip b)"
| "ban_step (now, FailOp ip) b = snd (Fail now ip b)"

definition wf_banner :: "banner \<Rightarrow> bool" where
  "wf_banner b \<longleftrightarrow> distinct (map fst (fails b)) \<and> distinct (map fst (bannedIP b)) \<and>
     distinct (map fst (bannedNet b))"

lemma wf_sweep: "wf_banner b \<Longrightarrow> wf_banner (sweepLocked now b)"
  by (simp add: wf_banner_def sweepLocked_def distinct_filter_keys)

lemma wf_escalate: "wf_banner b \<Longrightarrow> wf_banner (snd (escalate now ip b))"
  by (auto simp: wf_banner_def escalate_def AList.distinct_update split: option.split)

lemma wf_Blocked: "wf_banner b \<Longrightarrow> wf_banner (snd (Blocked now ip b))"
  using Blocked_bannedIP[of now ip b] Blocked_bannedNet[of now ip b]
  by (auto simp: wf_banner_def Blocked_frame check_ban_distinct)

lemma wf_Fail: "wf_banner b \<Longrightarrow> wf_banner (snd (Fail now ip b))"
proof (cases rule: Fail_cases[of b ip now])
  case banned
  assume "wf_banner b"
  then have "wf_banner (banned_state now ip b)"
    using wf_sweep[of b now]
    by (simp add: banned_state_def wf_banner_def AList.distinct_update AList.distinct_delete)
  then show ?thesis by (simp add: banned wf_escalate)
qed (use wf_sweep[of b now] in \<open>simp_all add: wf_banner_def AList.distinct_update\<close>)

lemma ban_step_cfg [simp]: "cfg (ban_step ev b) = cfg b"
  by (cases "(ev, b)" rule: ban_step.cases) (simp_all add: Blocked_frame)

lemma ban_run_cfg [simp]: "cfg (fold ban_step evs b) = cfg b"
  by (induction evs arbitrary: b) simp_all

interpretation throttle: invariant_machine ban_step "\<lambda>_ _. True" wf_banner
proof
  fix s e assume "wf_banner s"
  then show "wf_banner (ban_step e s)"
    by (cases "(e, s)" rule: ban_step.cases) (simp_all add: wf_Blocked wf_Fail)
qed

lemma wf_New: "wf_banner (New c)"
  by (simp add: wf_banner_def New_def)

lemma wf_run: "wf_banner (fold ban_step evs (New c))"
  by (simp add: throttle.run_inv wf_New)

lemma cfg_New [simp]: "cfg (New c) = c"
  by (simp add: New_def)

subsection \<open>The sliding window\<close>

text \<open>
  The specification of the counting: keep every failure since the last ban of an address and
  ban when enough of them fall into the window that ends now. The program keeps much less: it
  prunes on every failure and drops whole entries when they are stale.
\<close>

type_synonym history = "addr \<Rightarrow> time list"

definition in_window :: "config \<Rightarrow> time \<Rightarrow> time list \<Rightarrow> time list" where
  "in_window c now ts = filter (\<lambda>t. t > now - Window c) ts"

definition window_fail :: "config \<Rightarrow> time \<Rightarrow> addr \<Rightarrow> history \<Rightarrow> bool \<times> history" where
  "window_fail c now ip h =
     (if int (length (in_window c now (h ip) @ [now])) < Threshold c
      then (False, h(ip := h ip @ [now]))
      else (True, h(ip := [])))"

text \<open>The decisions along a run: one entry per failure that is not exempt.\<close>

fun decisions :: "event list \<Rightarrow> banner \<Rightarrow> bool list" where
  "decisions [] b = []"
| "decisions ((now, CheckOp ip) # evs) b = decisions evs (snd (Blocked now ip b))"
| "decisions ((now, FailOp ip) # evs) b =
     (let ((hit, _), b1) = Fail now ip b in
      if isExempt b (Unmap ip) then decisions evs b1 else hit # decisions evs b1)"

fun window_decisions :: "config \<Rightarrow> event list \<Rightarrow> history \<Rightarrow> bool list" where
  "window_decisions c [] h = []"
| "window_decisions c ((now, CheckOp ip) # evs) h = window_decisions c evs h"
| "window_decisions c ((now, FailOp ip) # evs) h =
     (if exempt_loop (Exempt c) (Unmap ip) then window_decisions c evs h
      else let (hit, h1) = window_fail c now (Unmap ip) h in hit # window_decisions c evs h1)"

definition window_rel :: "time \<Rightarrow> banner \<Rightarrow> history \<Rightarrow> bool" where
  "window_rel now b h \<longleftrightarrow> wf_banner b \<and>
     (\<forall>ip. sorted (fail_times b ip) \<and> (\<forall>t \<in> set (fail_times b ip). t \<le> now) \<and>
           in_window (cfg b) now (fail_times b ip) = in_window (cfg b) now (h ip))"

lemma in_window_later: "now \<le> now' \<Longrightarrow> in_window c now' ts = in_window c now' (in_window c now ts)"
  by (auto simp: in_window_def intro!: filter_cong)

lemma in_window_append: "in_window c now (xs @ ys) = in_window c now xs @ in_window c now ys"
  by (simp add: in_window_def)

lemma window_rel_later: "window_rel now b h \<Longrightarrow> now \<le> now' \<Longrightarrow> window_rel now' b h"
  unfolding window_rel_def by (metis in_window_later order_trans)

lemma sorted_dropWhile_filter:
  "sorted ts \<Longrightarrow> dropWhile (\<lambda>t. \<not> t > (k :: time)) ts = filter (\<lambda>t. t > k) ts"
proof (induction ts)
  case (Cons t ts)
  then show ?case by (auto intro!: filter_True[symmetric])
qed simp

lemma pruneBefore_window: "sorted ts \<Longrightarrow> pruneBefore ts (now - Window c) = in_window c now ts"
  by (simp add: pruneBefore_def in_window_def sorted_dropWhile_filter)

lemma fail_times_sweep:
  assumes "wf_banner b"
  shows "fail_times (sweepLocked now b) ip =
    (let ts = fail_times b ip in
     if ts = [] \<or> \<not> last ts > now - Window (cfg b) then [] else ts)"
  using assms map_of_filter_val[of "fails b" "\<lambda>ts. \<not> (ts = [] \<or> \<not> last ts > now - Window (cfg b))" ip]
  by (auto simp: fail_times_def sweepLocked_def wf_banner_def Let_def split: option.splits)

lemma sorted_le_last: "sorted ts \<Longrightarrow> t \<in> set ts \<Longrightarrow> (t :: time) \<le> last ts"
  by (induction ts) (auto split: if_splits)

lemma sweep_window:
  assumes "wf_banner b" "sorted (fail_times b ip)"
  shows "in_window (cfg b) now (fail_times (sweepLocked now b) ip) = in_window (cfg b) now (fail_times b ip)"
proof -
  have "in_window (cfg b) now (fail_times b ip) = []"
    if "\<not> last (fail_times b ip) > now - Window (cfg b)"
    using that sorted_le_last[OF assms(2)] by (force simp: in_window_def filter_empty_conv)
  then show ?thesis by (auto simp: fail_times_sweep[OF assms(1)] Let_def in_window_def)
qed

lemma fail_times_upd [simp]:
  "fail_times (b\<lparr>fails := AList.update ip ts (fails b)\<rparr>) ip' = (if ip' = ip then ts else fail_times b ip')"
  by (simp add: fail_times_def)

lemma window_rel_sweep: "window_rel now b h \<Longrightarrow> window_rel now (sweepLocked now b) h"
  using wf_sweep[of b now] sweep_window[of b _ now]
  by (auto simp: window_rel_def fail_times_sweep Let_def)

lemma new_times_window:
  assumes "window_rel now b h"
  shows "new_times now ip b = in_window (cfg b) now (h (Unmap ip)) @ [now]"
  using window_rel_sweep[OF assms] by (simp add: new_times_def window_rel_def pruneBefore_window)

lemma window_rel_Blocked: "window_rel now b h \<Longrightarrow> window_rel now (snd (Blocked t ip b)) h"
  using wf_Blocked[of b t ip] by (simp add: window_rel_def fail_times_def Blocked_frame)

lemma sorted_in_window: "sorted ts \<Longrightarrow> sorted (in_window c now ts)"
  using sorted_filter[of id ts] by (simp add: in_window_def list.map_id0)

lemma window_rel_update:
  assumes "window_rel now b h" "wf_banner b'" "cfg b' = cfg b"
    and "\<And>ip'. fail_times b' ip' = (if ip' = ip then ts else fail_times b ip')"
    and "sorted ts" "\<forall>t \<in> set ts. t \<le> now" "in_window (cfg b) now ts = in_window (cfg b) now hs"
  shows "window_rel now b' (h(ip := hs))"
  using assms by (simp add: window_rel_def)

lemma window_rel_Fail:
  assumes rel: "window_rel now b h" and ne: "\<not> isExempt b (Unmap ip)"
  shows "fst (fst (Fail now ip b)) = fst (window_fail (cfg b) now (Unmap ip) h) \<and>
    window_rel now (snd (Fail now ip b)) (snd (window_fail (cfg b) now (Unmap ip) h))"
proof -
  let ?ip = "Unmap ip" and ?s = "sweepLocked now b"
  note nt = new_times_window[OF rel, of ip] and rs = window_rel_sweep[OF rel]
  have wf: "wf_banner (snd (Fail now ip b))" using rel wf_Fail by (simp add: window_rel_def)
  have srt: "sorted (in_window (cfg b) now (h ?ip))" "\<forall>t \<in> set (in_window (cfg b) now (h ?ip)). t \<le> now"
    using rel sorted_in_window[of "fail_times b ?ip" "cfg b" now]
    by (auto simp: window_rel_def) (metis filter_is_subset in_window_def subsetD)
  show ?thesis
  proof (cases rule: Fail_cases[of b ip now])
    case exempt
    with ne show ?thesis by simp
  next
    case counted
    have "in_window (cfg b) now (new_times now ip b) = in_window (cfg b) now (h ?ip @ [now])"
      by (simp add: nt in_window_append in_window_def)
    then have "window_rel now (snd (Fail now ip b)) (h(?ip := h ?ip @ [now]))"
      using srt wf
      by (intro window_rel_update[OF rs, where ts = "new_times now ip b"])
        (simp_all add: counted nt sorted_append)
    then show ?thesis using counted nt by (simp add: window_fail_def)
  next
    case banned
    have "window_rel now (snd (Fail now ip b)) (h(?ip := []))"
      using wf
      by (intro window_rel_update[OF rs, where ts = "[]"])
        (simp_all add: banned banned_state_def fail_times_def)
    then show ?thesis using banned nt by (simp add: window_fail_def)
  qed
qed

lemma decisions_window:
  "window_rel T b h \<Longrightarrow> sorted (map fst evs) \<Longrightarrow> \<forall>ev \<in> set evs. T \<le> fst ev \<Longrightarrow>
     decisions evs b = window_decisions (cfg b) evs h"
proof (induction evs arbitrary: T b h)
  case (Cons ev evs)
  obtain now o' where ev: "ev = (now, o')" by (cases ev)
  have rel: "window_rel now b h" using Cons.prems ev window_rel_later by auto
  have later: "sorted (map fst evs)" "\<forall>ev \<in> set evs. now \<le> fst ev" using Cons.prems ev by auto
  show ?case
  proof (cases o')
    case (CheckOp ip)
    then show ?thesis
      using Cons.IH[OF window_rel_Blocked[OF rel] later] ev by (simp add: Blocked_frame)
  next
    case (FailOp ip)
    show ?thesis
    proof (cases "isExempt b (Unmap ip)")
      case True
      then show ?thesis
        using Cons.IH[OF rel later] ev FailOp by (simp add: Fail_exempt isExempt_def)
    next
      case False
      note f = window_rel_Fail[OF rel False]
      then show ?thesis
        using Cons.IH[OF f[THEN conjunct2] later] ev FailOp False
        by (simp add: isExempt_def split: prod.split) (metis fst_conv snd_conv)
    qed
  qed
qed simp

subsection \<open>How long a ban lasts\<close>

lemma sweep_keeps_ban:
  assumes "wf_banner b" "map_of (bannedIP b) ip = Some u" "now < u"
  shows "map_of (bannedIP (sweepLocked now b)) ip = Some u"
  using assms map_of_filter_val[of "bannedIP b" "\<lambda>until. now < until" ip]
  by (simp add: sweepLocked_def wf_banner_def)

definition banned_from :: "time \<Rightarrow> addr \<Rightarrow> banner \<Rightarrow> bool" where
  "banned_from t ip b \<longleftrightarrow> (\<exists>u \<ge> t + BanDuration (cfg b). map_of (bannedIP b) ip = Some u)"

lemma banned_from_step:
  assumes "wf_banner b" "banned_from t ip b" "t \<le> fst ev" "fst ev < t + BanDuration (cfg b)"
  shows "banned_from t ip (ban_step ev b)"
proof -
  obtain u where u: "t + BanDuration (cfg b) \<le> u" "map_of (bannedIP b) ip = Some u"
    using assms(2) by (auto simp: banned_from_def)
  obtain now o' where ev: "ev = (now, o')" by (cases ev)
  have lt: "now < u" using assms(4) u(1) ev by simp
  show ?thesis
  proof (cases o')
    case (CheckOp a)
    then show ?thesis
      using Blocked_bannedIP[of now a b] u lt check_ban_keeps[OF u(2) lt, of "Unmap a"]
      by (auto simp: ev banned_from_def Blocked_frame)
  next
    case (FailOp a)
    note k = sweep_keeps_ban[OF assms(1) u(2) lt]
    show ?thesis
    proof (cases rule: Fail_cases[of b a now])
      case exempt
      then show ?thesis using assms(2) by (simp add: ev FailOp)
    next
      case counted
      then show ?thesis using u k by (auto simp: ev FailOp banned_from_def)
    next
      case banned
      then show ?thesis
        using u k assms(3) by (auto simp: ev FailOp banned_from_def banned_state_def)
    qed
  qed
qed

lemma banned_from_run:
  "wf_banner b \<Longrightarrow> banned_from t ip b \<Longrightarrow>
     \<forall>ev \<in> set evs. t \<le> fst ev \<and> fst ev < t + BanDuration (cfg b) \<Longrightarrow> banned_from t ip (fold ban_step evs b)"
proof (induction evs arbitrary: b)
  case (Cons ev evs)
  then show ?case using banned_from_step[of b t ip ev] throttle.step_inv[of b ev] by simp
qed simp

text \<open>Every ban on record ends at most one ban duration after the latest event.\<close>

definition bans_end_by :: "time \<Rightarrow> banner \<Rightarrow> bool" where
  "bans_end_by u b \<longleftrightarrow> (\<forall>k v. map_of (bannedIP b) k = Some v \<longrightarrow> v \<le> u) \<and>
     (\<forall>k v. map_of (bannedNet b) k = Some v \<longrightarrow> v \<le> u)"

lemma check_ban_subset: "map_of (snd (check_ban now k m)) k' = Some v \<Longrightarrow> map_of m k' = Some v"
  by (auto simp: check_ban_def split: option.splits if_splits)

lemma sweep_subset:
  assumes "wf_banner b"
  shows "map_of (bannedIP (sweepLocked now b)) k = Some v \<Longrightarrow> map_of (bannedIP b) k = Some v"
    and "map_of (bannedNet (sweepLocked now b)) p = Some v \<Longrightarrow> map_of (bannedNet b) p = Some v"
proof -
  have d: "distinct (map fst (bannedIP b))" "distinct (map fst (bannedNet b))"
    using assms by (auto simp: wf_banner_def)
  show "map_of (bannedIP (sweepLocked now b)) k = Some v \<Longrightarrow> map_of (bannedIP b) k = Some v"
    using map_of_filter_subset[OF _ d(1), of "\<lambda>until. now < until"] unfolding sweepLocked_def by simp
  show "map_of (bannedNet (sweepLocked now b)) p = Some v \<Longrightarrow> map_of (bannedNet b) p = Some v"
    using map_of_filter_subset[OF _ d(2), of "\<lambda>until. now < until"] unfolding sweepLocked_def by simp
qed

lemma bans_end_by_step:
  assumes "wf_banner b" "bans_end_by u b" "fst ev + BanDuration (cfg b) \<le> u"
  shows "bans_end_by u (ban_step ev b)"
proof -
  obtain now o' where ev: "ev = (now, o')" by (cases ev)
  have sw: "bans_end_by u (sweepLocked now b)"
    using assms(2) sweep_subset[OF assms(1)] unfolding bans_end_by_def by blast
  show ?thesis
  proof (cases o')
    case (CheckOp a)
    have "map_of (bannedIP b) k = Some v" if "map_of (bannedIP (snd (Blocked now a b))) k = Some v" for k v
      using that Blocked_bannedIP[of now a b] check_ban_subset[of now "Unmap a" "bannedIP b" k v] by auto
    moreover have "map_of (bannedNet b) p = Some v"
      if "map_of (bannedNet (snd (Blocked now a b))) p = Some v" for p v
      using that Blocked_bannedNet[of now a b] check_ban_subset[of now _ "bannedNet b" p v] by auto
    ultimately show ?thesis
      using assms(2) unfolding ev bans_end_by_def ban_step.simps CheckOp by blast
  next
    case (FailOp a)
    show ?thesis
    proof (cases rule: Fail_cases[of b a now])
      case exempt
      then show ?thesis using assms(2) by (simp add: ev FailOp)
    next
      case counted
      then show ?thesis using sw by (simp add: ev FailOp bans_end_by_def)
    next
      case banned
      then show ?thesis
        using sw assms(3)
        by (auto simp: ev FailOp bans_end_by_def banned_state_def escalate_def split: option.splits if_splits)
    qed
  qed
qed

lemma bans_end_by_run:
  "wf_banner b \<Longrightarrow> bans_end_by u b \<Longrightarrow> \<forall>ev \<in> set evs. fst ev + BanDuration (cfg b) \<le> u \<Longrightarrow>
     bans_end_by u (fold ban_step evs b)"
proof (induction evs arbitrary: b)
  case (Cons ev evs)
  then show ?case using bans_end_by_step[of b u ev] throttle.step_inv[of b ev] by simp
qed simp

lemma live_in_subnet_card:
  assumes "distinct (map fst m)"
  shows "live_in_subnet now pfx m = card {a. live now m a \<and> subnet a = Some pfx}"
proof -
  let ?f = "filter (\<lambda>(banned, until). now < until \<and> subnet banned = Some pfx) m"
  have "fst ` set ?f = {a. live now m a \<and> subnet a = Some pfx}"
  proof -
    have "live now m a \<longleftrightarrow> (\<exists>u. (a, u) \<in> set m \<and> now < u)" for a
      by (simp add: live_def split: option.split)
        (metis map_of_eq_Some_iff[OF assms] option.distinct(1) option.inject)
    then show ?thesis by (auto simp: image_iff)
  qed
  moreover have "card (fst ` set ?f) = length ?f"
    using distinct_card[OF distinct_filter_keys[OF assms, of "\<lambda>(banned, until). now < until \<and> subnet banned = Some pfx"]]
    by simp
  ultimately show ?thesis by (simp add: live_in_subnet_def)
qed

text \<open>A ban survives every sequence of operations inside its duration.\<close>

lemma ban_persists:
  assumes "wf_banner b" "fst (fst (Fail t ip b))"
    and "\<forall>ev \<in> set evs. t \<le> fst ev \<and> fst ev < t + BanDuration (cfg b)"
    and "now < t + BanDuration (cfg b)"
  shows "fst (Blocked now ip (fold ban_step evs (snd (Fail t ip b))))"
proof (cases rule: Fail_cases[of b ip t])
  case banned
  let ?b = "fold ban_step evs (snd (Fail t ip b))"
  have "banned_from t (Unmap ip) (snd (Fail t ip b))"
    by (simp add: banned banned_from_def banned_state_def)
  then have "banned_from t (Unmap ip) ?b"
    using assms(1,3) wf_Fail by (intro banned_from_run) simp_all
  then have "live now (bannedIP ?b) (Unmap ip)"
    using assms(4) by (auto simp: banned_from_def live_def)
  moreover have "\<not> isExempt ?b (Unmap ip)" using banned(1) isExempt_cong[of ?b b] by simp
  ultimately show ?thesis by (simp add: Blocked_iff)
qed (use assms(2) in simp_all)

subsection \<open>Properties\<close>

text \<open>
  C9. The sliding window is exact: on any sequence of checks and failures in time order, the
  throttle bans an address at exactly the failures at which the full history since its last
  ban has enough failures inside the window; pruning and sweeping lose nothing.
\<close>

theorem window_refinement:
  assumes "sorted (map fst evs)"
  shows "decisions evs (New c) = window_decisions c evs (\<lambda>_. [])"
proof (cases evs)
  case (Cons ev evs')
  have "window_rel (fst ev) (New c) (\<lambda>_. [])"
    using wf_New[of c] by (simp add: window_rel_def fail_times_def in_window_def) (simp add: New_def)
  from decisions_window[OF this assms] show ?thesis using Cons assms by auto
qed simp

definition cfg_ex :: config where
  "cfg_ex = \<lparr>Methods = [''POST''], Statuses = [401], PathPrefix = '''', Window = 10, Threshold = 2,
     BanDuration = 100, SubnetThreshold = 2, Exempt = []\<rparr>"

definition evs_ex :: "event list" where
  "evs_ex = [(1, FailOp (Addr4 1)), (20, FailOp (Addr4 1)), (21, CheckOp (Addr4 1)),
             (25, FailOp (Addr4 1)), (26, FailOp (Addr4 2)), (27, FailOp (Addr4 2))]"

theorem window_refinement_witness: "decisions evs_ex (New cfg_ex) = [False, False, True, False, True]"
proof -
  have "sorted (map fst evs_ex)" by code_simp
  then have "decisions evs_ex (New cfg_ex) = window_decisions cfg_ex evs_ex (\<lambda>_. [])"
    by (rule window_refinement)
  also have "\<dots> = [False, False, True, False, True]" by code_simp
  finally show ?thesis .
qed

text \<open>
  A ban holds for its whole duration: once a failure at time \<open>t\<close> banned an address, the
  address is blocked at every later instant before \<open>t + BanDuration\<close>, whatever checks and
  failures of any address come in between.
\<close>

theorem ban_lasts:
  assumes "b = fold ban_step evs0 (New c)" "fst (fst (Fail t ip b))"
    and "\<forall>ev \<in> set evs. t \<le> fst ev \<and> fst ev < t + BanDuration c"
    and "now < t + BanDuration c"
  shows "fst (Blocked now ip (fold ban_step evs (snd (Fail t ip b))))"
  using assms wf_run by (intro ban_persists) simp_all

theorem ban_lasts_witness:
  "fst (Blocked 124 (Addr4 1) (fold ban_step [(26, FailOp (Addr4 2)), (90, FailOp (Addr4 1))]
     (snd (Fail 25 (Addr4 1) (fold ban_step (take 3 evs_ex) (New cfg_ex))))))"
proof (rule ban_lasts[of _ "take 3 evs_ex" cfg_ex])
  show "fst (fst (Fail 25 (Addr4 1) (fold ban_step (take 3 evs_ex) (New cfg_ex))))" by code_simp
qed (simp_all add: cfg_ex_def)

text \<open>
  A ban ends: when all checks and failures happened by time \<open>T\<close>, nobody is blocked any
  more from \<open>T + BanDuration\<close> on.
\<close>

theorem bans_expire:
  assumes "\<forall>ev \<in> set evs. fst ev \<le> T" "T + BanDuration c \<le> now"
  shows "\<not> fst (Blocked now ip (fold ban_step evs (New c)))"
proof -
  let ?b = "fold ban_step evs (New c)"
  have "bans_end_by (T + BanDuration c) ?b"
    using assms(1) wf_New[of c] by (intro bans_end_by_run) (simp_all add: bans_end_by_def, simp_all add: New_def)
  then have "\<not> live now (bannedIP ?b) k" "\<not> live now (bannedNet ?b) p" for k p
    using assms(2) by (force simp: bans_end_by_def live_def split: option.splits)+
  then show ?thesis by (simp add: Blocked_iff)
qed

theorem bans_expire_witness: "\<not> fst (Blocked 127 (Addr4 1) (fold ban_step evs_ex (New cfg_ex)))"
proof (rule bans_expire)
  show "\<forall>ev \<in> set evs_ex. fst ev \<le> 27" by (simp add: evs_ex_def)
qed (simp add: cfg_ex_def)

text \<open>
  Escalation: when a failure bans a whole /24, at least \<open>SubnetThreshold\<close> distinct addresses
  of it are under a live ban, and from then until the ban ends every address of that /24, in
  either textual family, is blocked unless it is exempt.
\<close>

theorem subnet_escalation:
  assumes "b = fold ban_step evs (New c)" "Fail now ip b = ((True, sub), b1)" "sub \<noteq> ''''" "0 < BanDuration c"
  shows "\<exists>pfx. subnet (Unmap ip) = Some pfx \<and> sub = prefix_string pfx \<and>
    SubnetThreshold c \<le> int (card {a. live now (bannedIP b1) a \<and> subnet a = Some pfx}) \<and>
    (\<forall>y t. subnet (Unmap y) = Some pfx \<and> \<not> isExempt b (Unmap y) \<and> t < now + BanDuration c
       \<longrightarrow> fst (Blocked t y b1))"
proof (cases rule: Fail_cases[of b ip now])
  case banned
  let ?s = "banned_state now ip b"
  have c: "cfg b = c" by (simp add: assms(1))
  have e: "escalate now (Unmap ip) ?s = (sub, b1)" using banned(3) assms(2) by (metis prod.collapse prod.inject)
  then obtain pfx where p: "subnet (Unmap ip) = Some pfx" "sub = prefix_string pfx"
    "int (live_in_subnet now pfx (bannedIP ?s)) \<ge> SubnetThreshold c"
    "b1 = ?s\<lparr>bannedNet := AList.update pfx (now + BanDuration c) (bannedNet ?s)\<rparr>"
    using assms(3) c by (auto simp: escalate_def split: option.splits if_splits)
  have wf: "wf_banner b1" using wf_Fail[OF wf_run[of evs c], of now ip] assms(1,2) by simp
  have "live_in_subnet now pfx (bannedIP b1) = card {a. live now (bannedIP b1) a \<and> subnet a = Some pfx}"
    using wf by (intro live_in_subnet_card) (simp add: wf_banner_def)
  moreover have "bannedIP b1 = bannedIP ?s" by (simp add: p)
  moreover have "fst (Blocked t y b1)"
    if "subnet (Unmap y) = Some pfx" "\<not> isExempt b (Unmap y)" "t < now + BanDuration c" for y t
    using that isExempt_cong[of b1 b] by (auto simp: Blocked_iff p live_def)
  ultimately show ?thesis using p by auto
qed (use assms(2) in simp_all)

theorem subnet_escalation_witness:
  "fst (Blocked 100 (Addr6 0xffff000000c8 '''') (snd (Fail 27 (Addr4 2) (fold ban_step (take 5 evs_ex) (New cfg_ex)))))"
proof -
  let ?f = "Fail 27 (Addr4 2) (fold ban_step (take 5 evs_ex) (New cfg_ex))"
  have f: "?f = ((True, snd (fst ?f)), snd ?f)" by (intro prod_eqI) (simp_all, code_simp)
  have ne: "snd (fst ?f) \<noteq> ''''" by code_simp
  have d: "0 < BanDuration cfg_ex" by code_simp
  have s: "subnet (Unmap (Addr4 2)) = Some (Prefix (Addr4 0) 24)"
    "subnet (Unmap (Addr6 0xffff000000c8 '''')) = Some (Prefix (Addr4 0) 24)" by code_simp+
  have x: "\<not> isExempt (fold ban_step (take 5 evs_ex) (New cfg_ex)) (Unmap (Addr6 0xffff000000c8 ''''))"
    and t: "(100 :: time) < 27 + BanDuration cfg_ex" by code_simp+
  from subnet_escalation[OF refl f ne d] obtain pfx where "subnet (Unmap (Addr4 2)) = Some pfx"
    "\<forall>y t. subnet (Unmap y) = Some pfx \<and>
        \<not> isExempt (fold ban_step (take 5 evs_ex) (New cfg_ex)) (Unmap y) \<and> t < 27 + BanDuration cfg_ex \<longrightarrow>
        fst (Blocked t y (snd ?f))" by blast
  with s x t show ?thesis by auto
qed

text \<open>
  Exempt sources are neither counted nor blocked, in any state the throttle can reach; an
  IPv4 source is exempt in its IPv4-mapped form as well.
\<close>

theorem exempt_never_blocked:
  assumes "p \<in> set (Exempt c)" "Contains p (Unmap ip)"
  shows "\<not> fst (Blocked now ip (fold ban_step evs (New c))) \<and>
    Fail now ip (fold ban_step evs (New c)) = ((False, ''''), fold ban_step evs (New c))"
proof -
  have "isExempt (fold ban_step evs (New c)) (Unmap ip)"
    using assms exempt.admits_iff by (auto simp: isExempt_def)
  then show ?thesis by (simp add: Blocked_iff Fail_exempt)
qed

theorem exempt_never_blocked_witness:
  "\<not> fst (Blocked 9 (Addr6 0xffff0a000007 '''') (fold ban_step evs_ex
      (New (cfg_ex\<lparr>Exempt := [Prefix (Addr4 0x0a000000) 8]\<rparr>))))"
proof -
  have "Contains (Prefix (Addr4 0x0a000000) 8) (Unmap (Addr6 0xffff0a000007 ''''))" by code_simp
  from exempt_never_blocked[OF _ this, of "cfg_ex\<lparr>Exempt := [Prefix (Addr4 0x0a000000) 8]\<rparr>"]
  show ?thesis by simp
qed

end
