(* ===== verification/Publish.thy ===== *)
theory Publish
  imports Registry Ban
begin

text \<open>
  \<^verbatim>\<open>internal/publish\<close>: the HTTP side of a published host. The reverse proxy of the standard
  library is a parameter: what it writes to the response, as the sequence of its calls of
  \<^verbatim>\<open>WriteHeader\<close> and \<^verbatim>\<open>Write\<close>. The throttle is shared by all handlers, so a request takes its
  state and returns it; \<open>None\<close> stands for a nil banner. Header maps are association lists under
  canonical keys.
\<close>

subsection \<open>Matching\<close>

definition pathHasPrefix :: "string \<Rightarrow> string \<Rightarrow> bool" where
  "pathHasPrefix reqPath pre =
     (if pre = '''' \<or> pre = ''/'' then True
      else let p = TrimSuffix pre ''/'' in
        if reqPath = p then True else HasPrefix reqPath (p @ ''/''))"

record route =
  svc :: service
  has_proxy :: bool

record handler =
  routes :: "route list"

definition NewHandler :: "service list \<Rightarrow> handler" where
  "NewHandler services = \<lparr>routes = map (\<lambda>s. \<lparr>svc = s, has_proxy = (Mode s = ''http'')\<rparr>) services\<rparr>"

fun match_loop :: "string \<Rightarrow> route list \<Rightarrow> route option \<Rightarrow> int \<Rightarrow> route option" where
  "match_loop path [] best bestLen = best"
| "match_loop path (rh # rhs) best bestLen =
     (if pathHasPrefix path (Path (svc rh)) \<and> int (length (Path (svc rh))) > bestLen
      then match_loop path rhs (Some rh) (int (length (Path (svc rh))))
      else match_loop path rhs best bestLen)"

definition match :: "handler \<Rightarrow> string \<Rightarrow> route option" where
  "match h path = match_loop path (routes h) None (- 1)"

subsection \<open>Rewriting\<close>

type_synonym header = "(string \<times> string list) list"

text \<open>\<^verbatim>\<open>textproto.CanonicalMIMEHeaderKey\<close> on a valid key: letters after a hyphen are capital.\<close>

fun canon_loop :: "bool \<Rightarrow> string \<Rightarrow> string" where
  "canon_loop up [] = []"
| "canon_loop up (c # cs) =
     (if up then upper_char c else lower_char c) # canon_loop (c = CHR ''-'') cs"

definition header_Set :: "string \<Rightarrow> string \<Rightarrow> header \<Rightarrow> header" where
  "header_Set k x h = AList.update (canon_loop True k) [x] h"

definition header_Del :: "string \<Rightarrow> header \<Rightarrow> header" where
  "header_Del k h = AList.delete (canon_loop True k) h"

definition apply_headers :: "(string \<times> string) list \<Rightarrow> header \<Rightarrow> header" where
  "apply_headers kvs h = fold (\<lambda>(k, x) h. if x = '''' then header_Del k h else header_Set k x h) kvs h"

record request =
  Method :: string
  RemoteAddr :: string
  URLScheme :: string
  URLHost :: string
  URLPath :: string
  RawPath :: string
  ReqHost :: string
  Header :: header

definition rewritten_path :: "service \<Rightarrow> string \<Rightarrow> string" where
  "rewritten_path s p0 =
     (let p1 = (if StripPrefix s \<and> Path s \<noteq> '''' \<and> Path s \<noteq> ''/'' then
                  (let t = TrimPrefix p0 (TrimSuffix (Path s) ''/'') in
                   if \<not> HasPrefix t ''/'' then ''/'' @ t else t)
                else p0)
      in if AddPrefix s \<noteq> '''' then TrimSuffix (AddPrefix s) ''/'' @ p1 else p1)"

definition applyRequestRewrite :: "service \<Rightarrow> string \<Rightarrow> request \<Rightarrow> request" where
  "applyRequestRewrite s origHost req =
     (let h1 = header_Set ''X-Forwarded-Proto'' ''https'' (Header req);
          h2 = (if origHost \<noteq> '''' then header_Set ''X-Forwarded-Host'' origHost h1 else h1)
      in req\<lparr>URLScheme := ''http'', URLHost := Upstream s, URLPath := rewritten_path s (URLPath req),
             RawPath := '''',
             ReqHost := (if SetHost s \<noteq> '''' then SetHost s else Upstream s),
             Header := apply_headers (RequestHeaders s) h2\<rparr>)"

definition applyResponseRewrite :: "service \<Rightarrow> header \<Rightarrow> header" where
  "applyResponseRewrite s h = apply_headers (ResponseHeaders s) h"

subsection \<open>Recording the status\<close>

datatype response_call = CallWriteHeader int | CallWrite bytes

record statusRecorder =
  status :: int
  wroteHeader :: bool

definition recorder_WriteHeader :: "int \<Rightarrow> statusRecorder \<Rightarrow> statusRecorder" where
  "recorder_WriteHeader code r =
     (if \<not> wroteHeader r then r\<lparr>status := code, wroteHeader := True\<rparr> else r)"

definition recorder_Write :: "statusRecorder \<Rightarrow> statusRecorder" where
  "recorder_Write r = (if \<not> wroteHeader r then r\<lparr>wroteHeader := True\<rparr> else r)"

fun record_call :: "response_call \<Rightarrow> statusRecorder \<Rightarrow> statusRecorder" where
  "record_call (CallWriteHeader code) r = recorder_WriteHeader code r"
| "record_call (CallWrite _) r = recorder_Write r"

definition recorded_status :: "response_call list \<Rightarrow> int" where
  "recorded_status calls = status (fold record_call calls \<lparr>status = 200, wroteHeader = False\<rparr>)"

subsection \<open>Serving\<close>

datatype outcome = NotFound | Forbidden | Bridged service | Proxied service

definition remoteIP :: "string \<Rightarrow> addr option" where
  "remoteIP remoteAddr =
     ParseAddr (case SplitHostPort remoteAddr of Inl _ \<Rightarrow> remoteAddr | Inr (host, _) \<Rightarrow> host)"

text \<open>The throttle's answer for a request, when there is a throttle and the address parses.\<close>

definition check_blocked :: "time \<Rightarrow> addr option \<Rightarrow> banner option \<Rightarrow> bool \<times> banner option" where
  "check_blocked now ip bn =
     (case (bn, ip) of
        (Some b, Some a) \<Rightarrow> (let (hit, b1) = Blocked now a b in (hit, Some b1))
      | _ \<Rightarrow> (False, bn))"

definition account :: "time \<Rightarrow> request \<Rightarrow> addr option \<Rightarrow> int \<Rightarrow> banner option \<Rightarrow> banner option" where
  "account now r ip st bn =
     (case (bn, ip) of
        (Some b, Some a) \<Rightarrow>
          if Counts b (Method r) (URLPath r) st then Some (snd (Fail now a b)) else Some b
      | _ \<Rightarrow> bn)"

definition ServeHTTP ::
    "(service \<Rightarrow> request \<Rightarrow> response_call list) \<Rightarrow> time \<Rightarrow> handler \<Rightarrow> request \<Rightarrow> banner option \<Rightarrow>
     outcome \<times> banner option" where
  "ServeHTTP proxy now h r bn =
     (case match h (URLPath r) of
        None \<Rightarrow> (NotFound, bn)
      | Some rh \<Rightarrow>
          let ip = remoteIP (RemoteAddr r); (hit, bn1) = check_blocked now ip bn in
          if hit then (Forbidden, bn1)
          else if \<not> AllowedString (Allow (svc rh)) (RemoteAddr r) then (Forbidden, bn1)
          else if Mode (svc rh) = ''ws'' then (Bridged (svc rh), bn1)
          else (Proxied (svc rh),
                account now r ip (recorded_status (proxy (svc rh) (applyRequestRewrite (svc rh) (ReqHost r) r))) bn1))"

subsection \<open>Lemmas: matching\<close>

definition best_len :: "route option \<Rightarrow> int" where
  "best_len best = (case best of None \<Rightarrow> - 1 | Some b \<Rightarrow> int (length (Path (svc b))))"

lemma match_loop_None:
  "match_loop path rs best bl = None \<Longrightarrow>
     best = None \<and> (\<forall>rh \<in> set rs. \<not> (pathHasPrefix path (Path (svc rh)) \<and> int (length (Path (svc rh))) > bl))"
  by (induction rs arbitrary: best bl) (auto split: if_splits)

lemma match_loop_Some:
  "match_loop path rs best (best_len best) = Some r \<Longrightarrow>
     (best = Some r \<or> r \<in> set rs \<and> pathHasPrefix path (Path (svc r))) \<and>
     best_len best \<le> int (length (Path (svc r))) \<and>
     (\<forall>rh \<in> set rs. pathHasPrefix path (Path (svc rh)) \<longrightarrow> length (Path (svc rh)) \<le> length (Path (svc r)))"
proof (induction rs arbitrary: best)
  case Nil
  then show ?case by (simp add: best_len_def)
next
  case (Cons rh rs)
  let ?best = "if pathHasPrefix path (Path (svc rh)) \<and> int (length (Path (svc rh))) > best_len best
               then Some rh else best"
  have "match_loop path rs ?best (best_len ?best) = Some r"
    using Cons.prems by (auto simp: best_len_def split: if_splits)
  from Cons.IH[OF this] show ?case by (auto simp: best_len_def[of "Some rh"] split: if_splits)
qed

lemma match_spec:
  "case match h path of
     None \<Rightarrow> \<forall>rh \<in> set (routes h). \<not> pathHasPrefix path (Path (svc rh))
   | Some r \<Rightarrow> r \<in> set (routes h) \<and> pathHasPrefix path (Path (svc r)) \<and>
       (\<forall>rh \<in> set (routes h). pathHasPrefix path (Path (svc rh)) \<longrightarrow> length (Path (svc rh)) \<le> length (Path (svc r)))"
proof (cases "match h path")
  case None
  then show ?thesis using match_loop_None[of path "routes h" None "- 1"] by (force simp: match_def)
next
  case (Some r)
  then show ?thesis using match_loop_Some[of path "routes h" None r] by (simp add: match_def best_len_def)
qed
lemma pathHasPrefix_iff:
  assumes "p \<noteq> ''''" "p \<noteq> ''/''"
  shows "pathHasPrefix path p \<longleftrightarrow>
    path = TrimSuffix p ''/'' \<or> (\<exists>rest. path = TrimSuffix p ''/'' @ ''/'' @ rest)"
  using assms by (auto simp: pathHasPrefix_def Let_def HasPrefix_iff)

lemma routes_NewHandler: "svc ` set (routes (NewHandler services)) = set services"
  by (force simp: NewHandler_def)

lemma check_blocked_fst:
  "fst (check_blocked now ip bn) \<longleftrightarrow> (\<exists>b a. bn = Some b \<and> ip = Some a \<and> fst (Blocked now a b))"
  by (auto simp: check_blocked_def split: option.splits prod.splits)

text \<open>How a request reaches a service.\<close>

lemma ServeHTTP_reaches:
  assumes "ServeHTTP proxy now h r bn = (out, bn1)" "out = Proxied s \<or> out = Bridged s"
  obtains rh where "match h (URLPath r) = Some rh" "svc rh = s" "AllowedString (Allow s) (RemoteAddr r)"
    "\<not> fst (check_blocked now (remoteIP (RemoteAddr r)) bn)"
    "bn1 = (if Mode s = ''ws'' then snd (check_blocked now (remoteIP (RemoteAddr r)) bn)
            else account now r (remoteIP (RemoteAddr r))
                   (recorded_status (proxy s (applyRequestRewrite s (ReqHost r) r)))
                   (snd (check_blocked now (remoteIP (RemoteAddr r)) bn)))"
  using assms
  by (auto simp: ServeHTTP_def Let_def split: option.splits prod.splits if_splits)

subsection \<open>Properties\<close>

definition service_ex :: "string \<Rightarrow> string \<Rightarrow> string list \<Rightarrow> service" where
  "service_ex mode p allow = projr (build_service ''alice'' (Some 1) (svc_ex mode ''web.example'' p allow))"

definition request_ex :: "string \<Rightarrow> string \<Rightarrow> request" where
  "request_ex remote p = \<lparr>Method = ''POST'', RemoteAddr = remote, URLScheme = '''', URLHost = '''', URLPath = p,
     RawPath = '''', ReqHost = ''web.example'', Header = []\<rparr>"

text \<open>
  C29. Dispatch inside a host is by longest path prefix on segment boundaries: the chosen
  service's path covers the request path, no service with a longer path does, and the request
  is not found only when no service covers it.
\<close>

theorem longest_prefix_wins:
  "case match (NewHandler services) path of
     None \<Rightarrow> \<forall>s \<in> set services. \<not> pathHasPrefix path (Path s)
   | Some rh \<Rightarrow> svc rh \<in> set services \<and> pathHasPrefix path (Path (svc rh)) \<and>
       (\<forall>s \<in> set services. pathHasPrefix path (Path s) \<longrightarrow> length (Path s) \<le> length (Path (svc rh)))"
  using match_spec[of "NewHandler services" path]
  by (cases "match (NewHandler services) path") (auto simp flip: routes_NewHandler)

theorem longest_prefix_wins_witness:
  "length (Path (svc (the (match (NewHandler [service_ex ''http'' '''' [], service_ex ''http'' ''/api'' []]) ''/api/x'')))) \<ge> 4"
proof -
  let ?ss = "[service_ex ''http'' '''' [], service_ex ''http'' ''/api'' []]"
  have n: "match (NewHandler ?ss) ''/api/x'' \<noteq> None" by code_simp
  have p: "pathHasPrefix ''/api/x'' (Path (service_ex ''http'' ''/api'' []))"
    "length (Path (service_ex ''http'' ''/api'' [])) = 4" by code_simp+
  show ?thesis using longest_prefix_wins[of ?ss "''/api/x''"] n p by (auto split: option.splits)
qed

text \<open>
  C3. Nothing reaches an upstream uninvited: when a request is proxied or bridged to a service,
  the service is one of the host's, its path covers the request, its own whitelist admits the
  connection's remote address, and the throttle does not block that address.
\<close>

theorem served_only_if_admitted:
  assumes "ServeHTTP proxy now (NewHandler services) r bn = (out, bn1)" "out = Proxied s \<or> out = Bridged s"
  shows "s \<in> set services \<and> pathHasPrefix (URLPath r) (Path s) \<and> AllowedString (Allow s) (RemoteAddr r) \<and>
    (\<forall>b a. bn = Some b \<and> remoteIP (RemoteAddr r) = Some a \<longrightarrow> \<not> fst (Blocked now a b))"
  using assms
proof (rule ServeHTTP_reaches)
  fix rh
  assume m: "match (NewHandler services) (URLPath r) = Some rh" "svc rh = s"
    and a: "AllowedString (Allow s) (RemoteAddr r)" "\<not> fst (check_blocked now (remoteIP (RemoteAddr r)) bn)"
  from m have "s \<in> set services" "pathHasPrefix (URLPath r) (Path s)"
    using match_spec[of "NewHandler services" "URLPath r"] routes_NewHandler[of services] by auto
  then show ?thesis using a by (simp add: check_blocked_fst)
qed

theorem served_only_if_admitted_witness:
  "AllowedString (Allow (service_ex ''ws'' ''/s'' [''10.0.0.0/8''])) ''10.1.2.3:5555''"
proof -
  let ?s = "service_ex ''ws'' ''/s'' [''10.0.0.0/8'']"
  let ?R = "ServeHTTP (\<lambda>_ _. []) 0 (NewHandler [?s]) (request_ex ''10.1.2.3:5555'' ''/s/t'') None"
  have "fst ?R = Bridged ?s" by code_simp
  then have "?R = (Bridged ?s, snd ?R)" by (metis prod.collapse)
  from served_only_if_admitted[OF this] show ?thesis by (simp add: request_ex_def)
qed

text \<open>
  C16. Repeated failures lock the source out: once the response to a request made the throttle
  ban its source at time \<open>t\<close>, no request from that address reaches any service of any host
  until the ban ends, whatever else the throttle is asked or told in between.
\<close>

theorem banned_source_locked_out:
  assumes "wf_banner b" "remoteIP (RemoteAddr r) = Some a"
    and "ServeHTTP proxy t h r (Some b) = (Proxied s, Some b1)" "Mode s \<noteq> ''ws''"
    and "Counts (snd (Blocked t a b)) (Method r) (URLPath r)
           (recorded_status (proxy s (applyRequestRewrite s (ReqHost r) r)))"
    and "fst (fst (Fail t a (snd (Blocked t a b))))"
    and "\<forall>ev \<in> set evs. t \<le> fst ev \<and> fst ev < t + BanDuration (cfg b)"
    and "t2 < t + BanDuration (cfg b)" "remoteIP (RemoteAddr r2) = Some a"
  shows "fst (ServeHTTP proxy2 t2 h2 r2 (Some (fold ban_step evs b1))) \<in> {NotFound, Forbidden}"
proof -
  let ?b0 = "snd (Blocked t a b)"
  have out: "Proxied s = Proxied s \<or> Proxied s = Bridged s" by simp
  obtain rh where "Some b1 = (if Mode s = ''ws'' then snd (check_blocked t (remoteIP (RemoteAddr r)) (Some b))
            else account t r (remoteIP (RemoteAddr r))
                   (recorded_status (proxy s (applyRequestRewrite s (ReqHost r) r)))
                   (snd (check_blocked t (remoteIP (RemoteAddr r)) (Some b))))"
    by (rule ServeHTTP_reaches[OF assms(3) out])
  then have b1: "b1 = snd (Fail t a ?b0)"
    using assms(2,4,5) by (auto simp: check_blocked_def account_def split: prod.splits)
  have "wf_banner ?b0" "cfg ?b0 = cfg b" using assms(1) wf_Blocked by (auto simp: Blocked_frame)
  then have "fst (Blocked t2 a (fold ban_step evs b1))"
    using assms(6,7,8) ban_persists[of ?b0 t a evs t2] by (simp add: b1)
  then have blocked: "fst (check_blocked t2 (remoteIP (RemoteAddr r2)) (Some (fold ban_step evs b1)))"
    using assms(9) by (simp add: check_blocked_fst)
  obtain out2 bn2 where o2: "ServeHTTP proxy2 t2 h2 r2 (Some (fold ban_step evs b1)) = (out2, bn2)" by fastforce
  show ?thesis
  proof (cases out2)
    case (Bridged x)
    with blocked ServeHTTP_reaches[OF o2, of x] show ?thesis by metis
  next
    case (Proxied x)
    with blocked ServeHTTP_reaches[OF o2, of x] show ?thesis by metis
  qed (simp_all add: o2)
qed

definition throttle_ex :: banner where
  "throttle_ex = snd (Fail 0 (Addr4 0x0a010203) (Ban.New cfg_ex))"

theorem banned_source_locked_out_witness:
  "fst (ServeHTTP (\<lambda>_ _. []) 50 (NewHandler [service_ex ''http'' '''' []]) (request_ex ''10.1.2.3:6'' ''/'')
      (Some (the (snd (ServeHTTP (\<lambda>_ _. [CallWriteHeader 401]) 1 (NewHandler [service_ex ''http'' '''' []])
        (request_ex ''10.1.2.3:5'' ''/login'') (Some throttle_ex)))))) \<in> {NotFound, Forbidden}"
proof -
  let ?s = "service_ex ''http'' '''' []" and ?r = "request_ex ''10.1.2.3:5'' ''/login''"
  let ?p = "\<lambda>_ _. [CallWriteHeader 401]" and ?a = "Addr4 0x0a010203"
  let ?R = "ServeHTTP ?p 1 (NewHandler [?s]) ?r (Some throttle_ex)"
  have w: "wf_banner throttle_ex" using wf_Fail[OF wf_New] by (simp add: throttle_ex_def)
  have i: "remoteIP (RemoteAddr ?r) = Some ?a" "remoteIP (RemoteAddr (request_ex ''10.1.2.3:6'' ''/'')) = Some ?a"
    by code_simp+
  have "fst ?R = Proxied ?s" "\<not> Option.is_none (snd ?R)" by code_simp+
  then have "fst ?R = Proxied ?s" "snd ?R = Some (the (snd ?R))"
    by (simp_all add: Option.is_none_def)
  then have R: "?R = (Proxied ?s, Some (the (snd ?R)))" by (metis prod.collapse)
  have m: "Mode ?s \<noteq> ''ws''" by code_simp
  have c: "Counts (snd (Blocked 1 ?a throttle_ex)) (Method ?r) (URLPath ?r)
      (recorded_status (?p ?s (applyRequestRewrite ?s (ReqHost ?r) ?r)))" by code_simp
  have f: "fst (fst (Fail 1 ?a (snd (Blocked 1 ?a throttle_ex))))" by code_simp
  have t: "(50 :: time) < 1 + BanDuration (cfg throttle_ex)" by code_simp
  from banned_source_locked_out[OF w i(1) R m c f, of "[]" 50, OF _ t i(2)] show ?thesis by simp
qed

text \<open>
  Stripping the prefix maps the service's tree onto the upstream's root: for a request under
  the service's path, the forwarded path is the part after that path, or \<^verbatim>\<open>/\<close> when nothing is
  left, under the added prefix; it always is absolute when no prefix is added.
\<close>

theorem strip_prefix_maps_to_root:
  assumes "StripPrefix s" "Path s \<noteq> ''''" "Path s \<noteq> ''/''" "pathHasPrefix path (Path s)"
  shows "\<exists>rest. path = TrimSuffix (Path s) ''/'' @ rest \<and> (rest = '''' \<or> HasPrefix rest ''/'') \<and>
    rewritten_path s path =
      (if AddPrefix s = '''' then '''' else TrimSuffix (AddPrefix s) ''/'') @ (if rest = '''' then ''/'' else rest)"
proof -
  from assms(4) obtain rest where r: "path = TrimSuffix (Path s) ''/'' @ rest" "rest = '''' \<or> HasPrefix rest ''/''"
    unfolding pathHasPrefix_iff[OF assms(2,3)] by (metis HasPrefix_append append.right_neutral)
  then show ?thesis
    using assms(1-3) by (intro exI[of _ rest]) (auto simp: rewritten_path_def Let_def HasPrefix_def)
qed

theorem strip_prefix_maps_to_root_witness:
  "rewritten_path ((service_ex ''http'' ''/app/'' [])\<lparr>StripPrefix := True, AddPrefix := ''/v2/''\<rparr>) ''/app/users'' = ''/v2/users''"
proof -
  let ?s = "(service_ex ''http'' ''/app/'' [])\<lparr>StripPrefix := True, AddPrefix := ''/v2/''\<rparr>"
  have "StripPrefix ?s" by simp
  moreover have "Path ?s \<noteq> ''''" "Path ?s \<noteq> ''/''" "pathHasPrefix ''/app/users'' (Path ?s)" by code_simp+
  ultimately obtain rest where r: "''/app/users'' = TrimSuffix (Path ?s) ''/'' @ rest"
    "rewritten_path ?s ''/app/users'' =
      (if AddPrefix ?s = '''' then '''' else TrimSuffix (AddPrefix ?s) ''/'') @ (if rest = '''' then ''/'' else rest)"
    using strip_prefix_maps_to_root by blast
  have "TrimSuffix (Path ?s) ''/'' = ''/app''" "TrimSuffix (AddPrefix ?s) ''/'' = ''/v2''" by code_simp+
  moreover from this r(1) have "rest = ''/users''" by simp
  ultimately show ?thesis using r(2) by simp
qed

text \<open>
  First come, first served has a hole: of two services whose paths differ only by a final
  slash, which the registry lets different clients own, the one with the slash gets every
  request of both.
\<close>

theorem trailing_slash_takes_over:
  assumes "Path s = p" "Path t = p @ ''/''" "p \<noteq> ''''" "p \<noteq> ''/''" "\<not> HasSuffix p ''/''"
  shows "\<not> samePath (Path t) (Path s) \<and> pathHasPrefix path p = pathHasPrefix path (p @ ''/'') \<and>
    (pathHasPrefix path p \<longrightarrow> map_option svc (match (NewHandler [s, t]) path) = Some t)"
proof -
  have "TrimSuffix p ''/'' = p" using assms(5) by (simp add: TrimSuffix_def)
  then have e: "pathHasPrefix path p = pathHasPrefix path (p @ ''/'')"
    using assms(3,4) pathHasPrefix_iff[of p path] pathHasPrefix_iff[of "p @ ''/''" path] by simp
  moreover have "\<not> samePath (Path t) (Path s)" using assms by (simp add: samePath_def normPath_def)
  ultimately show ?thesis using assms by (simp add: match_def NewHandler_def)
qed

theorem trailing_slash_takes_over_witness:
  "map_option svc (match (NewHandler [service_ex ''http'' ''/app'' [], service_ex ''ws'' ''/app/'' []]) ''/app/x'') =
     Some (service_ex ''ws'' ''/app/'' [])"
proof -
  have "Path (service_ex ''http'' ''/app'' []) = ''/app''" "Path (service_ex ''ws'' ''/app/'' []) = ''/app'' @ ''/''"
    "''/app'' \<noteq> ''''" "''/app'' \<noteq> ''/''" "\<not> HasSuffix ''/app'' ''/''" by code_simp+
  from trailing_slash_takes_over[OF this, of "''/app/x''"] show ?thesis
    by (auto simp: pathHasPrefix_def HasPrefix_def TrimSuffix_def HasSuffix_def)
qed

text \<open>
  An informational response hides the real status from the throttle: after a 103 the
  recorder keeps 103, so a following 401 is not counted.
\<close>

theorem informational_status_sticks:
  "recorded_status [CallWriteHeader 103, CallWriteHeader 401] = 103 \<and>
   Counts (Ban.New cfg_ex) ''POST'' ''/login'' 401 \<and> \<not> Counts (Ban.New cfg_ex) ''POST'' ''/login'' 103"
  by code_simp

end
