(* ===== verification/Sni.thy ===== *)
theory Sni
  imports Tbox_Prelude
begin

text \<open>
  \<^verbatim>\<open>internal/l4router/clienthello.go\<close> and the replaying connection of \<^verbatim>\<open>router.go\<close>: reading the
  server name out of a TLS ClientHello without losing the bytes. The byte parser is the source's
  record of a buffer and a position. A connection is the bytes the peer sends before it closes
  or the deadline strikes; \<^verbatim>\<open>io.ReadFull\<close> consumes what there is, also when it fails.
\<close>

subsection \<open>The byte parser\<close>

record parser =
  buf :: bytes
  pos :: nat

definition newParser :: "bytes \<Rightarrow> parser" where
  "newParser b = \<lparr>buf = b, pos = 0\<rparr>"

definition remaining :: "parser \<Rightarrow> nat" where
  "remaining p = length (buf p) - pos p"

definition parser_bytes :: "nat \<Rightarrow> parser \<Rightarrow> bytes option \<times> parser" where
  "parser_bytes n p =
     (if pos p + n > length (buf p) then (None, p)
      else (Some (take n (drop (pos p) (buf p))), p\<lparr>pos := pos p + n\<rparr>))"

definition parser_u8 :: "parser \<Rightarrow> byte option \<times> parser" where
  "parser_u8 p =
     (case parser_bytes 1 p of
        (None, p1) \<Rightarrow> (None, p1)
      | (Some b, p1) \<Rightarrow> (Some (b ! 0), p1))"

definition parser_u16 :: "parser \<Rightarrow> u16 option \<times> parser" where
  "parser_u16 p =
     (case parser_bytes 2 p of
        (None, p1) \<Rightarrow> (None, p1)
      | (Some b, p1) \<Rightarrow> (Some (push_bit 8 (ucast (b ! 0)) OR ucast (b ! 1)), p1))"

definition mustBytes :: "nat \<Rightarrow> parser \<Rightarrow> bytes" where
  "mustBytes n p = (case fst (parser_bytes n p) of None \<Rightarrow> [] | Some b \<Rightarrow> b)"

text \<open>A result whose \<^verbatim>\<open>ok\<close> the source ignores: the zero value on failure.\<close>

definition or_zero :: "('a::zero) option \<times> parser \<Rightarrow> 'a \<times> parser" where
  "or_zero r = (case fst r of None \<Rightarrow> 0 | Some v \<Rightarrow> v, snd r)"

lemma parser_bytes_step:
  assumes "parser_bytes n p = (Some b, p')"
  shows "buf p' = buf p" "pos p' = pos p + n" "pos p' \<le> length (buf p)" "b = take n (drop (pos p) (buf p))"
  using assms by (auto simp: parser_bytes_def split: if_splits)

lemma parser_bytes_buf: "buf (snd (parser_bytes n p)) = buf p" "pos p \<le> pos (snd (parser_bytes n p))"
  by (simp_all add: parser_bytes_def)

lemma snd_parser_u8: "snd (parser_u8 p) = snd (parser_bytes 1 p)"
  by (simp add: parser_u8_def split: prod.split option.split)

lemma snd_parser_u16: "snd (parser_u16 p) = snd (parser_bytes 2 p)"
  by (simp add: parser_u16_def split: prod.split option.split)

text \<open>A loop turn that reads a header of \<open>k + m\<close> bytes and then a body moves on.\<close>

lemma parser_advance:
  assumes "1 \<le> k" "k \<le> remaining p" "p1 = snd (parser_bytes k p)" "p2 = snd (parser_bytes m p1)"
    and "(Some d, p3) = parser_bytes n p2"
  shows "remaining p3 < remaining p"
proof -
  have "buf p1 = buf p" "pos p1 = pos p + k"
    using assms(1-3) by (auto simp: parser_bytes_def remaining_def)
  moreover from this have "buf p2 = buf p" "pos p2 \<ge> pos p + k"
    using assms(4) parser_bytes_buf(1)[of m p1] parser_bytes_buf(2)[of p1 m] by auto
  ultimately show ?thesis
    using parser_bytes_step[OF assms(5)[symmetric]] assms(1,2) by (auto simp: remaining_def)
qed

subsection \<open>The server name\<close>

function names_loop :: "parser \<Rightarrow> string" where
  "names_loop p =
     (if remaining p \<ge> 3 then
        let (nameType, p1) = or_zero (parser_u8 p);
            (nameLen, p2) = or_zero (parser_u16 p1)
        in case parser_bytes (unat nameLen) p2 of
             (None, _) \<Rightarrow> ''''
           | (Some name, p3) \<Rightarrow> if nameType = 0x00 then string_of_bytes name else names_loop p3
      else '''')"
  by pat_completeness auto
termination
proof (relation "measure remaining", goal_cases)
  case (2 p x ty p1 y nl p2 ob p3 name)
  then have "p1 = snd (parser_bytes 1 p)" "p2 = snd (parser_bytes 2 p1)"
    "(Some name, p3) = parser_bytes (unat nl) p2"
    by (auto simp: or_zero_def snd_parser_u8 snd_parser_u16)
  from parser_advance[OF _ _ this] 2(1) show ?case by simp
qed simp

definition parseSNIExtension :: "bytes \<Rightarrow> string" where
  "parseSNIExtension b =
     (case parser_u16 (newParser b) of
        (None, _) \<Rightarrow> ''''
      | (Some _, p) \<Rightarrow> names_loop p)"

function ext_loop :: "parser \<Rightarrow> string" where
  "ext_loop p =
     (if remaining p \<ge> 4 then
        let (extType, p1) = or_zero (parser_u16 p);
            (extLen, p2) = or_zero (parser_u16 p1)
        in case parser_bytes (unat extLen) p2 of
             (None, _) \<Rightarrow> ''''
           | (Some extData, p3) \<Rightarrow>
               if extType = 0x0000 then parseSNIExtension extData else ext_loop p3
      else '''')"
  by pat_completeness auto
termination
proof (relation "measure remaining", goal_cases)
  case (2 p x ty p1 y nl p2 ob p3 name)
  then have "p1 = snd (parser_bytes 2 p)" "p2 = snd (parser_bytes 2 p1)"
    "(Some name, p3) = parser_bytes (unat nl) p2"
    by (auto simp: or_zero_def snd_parser_u8 snd_parser_u16)
  from parser_advance[OF _ _ this] 2(1) show ?case by simp
qed simp

declare names_loop.simps [simp del] ext_loop.simps [simp del]

text \<open>A guard of the source: on a failed read the answer is the empty name.\<close>

definition read_or_empty :: "'a option \<times> parser \<Rightarrow> ('a \<Rightarrow> parser \<Rightarrow> string) \<Rightarrow> string" where
  "read_or_empty r k = (case r of (None, _) \<Rightarrow> '''' | (Some v, p) \<Rightarrow> k v p)"

definition parseSNIFromHandshake :: "bytes \<Rightarrow> string" where
  "parseSNIFromHandshake b =
     read_or_empty (parser_u8 (newParser b)) (\<lambda>htype p.
     if htype \<noteq> 0x01 then '''' else
     read_or_empty (parser_bytes 3 p) (\<lambda>_ p.
     read_or_empty (parser_bytes 2 p) (\<lambda>_ p.
     read_or_empty (parser_bytes 32 p) (\<lambda>_ p.
     read_or_empty (parser_u8 p) (\<lambda>sidLen p.
     read_or_empty (parser_bytes (unat sidLen) p) (\<lambda>_ p.
     read_or_empty (parser_u16 p) (\<lambda>csLen p.
     read_or_empty (parser_bytes (unat csLen) p) (\<lambda>_ p.
     read_or_empty (parser_u8 p) (\<lambda>cmLen p.
     read_or_empty (parser_bytes (unat cmLen) p) (\<lambda>_ p.
     read_or_empty (parser_u16 p) (\<lambda>extTotal p.
       ext_loop (newParser (mustBytes (unat extTotal) p)))))))))))))"

subsection \<open>Peeking\<close>

datatype peek_error = ShortRead | NotHandshake | InvalidLength

record peek =
  sni :: string
  raw :: bytes
  err :: "peek_error option"
  left :: bytes \<comment> \<open>what is still unread on the connection\<close>

definition record_length :: "bytes \<Rightarrow> nat" where
  "record_length hdr = unat (hdr ! 3) * 256 + unat (hdr ! 4)"

definition peekClientHelloSNI :: "bytes \<Rightarrow> peek" where
  "peekClientHelloSNI stream =
     (case ReadFull 5 stream of
        None \<Rightarrow> \<lparr>sni = '''', raw = [], err = Some ShortRead, left = []\<rparr>
      | Some (hdr, s1) \<Rightarrow>
          if hdr ! 0 \<noteq> 0x16 then \<lparr>sni = '''', raw = hdr, err = Some NotHandshake, left = s1\<rparr>
          else let recLen = record_length hdr in
            if recLen \<le> 0 \<or> recLen > 16 * 1024
            then \<lparr>sni = '''', raw = hdr, err = Some InvalidLength, left = s1\<rparr>
            else case ReadFull recLen s1 of
                None \<Rightarrow> \<lparr>sni = '''', raw = hdr @ s1 @ replicate (recLen - length s1) 0,
                         err = Some ShortRead, left = []\<rparr>
              | Some (body, s2) \<Rightarrow>
                  \<lparr>sni = parseSNIFromHandshake body, raw = hdr @ body, err = None, left = s2\<rparr>)"

text \<open>\<^verbatim>\<open>newPrefixConn\<close>: what a reader of the replaying connection gets.\<close>

definition newPrefixConn :: "peek \<Rightarrow> bytes" where
  "newPrefixConn pk = raw pk @ left pk"
subsection \<open>Lemmas: what the parser sees\<close>

definition rest :: "parser \<Rightarrow> bytes" where
  "rest p = drop (pos p) (buf p)"

lemma rest_newParser [simp]: "rest (newParser b) = b"
  by (simp add: rest_def newParser_def)

lemma remaining_rest: "remaining p = length (rest p)"
  by (simp add: remaining_def rest_def)

text \<open>Reading a known piece of the rest leaves what follows it.\<close>

lemma parser_bytes_rest:
  assumes "rest p = xs @ ys" "xs @ ys \<noteq> [] \<or> pos p \<le> length (buf p)" "length xs = n"
  obtains p' where "parser_bytes n p = (Some xs, p')" "rest p' = ys" "pos p' \<le> length (buf p')"
proof -
  have len: "length (buf p) - pos p = n + length ys"
    using arg_cong[OF assms(1), of length] assms(3) by (simp add: rest_def)
  have le: "pos p \<le> length (buf p)"
    using assms(2) len assms(3) by (cases xs; cases ys) auto
  have "parser_bytes n p = (Some xs, p\<lparr>pos := pos p + n\<rparr>)"
    using len le assms(1,3) by (simp add: parser_bytes_def rest_def)
  moreover have "rest (p\<lparr>pos := pos p + n\<rparr>) = ys"
    using assms(1,3) unfolding rest_def
    by simp (metis add.commute append_eq_conv_conj drop_drop)
  moreover have "pos (p\<lparr>pos := pos p + n\<rparr>) \<le> length (buf (p\<lparr>pos := pos p + n\<rparr>))"
    using len le by simp
  ultimately show thesis by (rule that)
qed

lemma u16_value: "unat (push_bit 8 (ucast (a :: byte)) OR ucast (b :: byte) :: u16) = unat a * 256 + unat b"
proof -
  have "push_bit 8 (ucast a :: u16) OR ucast b = push_bit 8 (ucast a) + ucast b"
    by (rule disjunctive_add[symmetric]) (auto simp: bit_simps dest: bit_imp_le_length)
  moreover have "unat (push_bit 8 (ucast a) :: u16) = unat a * 256"
  proof -
    have m: "unat a mod 65536 = unat a" "unat a * 256 mod 65536 = unat a * 256"
      using unat_byte_less[of a] by (simp_all del: unat_byte_less)
    show ?thesis
      by (simp only: unsigned_push_bit_eq unsigned_ucast_eq) (simp add: push_bit_eq_mult take_bit_eq_mod m)
  qed
  moreover have "unat (ucast b :: u16) = unat b"
  proof -
    have m: "unat b mod 65536 = unat b" using unat_byte_less[of b] by (simp del: unat_byte_less)
    show ?thesis by (simp only: unsigned_ucast_eq) (simp add: take_bit_eq_mod m)
  qed
  moreover have "unat a * 256 + unat b < 65536"
    using unat_byte_less[of a] unat_byte_less[of b] by linarith
  ultimately show ?thesis by (simp add: unat_word_ariths)
qed

lemma parser_u8_rest:
  assumes "rest p = x # ys"
  obtains p' where "parser_u8 p = (Some x, p')" "rest p' = ys" "pos p' \<le> length (buf p')"
proof -
  obtain p' where "parser_bytes 1 p = (Some [x], p')" "rest p' = ys" "pos p' \<le> length (buf p')"
    using parser_bytes_rest[of p "[x]" ys 1] assms by auto
  then show thesis by (intro that) (auto simp: parser_u8_def)
qed

lemma parser_u16_rest:
  assumes "rest p = put_u16 n @ ys" "n < 65536"
  obtains p' where "parser_u16 p = (Some (of_nat n), p')" "rest p' = ys" "pos p' \<le> length (buf p')"
proof -
  obtain p' where p: "parser_bytes 2 p = (Some (put_u16 n), p')" "rest p' = ys" "pos p' \<le> length (buf p')"
    using parser_bytes_rest[of p "put_u16 n" ys 2] assms(1) by (auto simp: put_u16_def)
  have "unat (push_bit 8 (ucast (put_u16 n ! 0)) OR ucast (put_u16 n ! 1) :: u16) = be_val (put_u16 n)"
    by (simp add: u16_value put_u16_def)
  also have "\<dots> = unat (of_nat n :: u16)" using assms(2) by (simp add: be_val_put_u16 unat_of_nat take_bit_eq_mod)
  finally have "parser_u16 p = (Some (of_nat n), p')"
    by (simp add: parser_u16_def p(1) word_unat_eq_iff)
  then show thesis using p by (intro that)
qed

lemma unat_u16 [simp]: "n < 65536 \<Longrightarrow> unat (of_nat n :: u16) = n"
  by (simp add: unat_of_nat take_bit_eq_mod)

lemma unat_u8: "n < 256 \<Longrightarrow> unat (of_nat n :: byte) = n"
  by (simp add: unat_of_nat take_bit_eq_mod)

subsection \<open>A ClientHello and its server name\<close>

text \<open>The wire format the parser is for: extensions and server names, and the whole message.\<close>

definition enc_name :: "byte \<times> bytes \<Rightarrow> bytes" where
  "enc_name = (\<lambda>(t, n). t # put_u16 (length n) @ n)"

definition enc_ext :: "nat \<times> bytes \<Rightarrow> bytes" where
  "enc_ext = (\<lambda>(t, d). put_u16 t @ put_u16 (length d) @ d)"

definition sni_ext :: "nat \<Rightarrow> (byte \<times> bytes) list \<Rightarrow> bytes" where
  "sni_ext l names = put_u16 l @ concat (map enc_name names)"

record hello =
  h_len :: bytes
  h_version :: bytes
  h_random :: bytes
  h_session :: bytes
  h_suites :: bytes
  h_compression :: bytes
  h_exts :: "(nat \<times> bytes) list"

definition enc_hello :: "hello \<Rightarrow> bytes" where
  "enc_hello h =
     0x01 # h_len h @ h_version h @ h_random h
       @ of_nat (length (h_session h)) # h_session h
       @ put_u16 (length (h_suites h)) @ h_suites h
       @ of_nat (length (h_compression h)) # h_compression h
       @ put_u16 (length (concat (map enc_ext (h_exts h)))) @ concat (map enc_ext (h_exts h))"

definition wf_hello :: "hello \<Rightarrow> bool" where
  "wf_hello h \<longleftrightarrow> length (h_len h) = 3 \<and> length (h_version h) = 2 \<and> length (h_random h) = 32 \<and>
     length (h_session h) < 256 \<and> length (h_suites h) < 65536 \<and> length (h_compression h) < 256 \<and>
     length (concat (map enc_ext (h_exts h))) < 65536 \<and> (\<forall>(t, d) \<in> set (h_exts h). t < 65536)"

lemma names_loop_finds:
  assumes "rest p = concat (map enc_name pre) @ enc_name (0, n) @ tail"
    and "\<forall>(t, m) \<in> set pre. t \<noteq> 0 \<and> length m < 65536" "length n < 65536"
  shows "names_loop p = string_of_bytes n"
  using assms(1,2)
proof (induction pre arbitrary: p)
  case Nil
  then have r: "rest p = 0 # put_u16 (length n) @ n @ tail" by (simp add: enc_name_def)
  obtain p1 where 1: "parser_u8 p = (Some 0, p1)" "rest p1 = put_u16 (length n) @ n @ tail"
    by (rule parser_u8_rest[OF r])
  obtain p2 where 2: "parser_u16 p1 = (Some (of_nat (length n)), p2)" "rest p2 = n @ tail" "pos p2 \<le> length (buf p2)"
    by (rule parser_u16_rest[OF 1(2) assms(3)])
  obtain p3 where 3: "parser_bytes (length n) p2 = (Some n, p3)"
    using parser_bytes_rest[OF 2(2)] 2(3) by metis
  show ?case
    using r assms(3) by (subst names_loop.simps) (simp add: remaining_rest or_zero_def 1 2 3)
next
  case (Cons tm pre)
  obtain t m where tm: "tm = (t, m)" by (cases tm)
  let ?more = "concat (map enc_name pre) @ enc_name (0, n) @ tail"
  have t: "t \<noteq> 0" "length m < 65536" using Cons.prems tm by auto
  have r: "rest p = t # put_u16 (length m) @ m @ ?more"
    using Cons.prems(1) by (simp add: tm enc_name_def)
  obtain p1 where 1: "parser_u8 p = (Some t, p1)" "rest p1 = put_u16 (length m) @ m @ ?more"
    by (rule parser_u8_rest[OF r])
  obtain p2 where 2: "parser_u16 p1 = (Some (of_nat (length m)), p2)" "rest p2 = m @ ?more" "pos p2 \<le> length (buf p2)"
    by (rule parser_u16_rest[OF 1(2) t(2)])
  obtain p3 where 3: "parser_bytes (length m) p2 = (Some m, p3)" "rest p3 = ?more"
    using parser_bytes_rest[OF 2(2)] 2(3) by metis
  have "names_loop p = names_loop p3"
    using r t by (subst names_loop.simps) (simp add: remaining_rest or_zero_def 1 2 3)
  then show ?case using Cons.IH[OF 3(2)] Cons.prems(2) by simp
qed

lemma parseSNIExtension_finds:
  assumes "d = sni_ext l (pre @ (0, n) # post)" "l < 65536"
    and "\<forall>(t, m) \<in> set pre. t \<noteq> 0 \<and> length m < 65536" "length n < 65536"
  shows "parseSNIExtension d = string_of_bytes n"
proof -
  have r: "rest (newParser d) = put_u16 l @ concat (map enc_name pre) @ enc_name (0, n) @ concat (map enc_name post)"
    by (simp add: assms(1) sni_ext_def)
  obtain p where "parser_u16 (newParser d) = (Some (of_nat l), p)"
    "rest p = concat (map enc_name pre) @ enc_name (0, n) @ concat (map enc_name post)"
    by (rule parser_u16_rest[OF r assms(2)])
  then show ?thesis using names_loop_finds[OF _ assms(3,4)] by (simp add: parseSNIExtension_def)
qed

lemma ext_loop_finds:
  assumes "rest p = concat (map enc_ext pre) @ enc_ext (0, d) @ tail"
    and "\<forall>(t, m) \<in> set pre. t \<noteq> 0 \<and> t < 65536 \<and> length m < 65536" "length d < 65536"
  shows "ext_loop p = parseSNIExtension d"
  using assms(1,2)
proof (induction pre arbitrary: p)
  case Nil
  then have r: "rest p = put_u16 0 @ put_u16 (length d) @ d @ tail" by (simp add: enc_ext_def)
  obtain p1 where 1: "parser_u16 p = (Some (of_nat 0), p1)" "rest p1 = put_u16 (length d) @ d @ tail"
    by (rule parser_u16_rest[OF r]) simp_all
  obtain p2 where 2: "parser_u16 p1 = (Some (of_nat (length d)), p2)" "rest p2 = d @ tail" "pos p2 \<le> length (buf p2)"
    by (rule parser_u16_rest[OF 1(2) assms(3)])
  obtain p3 where 3: "parser_bytes (length d) p2 = (Some d, p3)"
    using parser_bytes_rest[OF 2(2)] 2(3) by metis
  show ?case
    using r assms(3) by (subst ext_loop.simps) (simp add: remaining_rest or_zero_def 1 2 3)
next
  case (Cons tm pre)
  obtain t m where tm: "tm = (t, m)" by (cases tm)
  let ?more = "concat (map enc_ext pre) @ enc_ext (0, d) @ tail"
  have t: "t \<noteq> 0" "t < 65536" "length m < 65536" using Cons.prems tm by auto
  have z: "(of_nat t :: u16) \<noteq> 0" using t by (metis unat_u16 unat_0)
  have r: "rest p = put_u16 t @ put_u16 (length m) @ m @ ?more"
    using Cons.prems(1) by (simp add: tm enc_ext_def)
  obtain p1 where 1: "parser_u16 p = (Some (of_nat t), p1)" "rest p1 = put_u16 (length m) @ m @ ?more"
    by (rule parser_u16_rest[OF r t(2)])
  obtain p2 where 2: "parser_u16 p1 = (Some (of_nat (length m)), p2)" "rest p2 = m @ ?more" "pos p2 \<le> length (buf p2)"
    by (rule parser_u16_rest[OF 1(2) t(3)])
  obtain p3 where 3: "parser_bytes (length m) p2 = (Some m, p3)" "rest p3 = ?more"
    using parser_bytes_rest[OF 2(2)] 2(3) by metis
  have "ext_loop p = ext_loop p3"
    using r t z by (subst ext_loop.simps) (simp add: remaining_rest or_zero_def 1 2 3)
  then show ?case using Cons.IH[OF 3(2)] Cons.prems(2) by simp
qed

lemma length_enc_ext: "length d \<le> length (concat (map enc_ext es))" if "(t, d) \<in> set es"
  using that by (induction es) (auto simp: enc_ext_def)

lemma hello_finds:
  assumes "wf_hello h" "h_exts h = pre @ (0, d) # post" "\<forall>(t, m) \<in> set pre. t \<noteq> 0"
  shows "parseSNIFromHandshake (enc_hello h) = parseSNIExtension d"
proof -
  let ?E = "concat (map enc_ext (h_exts h))"
  let ?e = "put_u16 (length ?E) @ ?E"
  let ?c = "of_nat (length (h_compression h)) # h_compression h @ ?e"
  let ?s = "put_u16 (length (h_suites h)) @ h_suites h @ ?c"
  let ?i = "of_nat (length (h_session h)) # h_session h @ ?s"
  have w: "length (h_len h) = 3" "length (h_version h) = 2" "length (h_random h) = 32"
    "length (h_session h) < 256" "length (h_suites h) < 65536" "length (h_compression h) < 256"
    "length ?E < 65536" "\<forall>(t, d) \<in> set (h_exts h). t < 65536"
    using assms(1) by (simp_all add: wf_hello_def)
  have r: "rest (newParser (enc_hello h)) = 1 # h_len h @ h_version h @ h_random h @ ?i"
    by (simp add: enc_hello_def)
  obtain p1 where 1: "parser_u8 (newParser (enc_hello h)) = (Some 1, p1)"
    "rest p1 = h_len h @ h_version h @ h_random h @ ?i" by (rule parser_u8_rest[OF r])
  obtain p2 where 2: "parser_bytes 3 p1 = (Some (h_len h), p2)" "rest p2 = h_version h @ h_random h @ ?i"
    using parser_bytes_rest[OF 1(2) _ w(1)] by auto
  obtain p3 where 3: "parser_bytes 2 p2 = (Some (h_version h), p3)" "rest p3 = h_random h @ ?i"
    using parser_bytes_rest[OF 2(2) _ w(2)] by auto
  obtain p4 where 4: "parser_bytes 32 p3 = (Some (h_random h), p4)" "rest p4 = ?i"
    using parser_bytes_rest[OF 3(2) _ w(3)] by auto
  obtain p5 where 5: "parser_u8 p4 = (Some (of_nat (length (h_session h))), p5)" "rest p5 = h_session h @ ?s"
    by (rule parser_u8_rest[OF 4(2)])
  obtain p6 where 6: "parser_bytes (length (h_session h)) p5 = (Some (h_session h), p6)" "rest p6 = ?s"
    using parser_bytes_rest[OF 5(2) _ refl] by (auto simp: put_u16_def)
  obtain p7 where 7: "parser_u16 p6 = (Some (of_nat (length (h_suites h))), p7)" "rest p7 = h_suites h @ ?c"
    by (rule parser_u16_rest[OF 6(2) w(5)])
  obtain p8 where 8: "parser_bytes (length (h_suites h)) p7 = (Some (h_suites h), p8)" "rest p8 = ?c"
    using parser_bytes_rest[OF 7(2) _ refl] by auto
  obtain p9 where 9: "parser_u8 p8 = (Some (of_nat (length (h_compression h))), p9)" "rest p9 = h_compression h @ ?e"
    by (rule parser_u8_rest[OF 8(2)])
  obtain q1 where q1: "parser_bytes (length (h_compression h)) p9 = (Some (h_compression h), q1)" "rest q1 = ?e"
    using parser_bytes_rest[OF 9(2) _ refl] by (auto simp: put_u16_def)
  obtain q2 where q2: "parser_u16 q1 = (Some (of_nat (length ?E)), q2)" "rest q2 = ?E" "pos q2 \<le> length (buf q2)"
    by (rule parser_u16_rest[OF q1(2) w(7)])
  obtain q3 where "parser_bytes (length ?E) q2 = (Some ?E, q3)"
    by (rule parser_bytes_rest[of q2 ?E "[]" "length ?E"]) (use q2 in simp_all)
  then have m: "mustBytes (length ?E) q2 = ?E" by (simp add: mustBytes_def)
  have u: "unat (of_nat (length (h_session h)) :: byte) = length (h_session h)"
    "unat (of_nat (length (h_suites h)) :: u16) = length (h_suites h)"
    "unat (of_nat (length (h_compression h)) :: byte) = length (h_compression h)"
    "unat (of_nat (length ?E) :: u16) = length ?E"
    using unat_u8[OF w(4)] unat_u16[OF w(5)] unat_u8[OF w(6)] unat_u16[OF w(7)] by blast+
  have "parseSNIFromHandshake (enc_hello h) = ext_loop (newParser ?E)"
    unfolding parseSNIFromHandshake_def read_or_empty_def
    by (simp only: 1(1) 2(1) 3(1) 4(1) 5(1) 6(1) 7(1) 8(1) 9(1) q1(1) q2(1) u m prod.case option.case) simp
  also have "\<dots> = parseSNIExtension d"
  proof (rule ext_loop_finds)
    show "rest (newParser ?E) = concat (map enc_ext pre) @ enc_ext (0, d) @ concat (map enc_ext post)"
      by (simp add: assms(2))
    show "length d < 65536" using length_enc_ext[of 0 d "h_exts h"] assms(2) w(7) by simp
    show "\<forall>(t, m) \<in> set pre. t \<noteq> 0 \<and> t < 65536 \<and> length m < 65536"
    proof clarify
      fix t m assume tm: "(t, m) \<in> set pre"
      then have e: "(t, m) \<in> set (h_exts h)" by (simp add: assms(2))
      show "t \<noteq> 0 \<and> t < 65536 \<and> length m < 65536"
        using tm e assms(3) w(7,8) length_enc_ext[OF e] by auto
    qed
  qed
  finally show ?thesis .
qed

subsection \<open>Properties\<close>

definition tls_record :: "bytes \<Rightarrow> bytes \<Rightarrow> bytes" where
  "tls_record version body = 0x16 # version @ put_u16 (length body) @ body"

text \<open>
  C22. The server name a client sends is the one the router routes by: for every well-formed
  ClientHello in one record, whatever its other fields and extensions are and whatever other
  name entries precede the host name, the peek returns the host name of the first
  \<^verbatim>\<open>server_name\<close> extension, and the replaying connection still yields the whole stream.
\<close>

theorem sni_roundtrip:
  assumes "wf_hello h" "h_exts h = pre @ (0, sni_ext l (names @ (0, n) # others)) # post"
    and "\<forall>(t, m) \<in> set pre. t \<noteq> 0" "\<forall>(t, m) \<in> set names. t \<noteq> 0 \<and> length m < 65536"
    and "l < 65536" "length n < 65536" "length version = 2" "length (enc_hello h) \<le> 16 * 1024"
  shows "sni (peekClientHelloSNI (tls_record version (enc_hello h) @ tail)) = string_of_bytes n \<and>
    err (peekClientHelloSNI (tls_record version (enc_hello h) @ tail)) = None \<and>
    newPrefixConn (peekClientHelloSNI (tls_record version (enc_hello h) @ tail)) =
      tls_record version (enc_hello h) @ tail"
proof -
  let ?b = "enc_hello h"
  obtain v w where v: "version = [v, w]"
    using assms(7) by (auto simp: length_Suc_conv numeral_2_eq_2)
  have f: "parseSNIFromHandshake ?b = string_of_bytes n"
    using hello_finds[OF assms(1,2,3)] parseSNIExtension_finds[OF refl assms(5,4,6)] by simp
  have len: "0 < length ?b" "length ?b < 65536" using assms(8) by (auto simp: enc_hello_def)
  let ?hdr = "0x16 # version @ put_u16 (length ?b)"
  have r: "ReadFull 5 (tls_record version ?b @ tail) = Some (?hdr, ?b @ tail)"
    by (simp add: tls_record_def ReadFull_def v put_u16_def)
  have rl: "record_length ?hdr = length ?b"
    using be_val_put_u16[OF len(2)] by (simp add: record_length_def v put_u16_def)
  then have "peekClientHelloSNI (tls_record version ?b @ tail) =
      \<lparr>sni = string_of_bytes n, raw = ?hdr @ ?b, err = None, left = tail\<rparr>"
    using len assms(8) unfolding peekClientHelloSNI_def r
    by (simp add: Let_def ReadFull_append f)
  then show ?thesis by (simp add: newPrefixConn_def tls_record_def)
qed

definition hello_ex :: hello where
  "hello_ex = \<lparr>h_len = [0, 0, 99], h_version = [3, 3], h_random = replicate 32 7, h_session = [],
     h_suites = [0x13, 1], h_compression = [0],
     h_exts = [(10, [1, 2]), (0, sni_ext 12 [(0, bytes_of_string ''tbox.test'')])]\<rparr>"

theorem sni_roundtrip_witness:
  "sni (peekClientHelloSNI (tls_record [3, 1] (enc_hello hello_ex) @ [9])) = ''tbox.test''"
proof -
  have "wf_hello hello_ex" "length (enc_hello hello_ex) \<le> 16 * 1024" by code_simp+
  then have "sni (peekClientHelloSNI (tls_record [3, 1] (enc_hello hello_ex) @ [9])) =
      string_of_bytes (bytes_of_string ''tbox.test'')"
    using sni_roundtrip[of hello_ex "[(10, [1, 2])]" 12 "[]" "bytes_of_string ''tbox.test''" "[]" "[]" "[3, 1]" "[9]"]
    by (simp add: hello_ex_def)
  then show ?thesis by simp
qed

text \<open>
  Nothing is lost or invented on the way to the next hop: unless the read itself failed,
  a reader of the replaying connection gets exactly the bytes the peer sent, also when they
  are no TLS at all.
\<close>

theorem peek_is_transparent:
  assumes "err (peekClientHelloSNI stream) \<noteq> Some ShortRead"
  shows "newPrefixConn (peekClientHelloSNI stream) = stream"
  using assms
  by (auto simp: peekClientHelloSNI_def newPrefixConn_def Let_def split: option.splits if_splits
      dest!: ReadFull_Some)

theorem peek_is_transparent_witness:
  "newPrefixConn (peekClientHelloSNI (bytes_of_string ''GET / HTTP/1.1'')) = bytes_of_string ''GET / HTTP/1.1''"
  by (rule peek_is_transparent) code_simp

text \<open>
  When the read fails the replay is not what the peer sent: fewer than five bytes are
  dropped altogether, and a record that is cut short is padded with zero bytes to its announced
  length.
\<close>

theorem short_read_replay:
  assumes "err (peekClientHelloSNI stream) = Some ShortRead"
  shows "newPrefixConn (peekClientHelloSNI stream) =
    (if length stream < 5 then []
     else stream @ replicate (5 + record_length (take 5 stream) - length stream) 0)"
  using assms append_take_drop_id[of 5 stream]
  by (auto simp: peekClientHelloSNI_def newPrefixConn_def ReadFull_def Let_def add.commute
      split: option.splits if_splits simp flip: append_assoc simp del: append_take_drop_id)

theorem short_read_replay_witness:
  "newPrefixConn (peekClientHelloSNI [0x16, 3, 1, 0, 4, 1]) = [0x16, 3, 1, 0, 4, 1, 0, 0, 0]"
proof -
  have e: "err (peekClientHelloSNI [0x16, 3, 1, 0, 4, 1]) = Some ShortRead" by code_simp
  show ?thesis unfolding short_read_replay[OF e] by code_simp
qed

end
