(* ===== verification/L4Router.thy ===== *)
theory L4Router
  imports Publish Sni
begin

text \<open>
  \<^verbatim>\<open>internal/l4router/router.go\<close>: the public listener. A connection is the bytes its peer sends
  and its remote address; where it goes is a value. The TLS handshake of a raw service and the
  dial of its upstream are parameters (whether they succeed). The cache of publish handlers is
  the router's state; the registry and the throttle are shared with other components.
\<close>

subsection \<open>Routing a connection\<close>

datatype action =
    ToReality bytes \<comment> \<open>spliced to the embedded REALITY inbound\<close>
  | ToPublish bytes \<comment> \<open>pushed to the publish HTTP server\<close>
  | RawPipe service parsed_cert bytes \<comment> \<open>TLS terminated, piped to the service\<close>
  | Dropped

definition handleRaw :: "(parsed_cert \<Rightarrow> bytes \<Rightarrow> bool) \<Rightarrow> (service \<Rightarrow> bool) \<Rightarrow> registry \<Rightarrow> service \<Rightarrow> bytes \<Rightarrow> string \<Rightarrow> action" where
  "handleRaw handshake_ok dial_ok reg s conn remote =
     (if \<not> AllowedString (Allow s) remote then Dropped
      else case LookupCert reg (Host s) of
          None \<Rightarrow> Dropped
        | Some c \<Rightarrow>
            if \<not> handshake_ok c conn then Dropped
            else if \<not> dial_ok s then Dropped
            else RawPipe s c conn)"

definition route_conn ::
    "(parsed_cert \<Rightarrow> bytes \<Rightarrow> bool) \<Rightarrow> (service \<Rightarrow> bool) \<Rightarrow> registry \<Rightarrow> bytes \<Rightarrow> string \<Rightarrow> action" where
  "route_conn handshake_ok dial_ok reg stream remote =
     (let pk = peekClientHelloSNI stream; replayed = newPrefixConn pk in
      if err pk \<noteq> None then ToReality replayed
      else let host = ToLower (TrimSpace (sni pk)) in
        case RawService reg host of
          Some s \<Rightarrow> handleRaw handshake_ok dial_ok reg s replayed remote
        | None \<Rightarrow>
            if HasHTTPHost reg host then
              (if \<not> HTTPHostAllowed reg host remote then Dropped else ToPublish replayed)
            else ToReality replayed)"

subsection \<open>Dispatching a request\<close>

record router =
  cache :: "string \<rightharpoonup> (64 word \<times> handler)"

definition router_New :: router where
  "router_New = \<lparr>cache = Map.empty\<rparr>"

definition getCertificate :: "registry \<Rightarrow> string \<Rightarrow> parsed_cert option" where
  "getCertificate reg serverName = LookupCert reg serverName"

text \<open>\<open>tls\<close> is the server name of the TLS connection, \<open>None\<close> on a plain one.\<close>

definition dispatchHost :: "string option \<Rightarrow> request \<Rightarrow> string" where
  "dispatchHost tls r =
     (let h0 = ToLower (ReqHost r);
          h1 = (case SplitHostPort h0 of Inr (h, _) \<Rightarrow> h | Inl _ \<Rightarrow> h0)
      in if h1 = '''' \<and> tls \<noteq> None then ToLower (the tls) else h1)"

definition handlerFor :: "registry \<Rightarrow> string \<Rightarrow> service list \<Rightarrow> router \<Rightarrow> handler \<times> router" where
  "handlerFor reg host services rt =
     (case cache rt host of
        Some (ver, h) \<Rightarrow>
          if ver = version reg then (h, rt)
          else (NewHandler services, rt\<lparr>cache := (cache rt)(host \<mapsto> (version reg, NewHandler services))\<rparr>)
      | None \<Rightarrow> (NewHandler services, rt\<lparr>cache := (cache rt)(host \<mapsto> (version reg, NewHandler services))\<rparr>))"

datatype http_result = TLSRequired | NoSuchHost | Handled outcome

definition serveHTTP ::
    "(service \<Rightarrow> request \<Rightarrow> response_call list) \<Rightarrow> time \<Rightarrow> registry \<Rightarrow> string option \<Rightarrow> request \<Rightarrow>
     router \<times> banner option \<Rightarrow> http_result \<times> router \<times> banner option" where
  "serveHTTP proxy now reg tls r st =
     (case st of (rt, bn) \<Rightarrow>
        if tls = None then (TLSRequired, rt, bn)
        else let host = dispatchHost tls r; services = HTTPServices reg host in
          if length services = 0 then (NoSuchHost, rt, bn)
          else let (h, rt1) = handlerFor reg host services rt;
                   (out, bn1) = ServeHTTP proxy now h r bn
               in (Handled out, rt1, bn1))"

subsection \<open>Cache coherence\<close>

definition coherent :: "registry \<Rightarrow> router \<Rightarrow> bool" where
  "coherent reg rt \<longleftrightarrow>
     (\<forall>host ver h. cache rt host = Some (ver, h) \<longrightarrow>
        unat ver \<le> unat (version reg) \<and> (ver = version reg \<longrightarrow> h = NewHandler (HTTPServices reg host)))"

lemma handlerFor_coherent:
  assumes "coherent reg rt"
  shows "fst (handlerFor reg host (HTTPServices reg host) rt) = NewHandler (HTTPServices reg host)"
    and "coherent reg (snd (handlerFor reg host (HTTPServices reg host) rt))"
  using assms by (auto simp: handlerFor_def coherent_def split: option.splits)

lemma version_fold [simp]: "version (fold add_service svcs r) = version r"
  by (induction svcs arbitrary: r) (auto simp: add_service_def)

lemma version_removeClient [simp]: "version (removeClientLocked c r) = version r"
  by (simp add: removeClientLocked_def)

lemma version_set_allow [simp]: "version (set_allow i a r) = version r"
  by (simp add: set_allow_def Let_def)

text \<open>An operation either moves the version on or leaves every host's services alone.\<close>

definition registers_cleanly :: "(string \<Rightarrow> string \<Rightarrow> string + leaf) \<Rightarrow> reg_op \<Rightarrow> registry \<Rightarrow> bool" where
  "registers_cleanly x509 op r =
     (case op of
        OpRegister c sess crts srvs \<Rightarrow>
          (case Register x509 c (Some sess) crts srvs r of (r1, e) \<Rightarrow> e = None \<or> r1 = r)
      | OpServer srvs \<Rightarrow> (case RegisterServer x509 srvs r of (r1, e) \<Rightarrow> e = None \<or> r1 = r)
      | _ \<Rightarrow> True)"

definition moves_on :: "registry \<Rightarrow> registry \<Rightarrow> bool" where
  "moves_on r r' \<longleftrightarrow> version r' = version r + 1 \<or>
     (version r' = version r \<and> (\<forall>host. HTTPServices r' host = HTTPServices r host))"

lemma Register_moves_on:
  assumes "Register x509 c sess crts srvs r = (r1, e)" "e = None \<or> r1 = r"
  shows "moves_on r r1"
  using assms
  by (cases rule: Register_cases[of x509 c sess crts srvs r]) (auto simp: moves_on_def)

lemma Remove_moves_on:
  assumes "reg_inv r"
  shows "moves_on r (fst (RemoveSession sess r))"
proof (cases "filter (\<lambda>s. Session s = sess) (all_services r) = []")
  case True
  have "http_list (fst (RemoveSession sess r)) h = http_list r h" for h
  proof -
    have "http_list (fst (RemoveSession sess r)) h = filter (\<lambda>s. Session s \<noteq> sess) (http_list r h)"
      using services_cong[OF RemoveSession_keep] http_list_keep assms by (metis reg_inv_def)
    also have "\<dots> = http_list r h"
      using True http_list_subset[of r h] by (intro filter_True) (auto simp: filter_empty_conv all_services_def)
    finally show ?thesis .
  qed
  then have h: "HTTPServices (fst (RemoveSession sess r)) host = HTTPServices r host" for host
    by (simp add: HTTPServices_def)
  show ?thesis unfolding moves_on_def using h by (auto simp: RemoveSession_def Let_def)
qed (simp add: moves_on_def RemoveSession_def Let_def)

lemma op_moves_on:
  "reg_inv r \<Longrightarrow> registers_cleanly x509 op r \<Longrightarrow> moves_on r (reg_step x509 op r)"
proof (cases op)
  case (OpRegister c sess crts srvs)
  then show "registers_cleanly x509 op r \<Longrightarrow> ?thesis"
    using Register_moves_on[of x509 c "Some sess" crts srvs r] by (auto simp: registers_cleanly_def)
next
  case (OpServer srvs)
  then show "registers_cleanly x509 op r \<Longrightarrow> ?thesis"
    using Register_moves_on[of x509 ServerOwnerID None "[]" srvs r]
    by (auto simp: registers_cleanly_def RegisterServer_def)
next
  case (OpServerCert cp kp)
  then show ?thesis
    by (auto simp: moves_on_def AddServerCert_def HTTPServices_def http_list_def split: sum.splits)
next
  case (OpUpdate c i allow)
  then show ?thesis
    by (auto simp: moves_on_def UpdateWhitelist_def Let_def split: option.splits prod.splits)
next
  case (OpRemove sess)
  then show "reg_inv r \<Longrightarrow> ?thesis" by (simp add: Remove_moves_on)
qed

text \<open>The registry and the router together.\<close>

datatype edge_event = RegistryOp reg_op | Lookup string

type_synonym edge = "registry \<times> router"

fun edge_step :: "(string \<Rightarrow> string \<Rightarrow> string + leaf) \<Rightarrow> edge_event \<Rightarrow> edge \<Rightarrow> edge" where
  "edge_step x509 (RegistryOp op) (reg, rt) = (reg_step x509 op reg, rt)"
| "edge_step x509 (Lookup host) (reg, rt) =
     (reg, snd (handlerFor reg host (HTTPServices reg host) rt))"

fun edge_ok :: "(string \<Rightarrow> string \<Rightarrow> string + leaf) \<Rightarrow> edge_event \<Rightarrow> edge \<Rightarrow> bool" where
  "edge_ok x509 (RegistryOp op) (reg, rt) \<longleftrightarrow> registers_cleanly x509 op reg \<and> unat (version reg) < 2 ^ 64 - 1"
| "edge_ok x509 (Lookup host) (reg, rt) \<longleftrightarrow> True"

definition edge_inv :: "edge \<Rightarrow> bool" where
  "edge_inv e \<longleftrightarrow> reg_inv (fst e) \<and> coherent (fst e) (snd e)"

lemma unat_Suc_version: "unat (ver :: 64 word) < 2 ^ 64 - 1 \<Longrightarrow> unat (ver + 1) = unat ver + 1"
  by (simp add: unat_word_ariths)

lemma coherent_moves_on:
  assumes "coherent r rt" "moves_on r r'" "unat (version r) < 2 ^ 64 - 1"
  shows "coherent r' rt"
  unfolding coherent_def
proof (intro allI impI)
  fix host ver h assume c: "cache rt host = Some (ver, h)"
  then have o: "unat ver \<le> unat (version r)" "ver = version r \<longrightarrow> h = NewHandler (HTTPServices r host)"
    using assms(1) by (auto simp: coherent_def)
  from assms(2) consider "version r' = version r + 1"
    | "version r' = version r" "HTTPServices r' host = HTTPServices r host" by (auto simp: moves_on_def)
  then show "unat ver \<le> unat (version r') \<and> (ver = version r' \<longrightarrow> h = NewHandler (HTTPServices r' host))"
  proof cases
    case 1
    then have "unat (version r') = unat (version r) + 1" using unat_Suc_version[OF assms(3)] by simp
    then show ?thesis using o(1) by auto
  next
    case 2
    then show ?thesis using o by simp
  qed
qed

interpretation edge: invariant_machine "edge_step x509" "edge_ok x509" edge_inv
  for x509
proof
  fix s e assume i: "edge_inv s" "edge_ok x509 e s"
  obtain reg rt where s: "s = (reg, rt)" by (cases s)
  show "edge_inv (edge_step x509 e s)"
  proof (cases e)
    case (RegistryOp op)
    then show ?thesis
      using i s coherent_moves_on[of reg rt] op_moves_on[of reg x509 op] registry.step_inv[of reg x509 op]
      by (auto simp: edge_inv_def)
  next
    case (Lookup host)
    then show ?thesis using i s handlerFor_coherent[of reg rt] by (simp add: edge_inv_def)
  qed
qed

lemma edge_inv_New: "edge_inv (NewRegistry, router_New)"
  by (simp add: edge_inv_def reg_inv_New coherent_def router_New_def)
subsection \<open>Properties\<close>

lemma peek_replays: "err (peekClientHelloSNI stream) \<noteq> Some ShortRead \<Longrightarrow> newPrefixConn (peekClientHelloSNI stream) = stream"
  by (auto simp: peekClientHelloSNI_def newPrefixConn_def Let_def split: option.splits if_splits
      dest!: ReadFull_Some)

text \<open>
  C2. A connection is handed inside only by invitation: it is piped to a raw service only when
  that service is registered for the server name the client sent, its whitelist admits the
  remote address, and a certificate that covers the service's host is presented; it goes to the
  publish server only when the named host has an http or ws service whose whitelist admits the
  remote address. In both cases the next hop sees exactly the client's bytes.
\<close>

theorem routed_only_if_admitted:
  assumes "route_conn hs dl reg stream remote = act"
  shows "(\<forall>s c conn. act = RawPipe s c conn \<longrightarrow>
      RawService reg (ToLower (TrimSpace (sni (peekClientHelloSNI stream)))) = Some s \<and>
      AllowedString (Allow s) remote \<and> LookupCert reg (Host s) = Some c \<and> conn = stream) \<and>
    (\<forall>conn. act = ToPublish conn \<longrightarrow>
      HTTPHostAllowed reg (ToLower (TrimSpace (sni (peekClientHelloSNI stream)))) remote \<and> conn = stream)"
proof -
  have "newPrefixConn (peekClientHelloSNI stream) = stream" if "err (peekClientHelloSNI stream) = None"
    using peek_replays that by simp
  then show ?thesis
    using assms by (auto simp: route_conn_def handleRaw_def Let_def split: if_splits option.splits)
qed

definition ssh_hello :: bytes where
  "ssh_hello = tls_record [3, 1] (enc_hello (hello_ex\<lparr>h_exts := [(0, sni_ext 14 [(0, bytes_of_string ''ssh.example'')])]\<rparr>))"

theorem routed_only_if_admitted_witness:
  "\<exists>s c. route_conn (\<lambda>_ _. True) (\<lambda>_. True) reg_ex ssh_hello ''192.0.2.1:4000'' = RawPipe s c ssh_hello \<and>
     AllowedString (Allow s) ''192.0.2.1:4000''"
proof -
  let ?a = "route_conn (\<lambda>_ _. True) (\<lambda>_. True) reg_ex ssh_hello ''192.0.2.1:4000''"
  have "case ?a of RawPipe s c conn \<Rightarrow> True | _ \<Rightarrow> False" by code_simp
  then obtain s c conn where a: "?a = RawPipe s c conn" by (auto split: action.splits)
  with routed_only_if_admitted[OF a] show ?thesis by auto
qed

text \<open>
  Everything else meets the mimic: a connection that is not TLS, or whose server name no
  client has published, is passed on byte for byte to the REALITY inbound.
\<close>

theorem unknown_goes_to_reality:
  assumes "err (peekClientHelloSNI stream) \<in> {Some NotHandshake, Some InvalidLength} \<or>
      (err (peekClientHelloSNI stream) = None \<and>
       RawService reg (ToLower (TrimSpace (sni (peekClientHelloSNI stream)))) = None \<and>
       \<not> HasHTTPHost reg (ToLower (TrimSpace (sni (peekClientHelloSNI stream)))))"
  shows "route_conn hs dl reg stream remote = ToReality stream"
  using assms peek_replays[of stream] by (auto simp: route_conn_def Let_def)

theorem unknown_goes_to_reality_witness:
  "route_conn (\<lambda>_ _. True) (\<lambda>_. True) reg_ex (bytes_of_string ''GET / HTTP/1.1'') ''192.0.2.1:4000'' =
     ToReality (bytes_of_string ''GET / HTTP/1.1'')"
proof (rule unknown_goes_to_reality)
  show "err (peekClientHelloSNI (bytes_of_string ''GET / HTTP/1.1'')) \<in> {Some NotHandshake, Some InvalidLength} \<or>
      (err (peekClientHelloSNI (bytes_of_string ''GET / HTTP/1.1'')) = None \<and>
       RawService reg_ex (ToLower (TrimSpace (sni (peekClientHelloSNI (bytes_of_string ''GET / HTTP/1.1''))))) = None \<and>
       \<not> HasHTTPHost reg_ex (ToLower (TrimSpace (sni (peekClientHelloSNI (bytes_of_string ''GET / HTTP/1.1''))))))"
    by code_simp
qed


definition edge_ex :: "edge_event list" where
  "edge_ex = map RegistryOp ops_ex @ [Lookup ''web.example'',
     RegistryOp (OpRegister ''carol'' 5 [] [svc_ex ''ws'' ''web.example'' ''/chat'' []])]"


definition failing :: "edge_event list" where
  "failing = map RegistryOp ops_ex @ [Lookup ''web.example'',
     RegistryOp (OpRegister ''bob'' 2 [] [svc_ex ''http'' ''ssh.example'' '''' []])]"

text \<open>
  Without that condition it is: after a registration of client bob has failed on a
  conflict, his service is gone from the registry and still in the handler that serves the
  host.
\<close>

theorem stale_handler_after_conflict:
  "map ClientID (HTTPServices (fst (fold (edge_step x509_ex) failing (NewRegistry, router_New))) ''web.example'') =
     [ServerOwnerID] \<and>
   map (ClientID \<circ> svc) (routes (fst (handlerFor
     (fst (fold (edge_step x509_ex) failing (NewRegistry, router_New))) ''web.example''
     (HTTPServices (fst (fold (edge_step x509_ex) failing (NewRegistry, router_New))) ''web.example'')
     (snd (fold (edge_step x509_ex) failing (NewRegistry, router_New)))))) = [ServerOwnerID, ''bob'']"
  by code_simp

end
