(* ===== verification/Ingress.thy ===== *)
theory Ingress
  imports L4Router ControlClient
begin

text \<open>
  The way of public traffic to its upstream, across the parts: \<^verbatim>\<open>Dial\<close> and \<^verbatim>\<open>OpenStream\<close> of \<^verbatim>\<open>internal/control/registry.go\<close>, the
  reverse proxy (\<^verbatim>\<open>internal/publish/httpproxy.go\<close>), the websocket bridge (\<^verbatim>\<open>internal/publish/wsbridge.go\<close>), \<^verbatim>\<open>handle\<close> and \<^verbatim>\<open>toReality\<close> of
  \<^verbatim>\<open>internal/l4router/router.go\<close>, joined with the client's side of the stream. Opening streams, dialling, the TLS and websocket
  libraries and the upstreams are arguments.
\<close>

subsection \<open>Dialling a service\<close>

record dial_env =
  openStream :: "session \<Rightarrow> bool"
  writeStream :: "session \<Rightarrow> bool"
  dialUpstream :: "string \<Rightarrow> bool"

text \<open>A connection to an upstream; a reverse stream comes with the bytes already written to it.\<close>

datatype connection = Direct string | Reverse session bytes

datatype dial_error = OpenReverse | Header frame_error | WriteHeader | UpstreamDial

definition service_OpenStream :: "dial_env \<Rightarrow> session \<Rightarrow> service \<Rightarrow> dial_error + connection" where
  "service_OpenStream env sess s =
     (if \<not> openStream env sess then Inl OpenReverse
      else case WriteFrame [] \<lparr>Frame.Service = service_ID s\<rparr> of
             Inl e \<Rightarrow> Inl (Header e)
           | Inr hdr \<Rightarrow> if writeStream env sess then Inr (Reverse sess hdr) else Inl WriteHeader)"

definition service_Dial :: "dial_env \<Rightarrow> service \<Rightarrow> dial_error + connection" where
  "service_Dial env s =
     (case Session s of
        None \<Rightarrow> if dialUpstream env (Upstream s) then Inr (Direct (Upstream s)) else Inl UpstreamDial
      | Some sess \<Rightarrow> service_OpenStream env sess s)"

subsection \<open>Serving a request\<close>

text \<open>What an upstream answers: interim responses, then the final one.\<close>

record response =
  interim :: "int list"
  resp_status :: int
  resp_header :: header
  resp_body :: "bytes list"

text \<open>
  One request through the proxy of a service: every request dials anew; an error of the dial or of the exchange is answered with 502. The calls on
  the response writer, and the header that is sent.
\<close>

definition reverse_proxy :: "dial_env \<Rightarrow> (connection \<Rightarrow> request \<Rightarrow> response option) \<Rightarrow> service \<Rightarrow> request \<Rightarrow> header \<times> response_call list" where
  "reverse_proxy env exchange s r =
     (case service_Dial env s of
        Inl _ \<Rightarrow> ([], [CallWriteHeader 502])
      | Inr k \<Rightarrow>
          (case exchange k r of
             None \<Rightarrow> ([], [CallWriteHeader 502])
           | Some resp \<Rightarrow>
               (applyResponseRewrite s (resp_header resp),
                map CallWriteHeader (interim resp) @ CallWriteHeader (resp_status resp) # map CallWrite (resp_body resp))))"

datatype ws_end = NotUpgraded | ClosedInternalError dial_error | Bridge connection

definition serveWS :: "dial_env \<Rightarrow> (request \<Rightarrow> bool) \<Rightarrow> service \<Rightarrow> request \<Rightarrow> ws_end" where
  "serveWS env upgrade s r =
     (if \<not> upgrade r then NotUpgraded
      else case service_Dial env s of Inl e \<Rightarrow> ClosedInternalError e | Inr k \<Rightarrow> Bridge k)"

subsection \<open>Handling a connection\<close>

text \<open>The two ends of a pipe: the connection it was joined to and the bytes of the public peer.\<close>

datatype ending = Closed | Published bytes | Spliced string bytes | PipedTo connection bytes

definition toReality :: "dial_env \<Rightarrow> string \<Rightarrow> bytes \<Rightarrow> ending" where
  "toReality env realityAddr conn = (if dialUpstream env realityAddr then Spliced realityAddr conn else Closed)"

definition handle_conn ::
    "dial_env \<Rightarrow> (parsed_cert \<Rightarrow> bytes \<Rightarrow> bytes option) \<Rightarrow> string \<Rightarrow> registry \<Rightarrow> bytes \<Rightarrow> string \<Rightarrow> ending" where
  "handle_conn env tls realityAddr reg stream remote =
     (case route_conn (\<lambda>c conn. tls c conn \<noteq> None) (\<lambda>s. \<not> isl (service_Dial env s)) reg stream remote of
        Dropped \<Rightarrow> Closed
      | ToReality conn \<Rightarrow> toReality env realityAddr conn
      | ToPublish conn \<Rightarrow> Published conn
      | RawPipe s c conn \<Rightarrow>
          (case (service_Dial env s, tls c conn) of (Inr k, Some plain) \<Rightarrow> PipedTo k plain | _ \<Rightarrow> Closed))"

text \<open>The client's end of a reverse stream, once the public peer's bytes have followed the header.\<close>

definition far_end ::
    "(bytes \<Rightarrow> bool) \<Rightarrow> (string \<Rightarrow> u16 \<Rightarrow> bool) \<Rightarrow> (string \<Rightarrow> bool) \<Rightarrow> client \<Rightarrow> connection \<Rightarrow> bytes \<Rightarrow> reverse option" where
  "far_end wr dial dialTCP c k payload =
     (case k of Direct _ \<Rightarrow> None | Reverse _ hdr \<Rightarrow> Some (handleReverse wr dial dialTCP c (hdr @ payload)))"

subsection \<open>Lemmas\<close>

lemma registered_from_client:
  assumes "Register x509 u sess crts srvs reg = (reg2, None)" "s \<in> set (all_services reg2)" "ClientID s = u"
  shows "\<exists>sr \<in> set srvs. build_service u sess sr = Inr s"
proof (cases rule: Register_cases[of x509 u sess crts srvs reg])
  case (accepted svcs pcs)
  then obtain r2 where r2: "r2 = fold add_service svcs ((removeClientLocked u reg)\<lparr>certs := certs (removeClientLocked u reg) @ pcs\<rparr>)"
    "reg2 = r2\<lparr>version := version r2 + 1\<rparr>" using assms(1) by auto
  have "all_services reg2 = all_services r2" by (simp add: r2(2) all_services_def)
  moreover have "all_services ((removeClientLocked u reg)\<lparr>certs := cs\<rparr>) = filter (\<lambda>s. ClientID s \<noteq> u) (all_services reg)" for cs
    using services_removeClient[of u reg] by (simp add: all_services_def)
  ultimately have "s \<in> set svcs" using assms(2,3) all_services_fold[of svcs] r2(1) by fastforce
  then obtain j where "j < length svcs" "s = svcs ! j" by (auto simp: in_set_conv_nth)
  moreover have "list_all2 (\<lambda>x y. build_service u sess x = Inr y) srvs svcs" using accepted(1) by (simp add: traverse_result_Inr_iff)
  ultimately have "j < length srvs" "build_service u sess (srvs ! j) = Inr s" by (simp_all add: list_all2_conv_all_nth)
  then show ?thesis by (intro bexI[of _ "srvs ! j"]) simp_all
qed (use assms(1) in simp_all)

lemma currentServices_from:
  assumes "client_inv srvs c" "sr \<in> set (currentServices c)"
  shows "\<exists>sr0 \<in> set srvs. \<exists>al. sr = sr0\<lparr>reg_Allow := al\<rparr>"
proof -
  obtain sr0 where sr0: "sr0 \<in> set srvs" "sr = (case map_of (whitelists c) (reg_ID sr0) of Some wl \<Rightarrow> sr0\<lparr>reg_Allow := wl\<rparr> | None \<Rightarrow> sr0)"
    using assms by (auto simp: currentServices_def client_inv_def)
  have "\<exists>al. sr = sr0\<lparr>reg_Allow := al\<rparr>"
  proof (cases "map_of (whitelists c) (reg_ID sr0)")
    case None
    then show ?thesis using sr0(2) by (intro exI[of _ "reg_Allow sr0"]) simp
  qed (use sr0(2) in auto)
  with sr0(1) show ?thesis by blast
qed

lemma lookups_in_services:
  "RawService r h = Some s \<Longrightarrow> s \<in> set (all_services r)" "s \<in> set (HTTPServices r h) \<Longrightarrow> s \<in> set (all_services r)"
proof -
  show "RawService r h = Some s \<Longrightarrow> s \<in> set (all_services r)" by (force simp: RawService_def all_services_def dest: map_of_SomeD)
  show "s \<in> set (HTTPServices r h) \<Longrightarrow> s \<in> set (all_services r)"
    using http_list_subset[of r "ToLower h"] by (auto simp: HTTPServices_def all_services_def)
qed

text \<open>What a client does with a stream of one of its own services.\<close>

definition own_upstream ::
    "(bytes \<Rightarrow> bool) \<Rightarrow> (string \<Rightarrow> u16 \<Rightarrow> bool) \<Rightarrow> (string \<Rightarrow> bool) \<Rightarrow> service_reg \<Rightarrow> bytes \<Rightarrow> reverse" where
  "own_upstream wr dial dialTCP sr payload =
     (if reg_Mode sr = ''socks5''
      then (case Serve wr (Some (DestAllow.Allowed (dest_set_of (reg_AllowDest sr)))) dial payload of (fx, e) \<Rightarrow> Socks fx e)
      else if dialTCP (reg_Upstream sr) then Piped (reg_Upstream sr) payload else DialFailed (reg_Upstream sr))"

lemma service_stream:
  assumes i: "client_inv srvs c" and reg: "Register x509 (uuid c) (Some sid) crts (currentServices c) reg = (reg2, None)"
    and s: "s \<in> set (all_services reg2)" "ClientID s = uuid c"
    and ok: "\<forall>sr \<in> set srvs. ToLower (reg_Host sr) = reg_Host sr \<and> to_valid (reg_ID sr) = reg_ID sr"
    and k: "service_Dial env s = Inr k"
  shows "\<exists>sr \<in> set srvs. service_ID s = reg_ID sr \<and> Upstream s = reg_Upstream sr \<and> (\<exists>hdr. k = Reverse sid hdr) \<and>
    (\<forall>payload. far_end wr dial dialTCP c k payload = Some (own_upstream wr dial dialTCP sr payload))"
proof -
  obtain sr1 where sr1: "sr1 \<in> set (currentServices c)" "build_service (uuid c) (Some sid) sr1 = Inr s"
    using registered_from_client[OF reg s] by blast
  then obtain sr al where sr: "sr \<in> set srvs" "sr1 = sr\<lparr>reg_Allow := al\<rparr>" using currentServices_from[OF i] by blast
  have l: "ToLower (reg_Host sr) = reg_Host sr" "to_valid (reg_ID sr) = reg_ID sr" using ok sr(1) by auto
  have id: "service_ID s = reg_ID sr" using built_service_ID[OF sr1(2)] l(1) by (simp add: sr(2) reg_ID_def)
  have f: "Session s = Some sid" "Upstream s = reg_Upstream sr" using sr1(2) by (auto simp: build_service_def sr(2) split: sum.splits)
  obtain hdr where h: "k = Reverse sid hdr" "WriteFrame [] \<lparr>Frame.Service = reg_ID sr\<rparr> = Inr hdr"
    using k f(1) id by (auto simp: service_Dial_def service_OpenStream_def split: if_splits sum.splits)
  have "ReadFrame (hdr @ payload) = Inr (\<lparr>Frame.Service = reg_ID sr\<rparr>, payload)" for payload
    using WriteFrame_read[OF h(2), of payload] l(2) by simp
  then have "far_end wr dial dialTCP c k payload = Some (own_upstream wr dial dialTCP sr payload)" for payload
    using handleReverse_own[OF i sr(1)] by (simp add: far_end_def h(1) own_upstream_def)
  with sr(1) id f(2) h(1) show ?thesis by blast
qed

lemma record_calls_keep: "wroteHeader rc \<Longrightarrow> status (fold record_call calls rc) = status rc"
proof (induction calls arbitrary: rc)
  case (Cons call calls)
  then show ?case by (cases call) (simp_all add: recorder_WriteHeader_def recorder_Write_def)
qed simp

lemma first_status: "recorded_status (map CallWriteHeader is @ CallWriteHeader st # calls) = hd (is @ [st])"
proof (cases "is")
  case (Cons i js)
  let ?rest = "map CallWriteHeader js @ CallWriteHeader st # calls"
  have "recorded_status (map CallWriteHeader is @ CallWriteHeader st # calls) = status (fold record_call ?rest \<lparr>status = i, wroteHeader = True\<rparr>)"
    by (simp add: recorded_status_def recorder_WriteHeader_def Cons)
  also have "\<dots> = i" by (subst record_calls_keep) simp_all
  finally show ?thesis by (simp add: Cons)
qed (simp add: recorded_status_def recorder_WriteHeader_def record_calls_keep)

subsection \<open>Properties\<close>



text \<open>Alice publishes a raw service and a web service; a peer asks for the first one.\<close>

definition up_env :: dial_env where
  "up_env = \<lparr>openStream = \<lambda>_. True, writeStream = \<lambda>_. True, dialUpstream = \<lambda>_. True\<rparr>"

definition alice_srvs :: "service_reg list" where
  "alice_srvs = [svc_ex ''tcp'' ''ssh.example'' '''' [], svc_ex ''http'' ''app.example'' ''/x'' []]"

definition alice :: client where
  "alice = fold client_step [] (NewClient ''alice'' [] alice_srvs None '''')"

definition alice_reg :: registry where
  "alice_reg = fst (Register x509_ex (uuid alice) (Some 3) (cl_certs alice) (currentServices alice) (fst (AddServerCert x509_ex ''*.example'' ''k'' NewRegistry)))"

lemma alice:
  "distinct (map reg_ID alice_srvs)"
  "Register x509_ex (uuid alice) (Some 3) (cl_certs alice) (currentServices alice) (fst (AddServerCert x509_ex ''*.example'' ''k'' NewRegistry)) =
     (alice_reg, None)"
  "\<forall>sr \<in> set alice_srvs. ToLower (reg_Host sr) = reg_Host sr \<and> to_valid (reg_ID sr) = reg_ID sr \<and> reg_Mode sr \<noteq> ''socks5''"
  "uuid alice = ''alice''"
proof -
  have "snd (Register x509_ex (uuid alice) (Some 3) (cl_certs alice) (currentServices alice) (fst (AddServerCert x509_ex ''*.example'' ''k'' NewRegistry))) = None"
    by code_simp
  then show "Register x509_ex (uuid alice) (Some 3) (cl_certs alice) (currentServices alice) (fst (AddServerCert x509_ex ''*.example'' ''k'' NewRegistry)) =
     (alice_reg, None)" unfolding alice_reg_def by (metis prod.collapse)
  show "distinct (map reg_ID alice_srvs)"
    "\<forall>sr \<in> set alice_srvs. ToLower (reg_Host sr) = reg_Host sr \<and> to_valid (reg_ID sr) = reg_ID sr \<and> reg_Mode sr \<noteq> ''socks5''"
    "uuid alice = ''alice''" by code_simp+
qed

lemma ssh_peek: "err (peekClientHelloSNI ssh_hello) = None" "ToLower (TrimSpace (sni (peekClientHelloSNI ssh_hello))) = ''ssh.example''"
proof -
  have "let p = peekClientHelloSNI ssh_hello in (err p, ToLower (TrimSpace (sni p))) = (None, ''ssh.example'')" by code_simp
  then show "err (peekClientHelloSNI ssh_hello) = None" "ToLower (TrimSpace (sni (peekClientHelloSNI ssh_hello))) = ''ssh.example''"
    by (simp_all add: Let_def)
qed

definition ssh_service :: service where
  "ssh_service = the (RawService alice_reg ''ssh.example'')"

lemma ssh_service:
  "RawService alice_reg ''ssh.example'' = Some ssh_service" "ClientID ssh_service = ''alice''" "AllowedString (Allow ssh_service) ''192.0.2.1:4000''"
  "LookupCert alice_reg (Host ssh_service) \<noteq> None" "\<not> isl (service_Dial up_env ssh_service)"
proof -
  have "RawService alice_reg ''ssh.example'' \<noteq> None" by code_simp
  then show "RawService alice_reg ''ssh.example'' = Some ssh_service" by (auto simp: ssh_service_def)
  show "ClientID ssh_service = ''alice''" "AllowedString (Allow ssh_service) ''192.0.2.1:4000''" "LookupCert alice_reg (Host ssh_service) \<noteq> None"
    "\<not> isl (service_Dial up_env ssh_service)" by code_simp+
qed



end
