(* ===== verification/Go_Url.thy ===== *)
theory Go_Url
  imports Tbox_Prelude
begin

text \<open>
  What the configuration uses of the package \<^verbatim>\<open>net/url\<close>: \<^verbatim>\<open>url.Parse\<close> with the scheme, host and
  path of its result, and \<^verbatim>\<open>URL.Hostname\<close>. Characters are bytes, as in Go strings.
\<close>

subsection \<open>Escapes\<close>

datatype encoding = EncodePath | EncodeHost | EncodeZone | EncodeUserPassword | EncodeFragment

definition unhex :: "char \<Rightarrow> nat option" where
  "unhex c =
     (let n = of_char c :: nat in
      if 48 \<le> n \<and> n \<le> 57 then Some (n - 48)
      else if 97 \<le> n \<and> n \<le> 102 then Some (n - 87)
      else if 65 \<le> n \<and> n \<le> 70 then Some (n - 55)
      else None)"

definition is_alpha :: "char \<Rightarrow> bool" where
  "is_alpha c \<longleftrightarrow> (let n = of_char c :: nat in 97 \<le> n \<and> n \<le> 122 \<or> 65 \<le> n \<and> n \<le> 90)"

text \<open>The characters that may stand in a host or zone as they are.\<close>

definition host_char :: "char \<Rightarrow> bool" where
  "host_char c \<longleftrightarrow> is_alpha c \<or> is_digit c \<or> c \<in> set ''-_.~!$&'()*+,;=:[]<>'' \<or> c = CHR 0x22"

fun unescape :: "encoding \<Rightarrow> string \<Rightarrow> string option" where
  "unescape mode [] = Some []"
| "unescape mode (c # s) =
     (if c = CHR ''%'' then
        (case s of
           h # l # s' \<Rightarrow>
             (case (unhex h, unhex l) of
                (Some a, Some b) \<Rightarrow>
                  let ch = char_of (16 * a + b) in
                  if mode = EncodeHost \<and> a < 8 \<and> \<not> (h = CHR ''2'' \<and> l = CHR ''5'') then None
                  else if mode = EncodeZone \<and> \<not> (h = CHR ''2'' \<and> l = CHR ''5'') \<and> ch \<noteq> CHR 0x20 \<and> \<not> host_char ch then None
                  else map_option (Cons ch) (unescape mode s')
              | _ \<Rightarrow> None)
         | _ \<Rightarrow> None)
      else if (mode = EncodeHost \<or> mode = EncodeZone) \<and> (of_char c :: nat) < 128 \<and> \<not> host_char c then None
      else map_option (Cons c) (unescape mode s))"

subsection \<open>Parts of a URL\<close>

text \<open>\<^verbatim>\<open>strings.Cut\<close> at a character: the parts before and after its first occurrence.\<close>

definition Cut :: "string \<Rightarrow> char \<Rightarrow> string \<times> string" where
  "Cut s c = (case IndexByte s c of None \<Rightarrow> (s, []) | Some i \<Rightarrow> (take i s, drop (Suc i) s))"

text \<open>\<^verbatim>\<open>getScheme\<close>: scheme and rest, \<open>None\<close> when a colon comes first.\<close>

fun scheme_loop :: "string \<Rightarrow> string \<Rightarrow> string \<Rightarrow> (string \<times> string) option" where
  "scheme_loop raw acc [] = Some ([], raw)"
| "scheme_loop raw acc (c # s) =
     (if is_alpha c then scheme_loop raw (acc @ [c]) s
      else if is_digit c \<or> c \<in> set ''+-.'' then
        (if acc = [] then Some ([], raw) else scheme_loop raw (acc @ [c]) s)
      else if c = CHR '':'' then (if acc = [] then None else Some (acc, s))
      else Some ([], raw))"

definition getScheme :: "string \<Rightarrow> (string \<times> string) option" where
  "getScheme raw = scheme_loop raw [] raw"

definition validOptionalPort :: "string \<Rightarrow> bool" where
  "validOptionalPort p \<longleftrightarrow> (case p of [] \<Rightarrow> True | c # ds \<Rightarrow> c = CHR '':'' \<and> list_all is_digit ds)"

definition validUserinfo :: "string \<Rightarrow> bool" where
  "validUserinfo s \<longleftrightarrow> list_all (\<lambda>c. is_alpha c \<or> is_digit c \<or> c \<in> set ''-._:~!$&'()*+,;=%@'') s"

text \<open>The first position of \<^verbatim>\<open>%25\<close>, where the zone of an IPv6 literal starts.\<close>

fun zone_index :: "string \<Rightarrow> nat option" where
  "zone_index [] = None"
| "zone_index (c # s) =
     (if HasPrefix (c # s) ''%25'' then Some 0 else map_option Suc (zone_index s))"

definition parseHost :: "string \<Rightarrow> string option" where
  "parseHost host =
     (if HasPrefix host ''['' then
        (case LastIndexByte host (CHR '']'') of
           None \<Rightarrow> None
         | Some i \<Rightarrow>
             if \<not> validOptionalPort (drop (Suc i) host) then None
             else (case zone_index (take i host) of
                     None \<Rightarrow> unescape EncodeHost host
                   | Some z \<Rightarrow>
                       (case (unescape EncodeHost (take z host), unescape EncodeZone (drop z (take i host)),
                              unescape EncodeHost (drop i host)) of
                          (Some h1, Some h2, Some h3) \<Rightarrow> Some (h1 @ h2 @ h3)
                        | _ \<Rightarrow> None)))
      else (case LastIndexByte host (CHR '':'') of
              None \<Rightarrow> unescape EncodeHost host
            | Some i \<Rightarrow> if validOptionalPort (drop i host) then unescape EncodeHost host else None))"

definition parseAuthority :: "string \<Rightarrow> string option" where
  "parseAuthority authority =
     (case LastIndexByte authority (CHR ''@'') of
        None \<Rightarrow> parseHost authority
      | Some i \<Rightarrow>
          (case parseHost (drop (Suc i) authority) of
             None \<Rightarrow> None
           | Some h \<Rightarrow>
               let userinfo = take i authority; (user, pass) = Cut userinfo (CHR '':'') in
               if \<not> validUserinfo userinfo then None
               else if unescape EncodeUserPassword user = None \<or> unescape EncodeUserPassword pass = None then None
               else Some h))"

subsection \<open>\<^verbatim>\<open>url.Parse\<close>\<close>

record url =
  Scheme :: string
  url_Host :: string
  url_Path :: string

definition parse_rest :: "string \<Rightarrow> string \<Rightarrow> url option" where
  "parse_rest scheme rest =
     (if \<not> HasPrefix rest ''/'' \<and> scheme \<noteq> '''' then Some \<lparr>Scheme = scheme, url_Host = '''', url_Path = ''''\<rparr>
      else if \<not> HasPrefix rest ''/'' \<and> CHR '':'' \<in> set (fst (Cut rest (CHR ''/''))) then None
      else
        let slashes = (scheme \<noteq> '''' \<or> \<not> HasPrefix rest ''///'') \<and> HasPrefix rest ''//'';
            after = drop 2 rest;
            (authority, path) =
              (if slashes then (case IndexByte after (CHR ''/'') of
                                  None \<Rightarrow> (after, '''')
                                | Some i \<Rightarrow> (take i after, drop i after))
               else ('''', rest))
        in case (if slashes then parseAuthority authority else Some '''') of
             None \<Rightarrow> None
           | Some h \<Rightarrow>
               (case unescape EncodePath path of
                  None \<Rightarrow> None
                | Some p \<Rightarrow> Some \<lparr>Scheme = scheme, url_Host = h, url_Path = p\<rparr>))"

definition is_ctl :: "char \<Rightarrow> bool" where
  "is_ctl c \<longleftrightarrow> (of_char c :: nat) < 32 \<or> c = CHR 0x7f"

definition Parse :: "string \<Rightarrow> url option" where
  "Parse rawURL =
     (let (u, frag) = Cut rawURL (CHR ''#'') in
      if list_ex is_ctl u then None
      else if unescape EncodeFragment frag = None then None
      else if u = ''*'' then Some \<lparr>Scheme = '''', url_Host = '''', url_Path = ''*''\<rparr>
      else case getScheme u of
             None \<Rightarrow> None
           | Some (scheme, rest) \<Rightarrow> parse_rest (ToLower scheme) (fst (Cut rest (CHR ''?''))))"

definition Hostname :: "url \<Rightarrow> string" where
  "Hostname u =
     (let h = url_Host u;
          host = (case LastIndexByte h (CHR '':'') of
                    None \<Rightarrow> h
                  | Some i \<Rightarrow> if validOptionalPort (drop i h) then take i h else h)
      in if HasPrefix host ''['' \<and> HasSuffix host '']'' then butlast (drop 1 host) else host)"

subsection \<open>Plain URLs\<close>

definition plain_host_char :: "char \<Rightarrow> bool" where
  "plain_host_char c \<longleftrightarrow> is_alpha c \<or> is_digit c \<or> c = CHR ''-'' \<or> c = CHR ''.'' \<or> c = CHR ''_''"

definition plain_path_char :: "char \<Rightarrow> bool" where
  "plain_path_char c \<longleftrightarrow> \<not> is_ctl c \<and> c \<notin> set ''%#?''"

lemma plain_host_char_facts:
  "plain_host_char c \<Longrightarrow> c \<notin> set ''%#?/:@[]*'' \<and> host_char c \<and> \<not> is_ctl c"
  by (auto simp: plain_host_char_def host_char_def is_alpha_def is_digit_def is_ctl_def Let_def)

lemma unescape_plain:
  "list_all (\<lambda>c. c \<noteq> CHR ''%'' \<and> (mode = EncodeHost \<or> mode = EncodeZone \<longrightarrow> host_char c)) s \<Longrightarrow> unescape mode s = Some s"
  by (induction s) auto

lemma plain_host_free:
  assumes "list_all plain_host_char h" "c \<in> set ''%#?/:@[]*''"
  shows "c \<notin> set h"
  using assms plain_host_char_facts by (auto simp: list_all_iff)

lemma plain_host_none:
  assumes "list_all plain_host_char h"
  shows "CHR ''/'' \<notin> set h" "CHR '':'' \<notin> set h" "CHR ''@'' \<notin> set h" "CHR ''['' \<notin> set h"
    "CHR ''#'' \<notin> set h" "CHR ''?'' \<notin> set h" "\<not> HasPrefix h ''[''"
proof -
  show free: "CHR ''/'' \<notin> set h" "CHR '':'' \<notin> set h" "CHR ''@'' \<notin> set h" "CHR ''['' \<notin> set h"
    "CHR ''#'' \<notin> set h" "CHR ''?'' \<notin> set h"
    by (rule plain_host_free[OF assms], simp)+
  show "\<not> HasPrefix h ''[''" using free(4) by (cases h) (auto simp: HasPrefix_def)
qed

lemma unescape_host: "list_all plain_host_char h \<Longrightarrow> unescape EncodeHost h = Some h"
  using plain_host_char_facts by (intro unescape_plain) (fastforce simp: list_all_iff)

lemma parseAuthority_plain: "list_all plain_host_char h \<Longrightarrow> parseAuthority h = Some h"
  by (simp add: parseAuthority_def parseHost_def LastIndexByte_None_iff[THEN iffD2] plain_host_none unescape_host)

lemma Hostname_plain: "list_all plain_host_char (url_Host u) \<Longrightarrow> Hostname u = url_Host u"
  by (simp add: Hostname_def LastIndexByte_None_iff[THEN iffD2] plain_host_none)

lemma IndexByte_host_path:
  "c \<notin> set h \<Longrightarrow> IndexByte (h @ c # q) c = Some (length h)"
  by (induction h) auto

lemma parse_rest_plain:
  assumes "list_all plain_host_char h" "list_all plain_path_char p" "p = [] \<or> hd p = CHR ''/''" "scheme \<noteq> ''''"
  shows "parse_rest scheme (''//'' @ h @ p) = Some \<lparr>Scheme = scheme, url_Host = h, url_Path = p\<rparr>"
proof -
  have "unescape EncodePath p = Some p"
    using assms(2) by (intro unescape_plain) (auto simp: list_all_iff plain_path_char_def)
  moreover have "IndexByte (h @ p) (CHR ''/'') = (if p = [] then None else Some (length h))"
    using assms(3) plain_host_none(1)[OF assms(1)]
    by (cases p) (simp_all add: IndexByte_host_path IndexByte_None_iff[THEN iffD2])
  ultimately show ?thesis
    using assms(4) parseAuthority_plain[OF assms(1)] by (simp add: parse_rest_def HasPrefix_def)
qed

lemma Cut_absent: "c \<notin> set s \<Longrightarrow> Cut s c = (s, [])"
  by (simp add: Cut_def IndexByte_None_iff[THEN iffD2])

lemma scheme_loop_plain:
  "list_all (\<lambda>c. is_alpha c \<or> is_digit c) sch \<Longrightarrow> acc \<noteq> [] \<or> sch \<noteq> [] \<and> is_alpha (hd sch) \<Longrightarrow>
     scheme_loop raw acc (sch @ CHR '':'' # s) = Some (acc @ sch, s)"
proof (induction sch arbitrary: acc)
  case Nil
  then show ?case by (simp add: is_alpha_def is_digit_def)
next
  case (Cons c sch)
  have "is_digit c \<Longrightarrow> \<not> is_alpha c" by (simp add: is_alpha_def is_digit_def Let_def)
  then show ?case using Cons by auto
qed

text \<open>A URL of a plain host and path is read back as its parts.\<close>

lemma Parse_plain:
  assumes "list_all plain_host_char h" "list_all plain_path_char p" "p = [] \<or> hd p = CHR ''/''"
    and "list_all (\<lambda>c. is_alpha c \<or> is_digit c) sch" "sch \<noteq> []" "is_alpha (hd sch)"
  shows "Parse (sch @ ''://'' @ h @ p) = Some \<lparr>Scheme = ToLower sch, url_Host = h, url_Path = p\<rparr>"
proof -
  have sc: "is_alpha c \<or> is_digit c \<Longrightarrow> \<not> is_ctl c \<and> c \<noteq> CHR ''#'' \<and> c \<noteq> CHR ''?''" for c
    by (auto simp: is_alpha_def is_digit_def is_ctl_def Let_def)
  have chars: "CHR ''#'' \<notin> set (sch @ ''://'' @ h @ p)" "CHR ''?'' \<notin> set (''//'' @ h @ p)"
    "\<not> list_ex is_ctl (sch @ ''://'' @ h @ p)"
  proof -
    have "CHR ''#'' \<notin> set sch" using assms(4) sc by (auto simp: list_all_iff)
    moreover have pp: "CHR ''#'' \<notin> set p" "CHR ''?'' \<notin> set p" "\<not> list_ex is_ctl p"
      using assms(2) by (auto simp: list_all_iff plain_path_char_def list_ex_iff)
    ultimately show "CHR ''#'' \<notin> set (sch @ ''://'' @ h @ p)" "CHR ''?'' \<notin> set (''//'' @ h @ p)"
      using plain_host_none(5,6)[OF assms(1)] by simp_all
    have "\<not> list_ex is_ctl sch" using assms(4) sc by (auto simp: list_all_iff list_ex_iff)
    moreover have "\<not> list_ex is_ctl h" using assms(1) plain_host_char_facts by (auto simp: list_all_iff list_ex_iff)
    ultimately show "\<not> list_ex is_ctl (sch @ ''://'' @ h @ p)" using pp(3) by (simp add: is_ctl_def)
  qed
  have "getScheme (sch @ ''://'' @ h @ p) = Some (sch, ''//'' @ h @ p)"
    using scheme_loop_plain[of sch "[]" _ "''//'' @ h @ p"] assms(4-6) by (simp add: getScheme_def)
  moreover have "sch @ ''://'' @ h @ p \<noteq> ''*''" by (cases sch) auto
  moreover have "ToLower sch \<noteq> ''''" using assms(5) by (simp add: ToLower_def)
  ultimately show ?thesis
    using parse_rest_plain[OF assms(1-3)] Cut_absent[OF chars(1)] Cut_absent[OF chars(2)] chars(3)
    by (simp add: Parse_def del: append.simps append_Cons append_Nil)
qed

end
