(* ===== verification/Config.thy ===== *)
theory Config
  imports Registry DestAllow Go_Url
begin

text \<open>
  \<^verbatim>\<open>internal/config/config.go\<close>: the configuration of both roles, its defaults and its validation.
  The YAML decoder, which is not part of the repository, delivers the record; loading is the
  function from that record to the validated one or the first error. A pointer field is an
  option. The DNS names of a certificate file and \<^verbatim>\<open>time.ParseDuration\<close> are the parameters
  \<open>certDNSNames\<close> and \<open>dur\<close>.
\<close>

subsection \<open>Data\<close>

record cert_file =
  CertPath :: string
  KeyPath :: string

record server_tuic =
  tuic_Enable :: bool
  tuic_Listen :: string
  tuic_SNI :: string
  tuic_CongestionControl :: string

record server_ban =
  ban_Enable :: bool
  ban_Methods :: "string list"
  ban_Statuses :: "int list"
  ban_Path :: string
  ban_Window :: string
  ban_Threshold :: int
  ban_BanDuration :: string
  ban_SubnetThreshold :: "int option"
  ban_Exempt :: "string list"

record client_cred =
  cred_Name :: string
  cred_UUID :: string
  cred_TuicPassword :: string

record server_tun =
  stun_Enable :: bool
  stun_TapName :: string
  stun_PoolV4 :: string
  stun_Gateway :: string
  stun_IPv6Prefix :: string
  stun_MTU :: int
  stun_EnableNAT :: bool
  stun_WANInterface :: string
  stun_EnablePassthrough :: bool

record client_tun_tap =
  ctap_Name :: string
  ctap_Bridge :: string
  ctap_BridgeMembers :: "string list"
  ctap_IPv4CIDR :: string
  ctap_IPv6 :: string
  ctap_DHCP :: "bool option"
  ctap_Routes :: "string list"

record client_tun_udp =
  cudp_Listen :: string

record client_tun =
  ctun_Enable :: bool
  ctun_TAP :: "client_tun_tap option"
  ctun_UDP :: "client_tun_udp option"
  ctun_AcceptDefaultRoute :: bool
  ctun_MTU :: int

record publish =
  pub_URL :: string
  pub_Upstream :: string
  pub_Allow :: "string list"
  pub_AllowDest :: "string list"
  pub_StripPrefix :: bool
  pub_AddPrefix :: string
  pub_SetHost :: string
  pub_RequestHeaders :: "(string \<times> string) list"
  pub_ResponseHeaders :: "(string \<times> string) list"

record server_config =
  sc_Listen :: string
  sc_ServerAddr :: string
  sc_Mimic :: string
  sc_RealityPrivateKey :: string
  sc_RealityPublicKey :: string
  sc_ShortID :: string
  sc_ControlAddr :: string
  sc_RealityInboundAddr :: string
  sc_LogLevel :: string
  sc_Clients :: "client_cred list"
  sc_Certs :: "cert_file list"
  sc_Publish :: "publish list"
  sc_Tun :: server_tun
  sc_Ban :: server_ban
  sc_Tuic :: server_tuic

record client_config =
  cc_Token :: string
  cc_SocksListen :: string
  cc_AdminListen :: string
  cc_LogLevel :: string
  cc_TproxyPort :: u16
  cc_Certs :: "cert_file list"
  cc_Publish :: "publish list"
  cc_Tun :: client_tun

subsection \<open>Routes and publish URLs\<close>

datatype config_error = BadRoute string | BadURL string | NoHost string | UnsupportedScheme string
  | PathNotAllowed string string | ServerSocks5 nat string | BadAllowDest nat string rule_error
  | UpstreamRequired nat string | BadPublish nat config_error
  | MimicRequired | RealityRequired | ClientRequired | InTun config_error | InBan config_error | InTuic config_error
  | BadWindow string | BadBanDuration string | BadExempt string
  | SNIRequired | CertRequired string | CertUnreadable string | NotCovered string
  | PoolRequired | BadPool string | NoGateway string | BadGateway string | BadIPv6Prefix string | WANRequired
  | TokenRequired | TapOrUDPRequired | BadIPv4CIDR string | BridgeRequired | UDPListenRequired

definition ParseTunRoute :: "string \<Rightarrow> config_error + (string \<times> string)" where
  "ParseTunRoute s =
     (let f = Fields s;
          parts = (if length f = 1 then Some (f ! 0, '''')
                   else if length f = 3 \<and> f ! 1 = ''via'' then Some (f ! 0, f ! 2) else None)
      in case parts of
           None \<Rightarrow> Inl (BadRoute s)
         | Some (dst, gw) \<Rightarrow>
             if ParseCIDR dst = None then Inl (BadRoute s)
             else if gw \<noteq> '''' \<and> ParseIP gw = None then Inl (BadRoute s)
             else Inr (dst, gw))"

definition scheme_mode :: "string \<Rightarrow> string option" where
  "scheme_mode scheme =
     (if scheme = ''https'' \<or> scheme = ''http'' then Some ''http''
      else if scheme = ''wss'' \<or> scheme = ''ws'' then Some ''ws''
      else if scheme = ''tcp'' \<or> scheme = ''tls'' then Some ''tcp''
      else if scheme = ''socks5'' \<or> scheme = ''socks'' then Some ''socks5''
      else None)"

definition publish_Parse :: "publish \<Rightarrow> config_error + (string \<times> string \<times> string)" where
  "publish_Parse p =
     (case Go_Url.Parse (pub_URL p) of
        None \<Rightarrow> Inl (BadURL (pub_URL p))
      | Some u \<Rightarrow>
          let host = Hostname u in
          if host = '''' then Inl (NoHost (pub_URL p))
          else case scheme_mode (Scheme u) of
                 None \<Rightarrow> Inl (UnsupportedScheme (pub_URL p))
               | Some mode \<Rightarrow>
                   let path = url_Path u in
                   if mode = ''tcp'' \<or> mode = ''socks5'' then
                     (if path \<noteq> '''' \<and> path \<noteq> ''/'' then Inl (PathNotAllowed (pub_URL p) mode)
                      else Inr (mode, host, ''''))
                   else Inr (mode, host, if path = '''' then ''/'' else path))"

fun validate_publish_from :: "nat \<Rightarrow> bool \<Rightarrow> publish list \<Rightarrow> config_error option" where
  "validate_publish_from i serverSide [] = None"
| "validate_publish_from i serverSide (p # ps) =
     (case publish_Parse p of
        Inl e \<Rightarrow> Some (BadPublish i e)
      | Inr (mode, _, _) \<Rightarrow>
          if mode = ''socks5'' then
            (if serverSide then Some (ServerSocks5 i (pub_URL p))
             else case DestAllow.New (pub_AllowDest p) of
                    Inl e \<Rightarrow> Some (BadAllowDest i (pub_URL p) e)
                  | Inr _ \<Rightarrow> validate_publish_from (Suc i) serverSide ps)
          else if pub_Upstream p = '''' then Some (UpstreamRequired i (pub_URL p))
          else validate_publish_from (Suc i) serverSide ps)"

definition validatePublish :: "publish list \<Rightarrow> bool \<Rightarrow> config_error option" where
  "validatePublish pubs serverSide = validate_publish_from 0 serverSide pubs"

subsection \<open>The blocks of a server configuration\<close>

definition or_default :: "string \<Rightarrow> string \<Rightarrow> string" where
  "or_default d s = (if s = '''' then d else s)"

definition ban_defaults :: "server_ban \<Rightarrow> server_ban" where
  "ban_defaults b =
     b\<lparr>ban_Methods := (if ban_Methods b = [] then [''POST''] else ban_Methods b),
       ban_Statuses := (if ban_Statuses b = [] then [401, 403] else ban_Statuses b),
       ban_Window := or_default ''10m'' (ban_Window b),
       ban_BanDuration := or_default ''1h'' (ban_BanDuration b),
       ban_Threshold := (if ban_Threshold b \<le> 0 then 5 else ban_Threshold b),
       ban_SubnetThreshold := (case ban_SubnetThreshold b of None \<Rightarrow> Some 2 | Some n \<Rightarrow> Some n)\<rparr>"

definition validateServerBan :: "(string \<Rightarrow> time option) \<Rightarrow> server_ban \<Rightarrow> config_error + server_ban" where
  "validateServerBan dur b0 =
     (let b = ban_defaults b0 in
      if dur (ban_Window b) = None then Inl (BadWindow (ban_Window b))
      else if dur (ban_BanDuration b) = None then Inl (BadBanDuration (ban_BanDuration b))
      else case find (\<lambda>c. ParsePrefix c = None) (ban_Exempt b) of
             Some c \<Rightarrow> Inl (BadExempt c)
           | None \<Rightarrow> Inr b)"

fun coversName_loop :: "string list \<Rightarrow> string \<Rightarrow> bool" where
  "coversName_loop [] host = False"
| "coversName_loop (n0 # ns) host =
     (let n = ToLower n0 in
      if n = host then True
      else if HasPrefix n ''*.'' then
        (let suffix = drop 1 n in
         if HasSuffix host suffix then
           (let label = take (length host - length suffix) host in
            if label \<noteq> '''' \<and> CHR ''.'' \<notin> set label then True else coversName_loop ns host)
         else coversName_loop ns host)
      else coversName_loop ns host)"

definition coversName :: "string list \<Rightarrow> string \<Rightarrow> bool" where
  "coversName ns host = coversName_loop ns (ToLower (TrimSpace host))"

fun FindCertForSAN :: "(string \<Rightarrow> string list option) \<Rightarrow> cert_file list \<Rightarrow> string \<Rightarrow> cert_file option" where
  "FindCertForSAN certDNSNames [] sn = None"
| "FindCertForSAN certDNSNames (cf # cfs) sn =
     (case certDNSNames (CertPath cf) of
        None \<Rightarrow> FindCertForSAN certDNSNames cfs sn
      | Some ns \<Rightarrow> if coversName ns sn then Some cf else FindCertForSAN certDNSNames cfs sn)"

fun tuic_certs :: "(string \<Rightarrow> string list option) \<Rightarrow> cert_file list \<Rightarrow> string \<Rightarrow> config_error option" where
  "tuic_certs certDNSNames [] sn = Some (NotCovered sn)"
| "tuic_certs certDNSNames (cf # cfs) sn =
     (case certDNSNames (CertPath cf) of
        None \<Rightarrow> Some (CertUnreadable (CertPath cf))
      | Some ns \<Rightarrow> if coversName ns sn then None else tuic_certs certDNSNames cfs sn)"

definition validateServerTuic ::
    "(string \<Rightarrow> string list option) \<Rightarrow> server_tuic \<Rightarrow> cert_file list \<Rightarrow> config_error + server_tuic" where
  "validateServerTuic certDNSNames t0 cfs =
     (if tuic_SNI t0 = '''' then Inl SNIRequired
      else
        let t = t0\<lparr>tuic_Listen := or_default '':443'' (tuic_Listen t0),
                   tuic_CongestionControl := or_default ''cubic'' (tuic_CongestionControl t0)\<rparr>
        in if cfs = [] then Inl (CertRequired (tuic_SNI t))
           else case tuic_certs certDNSNames cfs (tuic_SNI t) of Some e \<Rightarrow> Inl e | None \<Rightarrow> Inr t)"

definition firstHost :: "ipnet \<Rightarrow> bytes option" where
  "firstHost net =
     (case To4 (net_ip net) of
        None \<Rightarrow> None
      | Some ip \<Rightarrow>
          let host = ip[3 := ip ! 3 + 1] in
          if net_Contains net host then Some host else None)"

definition validateServerTun :: "server_tun \<Rightarrow> config_error + server_tun" where
  "validateServerTun t0 =
     (let t = t0\<lparr>stun_TapName := or_default ''tbox0'' (stun_TapName t0),
                 stun_MTU := (if stun_MTU t0 = 0 then 1448 else stun_MTU t0)\<rparr>;
          rest = (\<lambda>t. if stun_IPv6Prefix t \<noteq> '''' \<and> ParseCIDR (stun_IPv6Prefix t) = None
                     then Inl (BadIPv6Prefix (stun_IPv6Prefix t))
                     else if stun_EnableNAT t \<and> stun_WANInterface t = '''' then Inl WANRequired
                     else Inr t)
      in if stun_PoolV4 t = '''' then Inl PoolRequired
         else case ParseCIDR (stun_PoolV4 t) of
                None \<Rightarrow> Inl (BadPool (stun_PoolV4 t))
              | Some (_, net) \<Rightarrow>
                  if stun_Gateway t = '''' then
                    (case firstHost net of
                       None \<Rightarrow> Inl (NoGateway (stun_PoolV4 t))
                     | Some gw \<Rightarrow> rest (t\<lparr>stun_Gateway := ip_string gw\<rparr>))
                  else if ParseIP (stun_Gateway t) = None then Inl (BadGateway (stun_Gateway t))
                  else rest t)"

subsection \<open>Loading\<close>

text \<open>An optional block is validated only when it is enabled.\<close>

definition when_enabled ::
    "bool \<Rightarrow> (config_error \<Rightarrow> config_error) \<Rightarrow> ('b \<Rightarrow> config_error + 'b) \<Rightarrow> 'b \<Rightarrow> config_error + 'b" where
  "when_enabled en wrap validate b =
     (if en then (case validate b of Inl e \<Rightarrow> Inl (wrap e) | Inr b' \<Rightarrow> Inr b') else Inr b)"

definition server_defaults :: "server_config \<Rightarrow> server_config" where
  "server_defaults c =
     c\<lparr>sc_Listen := or_default '':443'' (sc_Listen c),
       sc_ControlAddr := or_default ''127.0.0.1:8443'' (sc_ControlAddr c),
       sc_RealityInboundAddr := or_default ''127.0.0.1:8444'' (sc_RealityInboundAddr c),
       sc_LogLevel := or_default ''info'' (sc_LogLevel c)\<rparr>"

definition LoadServer ::
    "(string \<Rightarrow> time option) \<Rightarrow> (string \<Rightarrow> string list option) \<Rightarrow> server_config \<Rightarrow> config_error + server_config" where
  "LoadServer dur certDNSNames c0 =
     (let c = server_defaults c0
      in if sc_Mimic c = '''' then Inl MimicRequired
         else if sc_RealityPrivateKey c = '''' \<or> sc_ShortID c = '''' then Inl RealityRequired
         else if sc_Clients c = [] then Inl ClientRequired
         else case validatePublish (sc_Publish c) True of
                Some e \<Rightarrow> Inl e
              | None \<Rightarrow>
          (case when_enabled (stun_Enable (sc_Tun c)) InTun validateServerTun (sc_Tun c) of
             Inl e \<Rightarrow> Inl e
           | Inr tn \<Rightarrow>
          (case when_enabled (ban_Enable (sc_Ban c)) InBan (validateServerBan dur) (sc_Ban c) of
             Inl e \<Rightarrow> Inl e
           | Inr bn \<Rightarrow>
          (case when_enabled (tuic_Enable (sc_Tuic c)) InTuic
                  (\<lambda>t. validateServerTuic certDNSNames t (sc_Certs c)) (sc_Tuic c) of
             Inl e \<Rightarrow> Inl e
           | Inr tc \<Rightarrow> Inr (c\<lparr>sc_Tun := tn, sc_Ban := bn, sc_Tuic := tc\<rparr>)))))"

definition tap_defaults :: "client_tun_tap \<Rightarrow> client_tun_tap" where
  "tap_defaults t =
     t\<lparr>ctap_Name := or_default ''tbox0'' (ctap_Name t),
       ctap_DHCP := (case ctap_DHCP t of None \<Rightarrow> Some True | Some d \<Rightarrow> Some d)\<rparr>"

definition validate_tap :: "client_tun_tap \<Rightarrow> config_error + client_tun_tap" where
  "validate_tap t0 =
     (let t = tap_defaults t0 in
      if ctap_IPv4CIDR t \<noteq> '''' \<and> ParseCIDR (ctap_IPv4CIDR t) = None then Inl (BadIPv4CIDR (ctap_IPv4CIDR t))
      else if ctap_BridgeMembers t \<noteq> [] \<and> ctap_Bridge t = '''' then Inl BridgeRequired
      else case first_error (\<lambda>r. case ParseTunRoute r of Inl e \<Rightarrow> Some e | Inr _ \<Rightarrow> None) (ctap_Routes t) of
             Some e \<Rightarrow> Inl e
           | None \<Rightarrow> Inr t)"

definition validate_client_tun :: "client_tun \<Rightarrow> config_error + client_tun" where
  "validate_client_tun t0 =
     (if ctun_TAP t0 = None \<and> ctun_UDP t0 = None then Inl TapOrUDPRequired
      else
        let t = t0\<lparr>ctun_MTU := (if ctun_MTU t0 = 0 then 1448 else ctun_MTU t0)\<rparr>;
            udp_check = (\<lambda>t. case ctun_UDP t of
                               Some u \<Rightarrow> if cudp_Listen u = '''' then Inl UDPListenRequired else Inr t
                             | None \<Rightarrow> Inr t)
        in case ctun_TAP t of
             None \<Rightarrow> udp_check t
           | Some tap \<Rightarrow>
               (case validate_tap tap of
                  Inl e \<Rightarrow> Inl e
                | Inr tap' \<Rightarrow> udp_check (t\<lparr>ctun_TAP := Some tap'\<rparr>)))"

definition LoadClient :: "client_config \<Rightarrow> config_error + client_config" where
  "LoadClient c0 =
     (let c = c0\<lparr>cc_SocksListen := or_default ''127.0.0.1:1080'' (cc_SocksListen c0),
                 cc_AdminListen := or_default ''127.0.0.1:9090'' (cc_AdminListen c0),
                 cc_LogLevel := or_default ''info'' (cc_LogLevel c0)\<rparr>
      in if cc_Token c = '''' then Inl TokenRequired
         else case validatePublish (cc_Publish c) False of
                Some e \<Rightarrow> Inl e
              | None \<Rightarrow>
                  (case when_enabled (ctun_Enable (cc_Tun c)) id validate_client_tun (cc_Tun c) of
                     Inl e \<Rightarrow> Inl e
                   | Inr tn \<Rightarrow> Inr (c\<lparr>cc_Tun := tn\<rparr>)))"

subsection \<open>Addresses\<close>

definition MimicHost :: "server_config \<Rightarrow> string" where
  "MimicHost c = (case SplitHostPort (sc_Mimic c) of Inl _ \<Rightarrow> sc_Mimic c | Inr (host, _) \<Rightarrow> host)"

definition port_of :: "string \<Rightarrow> u16" where
  "port_of address =
     (case SplitHostPort address of
        Inl _ \<Rightarrow> 443
      | Inr (_, portStr) \<Rightarrow>
          let p = fst (ParseUint 16 portStr) in if p = 0 then 443 else of_nat p)"

definition MimicPort :: "server_config \<Rightarrow> u16" where
  "MimicPort c = port_of (sc_Mimic c)"

definition PublicPort :: "server_config \<Rightarrow> u16" where
  "PublicPort c = port_of (sc_Listen c)"

subsection \<open>Lemmas\<close>

lemma or_default_idem [simp]: "or_default d (or_default d s) = or_default d s"
  by (simp add: or_default_def)

lemma coversName_loop_iff: "coversName_loop ns host \<longleftrightarrow> list_ex (\<lambda>n. wildcardMatch (ToLower n) host) ns"
  by (induction ns) (auto simp: wildcardMatch_def Let_def)

lemma scheme_mode_service:
  "scheme_mode ''https'' = Some ''http''" "scheme_mode ''wss'' = Some ''ws''"
  "scheme_mode ''tcp'' = Some ''tcp''" "scheme_mode ''socks5'' = Some ''socks5''"
  by (simp_all add: scheme_mode_def)

lemma normPath_plain: "list_all plain_path_char p \<Longrightarrow> list_all plain_path_char (normPath p)"
  by (simp add: normPath_def plain_path_char_def is_ctl_def)

text \<open>The identifier of a service with a plain host and path, read as a URL.\<close>

lemma publish_Parse_plain:
  assumes "pub_URL p = sch @ ''://'' @ h @ pa" "scheme_mode sch = Some mode" "ToLower sch = sch"
    and "list_all plain_host_char h" "h \<noteq> ''''" "list_all plain_path_char pa" "pa = [] \<or> hd pa = CHR ''/''"
    and "list_all (\<lambda>c. is_alpha c \<or> is_digit c) sch" "sch \<noteq> []" "is_alpha (hd sch)"
  shows "publish_Parse p =
    (if mode = ''tcp'' \<or> mode = ''socks5''
     then (if pa \<noteq> '''' \<and> pa \<noteq> ''/'' then Inl (PathNotAllowed (pub_URL p) mode) else Inr (mode, h, ''''))
     else Inr (mode, h, normPath pa))"
  using Parse_plain[OF assms(4,6-10)] assms(1-5)
  by (simp add: publish_Parse_def Hostname_plain normPath_def del: append_Cons append_Nil append.simps)

subsection \<open>Properties\<close>

definition publish_of :: "string \<Rightarrow> publish" where
  "publish_of u = \<lparr>pub_URL = u, pub_Upstream = ''127.0.0.1:80'', pub_Allow = [], pub_AllowDest = [], pub_StripPrefix = False,
     pub_AddPrefix = '''', pub_SetHost = '''', pub_RequestHeaders = [], pub_ResponseHeaders = []\<rparr>"

text \<open>
  The identifier a service is known by is itself a publish URL for it: for a plain host and
  path, parsing \<^verbatim>\<open>ServiceID(mode, host, path)\<close> gives back the mode, the host and the path (the
  empty path for tcp and socks5, the normalised one for http and ws).
\<close>

theorem service_id_is_its_url:
  assumes "mode \<in> {''http'', ''ws'', ''tcp'', ''socks5''}" "list_all plain_host_char host" "host \<noteq> ''''"
    and "list_all plain_path_char path" "path = '''' \<or> hd path = CHR ''/''"
    and "pub_URL p = ServiceID mode host path"
  shows "publish_Parse p = Inr (mode, host, if isRaw mode then '''' else normPath path)"
proof -
  have np: "normPath path = [] \<or> hd (normPath path) = CHR ''/''" using assms(5) by (auto simp: normPath_def)
  have l: "ToLower ''https'' = ''https''" "ToLower ''wss'' = ''wss''" "ToLower ''tcp'' = ''tcp''" "ToLower ''socks5'' = ''socks5''"
    by code_simp+
  note plain = publish_Parse_plain[where h = host and p = p, OF _ _ _ assms(2,3)]
  note sch = is_alpha_def is_digit_def ServiceID_def isRaw_def
  consider "mode = ''http''" | "mode = ''ws''" | "mode = ''tcp''" | "mode = ''socks5''" using assms(1) by auto
  then show ?thesis
  proof cases
    case 1
    with plain[OF _ scheme_mode_service(1) l(1) normPath_plain[OF assms(4)] np] assms(6) show ?thesis by (simp add: sch)
  next
    case 2
    with plain[OF _ scheme_mode_service(2) l(2) normPath_plain[OF assms(4)] np] assms(6) show ?thesis by (simp add: sch)
  next
    case 3
    with plain[where pa = "[]", OF _ scheme_mode_service(3) l(3)] assms(6) show ?thesis by (simp add: sch)
  next
    case 4
    with plain[where pa = "[]", OF _ scheme_mode_service(4) l(4)] assms(6) show ?thesis by (simp add: sch)
  qed
qed

theorem service_id_is_its_url_witness:
  "publish_Parse (publish_of ''wss://chat.example/ws'') = Inr (''ws'', ''chat.example'', ''/ws'')"
proof -
  have p: "list_all plain_host_char ''chat.example''" "list_all plain_path_char ''/ws''" by code_simp+
  have u: "pub_URL (publish_of ''wss://chat.example/ws'') = ServiceID ''ws'' ''chat.example'' ''/ws''" by code_simp
  from service_id_is_its_url[OF _ p(1) _ p(2) _ u] show ?thesis by (simp add: isRaw_def normPath_def)
qed

text \<open>
  The configuration and the registry agree on which certificate covers a name: the check of
  the TUIC server name uses the same matching as the certificate lookup by SNI, so wildcards
  match one non-empty label and case and surrounding blanks do not matter.
\<close>

theorem covers_name_is_registry_match:
  "coversName ns host \<longleftrightarrow> (\<exists>n \<in> set ns. wildcardMatch (ToLower n) (ToLower (TrimSpace host)))"
  by (simp add: coversName_def coversName_loop_iff list_ex_iff)

theorem covers_name_is_registry_match_witness: "coversName [''*.Example.com''] '' WWW.example.com ''"
proof -
  have "wildcardMatch (ToLower ''*.Example.com'') (ToLower (TrimSpace '' WWW.example.com ''))" by code_simp
  then show ?thesis unfolding covers_name_is_registry_match by simp
qed

lemma tuic_certs_found:
  "tuic_certs certDNSNames cfs sn = None \<Longrightarrow>
     \<exists>cf ns. FindCertForSAN certDNSNames cfs sn = Some cf \<and> cf \<in> set cfs \<and> certDNSNames (CertPath cf) = Some ns \<and> coversName ns sn"
  by (induction cfs) (auto split: option.splits if_splits)

lemma validateServerTuic_Inr:
  "validateServerTuic certDNSNames t cfs = Inr t' \<Longrightarrow>
     tuic_SNI t' = tuic_SNI t \<and> tuic_Enable t' = tuic_Enable t \<and> tuic_certs certDNSNames cfs (tuic_SNI t') = None \<and>
     validateServerTuic certDNSNames t' cfs = Inr t'"
  by (auto simp: validateServerTuic_def Let_def split: if_splits option.splits)

lemma ban_defaults_idem: "ban_defaults (ban_defaults b) = ban_defaults b"
  by (simp add: ban_defaults_def split: option.split)

lemma validateServerBan_Inr:
  assumes "validateServerBan dur b = Inr b'"
  shows "b' = ban_defaults b \<and> dur (ban_Window b') \<noteq> None \<and> dur (ban_BanDuration b') \<noteq> None \<and>
     (\<forall>c \<in> set (ban_Exempt b'). ParsePrefix c \<noteq> None) \<and> validateServerBan dur b' = Inr b'"
proof -
  have b': "b' = ban_defaults b"
    using assms unfolding validateServerBan_def Let_def by (auto split: if_splits option.splits)
  have c: "dur (ban_Window b') \<noteq> None" "dur (ban_BanDuration b') \<noteq> None" "find (\<lambda>c. ParsePrefix c = None) (ban_Exempt b') = None"
    using assms unfolding validateServerBan_def Let_def b' by (auto split: if_splits option.splits)
  then have "validateServerBan dur b' = Inr b'"
    unfolding validateServerBan_def Let_def b' ban_defaults_idem by simp
  with b' c show ?thesis by (simp add: find_None_iff)
qed

lemma firstHost_Some:
  assumes "firstHost net = Some gw"
  shows "length gw = 4 \<and> net_Contains net gw \<and> (\<exists>ip. To4 (net_ip net) = Some ip \<and> gw = ip[3 := ip ! 3 + 1] \<and> gw \<noteq> ip)"
proof -
  obtain ip where ip: "To4 (net_ip net) = Some ip" "gw = ip[3 := ip ! 3 + 1]" "net_Contains net gw"
    using assms by (auto simp: firstHost_def Let_def split: option.splits if_splits)
  have l: "length ip = 4" using To4_Some[OF ip(1)] by simp
  then have "gw ! 3 \<noteq> ip ! 3" using ip(2) by simp
  then have "gw \<noteq> ip" by metis
  with ip l show ?thesis by (metis length_list_update)
qed

lemma ParseIP_gateway: "length gw = 4 \<Longrightarrow> ParseIP (ip_string gw) = Some (v4in6_prefix @ gw)"
  by (simp add: ParseIP_dotted)

lemma ip_string_nonempty: "length gw = 4 \<Longrightarrow> ip_string gw \<noteq> ''''"
  using ParseIP_gateway[of gw] by (auto simp: ParseIP_def ParseAddr_def split: option.splits)

lemma validateServerTun_Inr:
  assumes "validateServerTun t = Inr t'"
  shows "stun_PoolV4 t' = stun_PoolV4 t \<and> stun_Enable t' = stun_Enable t \<and> ParseCIDR (stun_PoolV4 t') \<noteq> None \<and>
    ParseIP (stun_Gateway t') \<noteq> None \<and> stun_Gateway t' \<noteq> '''' \<and> stun_MTU t' \<noteq> 0 \<and> validateServerTun t' = Inr t'"
proof -
  have e: "stun_PoolV4 t \<noteq> ''''" using assms by (auto simp: validateServerTun_def Let_def split: if_splits)
  obtain i net where net: "ParseCIDR (stun_PoolV4 t) = Some (i, net)"
    using assms by (auto simp: validateServerTun_def Let_def split: if_splits option.splits)
  obtain g where g: "g \<noteq> ''''" "ParseIP g \<noteq> None"
    "t' = t\<lparr>stun_TapName := or_default ''tbox0'' (stun_TapName t),
            stun_MTU := (if stun_MTU t = 0 then 1448 else stun_MTU t), stun_Gateway := g\<rparr>"
  proof (cases "stun_Gateway t = ''''")
    case True
    then obtain gw where gw: "firstHost net = Some gw"
      using assms e net by (auto simp: validateServerTun_def Let_def split: option.splits)
    have l: "length gw = 4" using firstHost_Some[OF gw] by simp
    have "t' = t\<lparr>stun_TapName := or_default ''tbox0'' (stun_TapName t),
            stun_MTU := (if stun_MTU t = 0 then 1448 else stun_MTU t), stun_Gateway := ip_string gw\<rparr>"
      using True assms e net gw by (simp add: validateServerTun_def Let_def split: if_splits)
    then show thesis
      using that[of "ip_string gw"] ip_string_nonempty[OF l] ParseIP_gateway[OF l] by simp
  next
    case False
    then show thesis
      using assms e net by (intro that[of "stun_Gateway t"]) (simp_all add: validateServerTun_def Let_def split: if_splits)
  qed
  moreover have "stun_IPv6Prefix t = '''' \<or> ParseCIDR (stun_IPv6Prefix t) \<noteq> None" "stun_EnableNAT t \<longrightarrow> stun_WANInterface t \<noteq> ''''"
    using assms e net by (auto simp: validateServerTun_def Let_def split: if_splits option.splits)
  ultimately show ?thesis
    using net e by (simp add: validateServerTun_def Let_def)
qed

lemma ban_Enable_defaults [simp]: "ban_Enable (ban_defaults b) = ban_Enable b"
  by (simp add: ban_defaults_def)

lemma when_enabled_Inr: "when_enabled en wrap val b = Inr b' \<Longrightarrow> (if en then val b = Inr b' else b' = b)"
  by (auto simp: when_enabled_def split: if_splits sum.splits)

lemma when_enabled_again: "(if en then val b = Inr b else True) \<Longrightarrow> when_enabled en wrap val b = Inr b"
  by (simp add: when_enabled_def)

lemma server_defaults_fields:
  "sc_Mimic (server_defaults c) = sc_Mimic c" "sc_RealityPrivateKey (server_defaults c) = sc_RealityPrivateKey c"
  "sc_ShortID (server_defaults c) = sc_ShortID c" "sc_Clients (server_defaults c) = sc_Clients c"
  "sc_Publish (server_defaults c) = sc_Publish c" "sc_Certs (server_defaults c) = sc_Certs c"
  "sc_Tun (server_defaults c) = sc_Tun c" "sc_Ban (server_defaults c) = sc_Ban c" "sc_Tuic (server_defaults c) = sc_Tuic c"
  by (simp_all add: server_defaults_def)

lemma server_defaults_idem:
  "server_defaults ((server_defaults c)\<lparr>sc_Tun := tn, sc_Ban := bn, sc_Tuic := tc\<rparr>) =
     (server_defaults c)\<lparr>sc_Tun := tn, sc_Ban := bn, sc_Tuic := tc\<rparr>"
  by (simp add: server_defaults_def)

text \<open>An accepted server configuration, block by block.\<close>

lemma LoadServer_Inr:
  assumes "LoadServer dur cn c = Inr c'"
  obtains tn bn tc where
    "c' = (server_defaults c)\<lparr>sc_Tun := tn, sc_Ban := bn, sc_Tuic := tc\<rparr>"
    "sc_Mimic c \<noteq> ''''" "sc_RealityPrivateKey c \<noteq> ''''" "sc_ShortID c \<noteq> ''''" "sc_Clients c \<noteq> []"
    "validatePublish (sc_Publish c) True = None"
    "if stun_Enable (sc_Tun c) then validateServerTun (sc_Tun c) = Inr tn else tn = sc_Tun c"
    "if ban_Enable (sc_Ban c) then validateServerBan dur (sc_Ban c) = Inr bn else bn = sc_Ban c"
    "if tuic_Enable (sc_Tuic c) then validateServerTuic cn (sc_Tuic c) (sc_Certs c) = Inr tc else tc = sc_Tuic c"
  using assms that unfolding LoadServer_def Let_def server_defaults_fields
  by (auto split: if_splits option.splits sum.splits dest!: when_enabled_Inr)

text \<open>A loaded configuration loads again unchanged, also with another list of clients.\<close>

lemma LoadServer_again:
  assumes "LoadServer dur cn c = Inr c'" "cs \<noteq> []"
  shows "LoadServer dur cn (c'\<lparr>sc_Clients := cs\<rparr>) = Inr (c'\<lparr>sc_Clients := cs\<rparr>)"
proof -
  from assms(1) obtain tn bn tc where l:
    "c' = (server_defaults c)\<lparr>sc_Tun := tn, sc_Ban := bn, sc_Tuic := tc\<rparr>"
    "sc_Mimic c \<noteq> ''''" "sc_RealityPrivateKey c \<noteq> ''''" "sc_ShortID c \<noteq> ''''" "sc_Clients c \<noteq> []"
    "validatePublish (sc_Publish c) True = None"
    "if stun_Enable (sc_Tun c) then validateServerTun (sc_Tun c) = Inr tn else tn = sc_Tun c"
    "if ban_Enable (sc_Ban c) then validateServerBan dur (sc_Ban c) = Inr bn else bn = sc_Ban c"
    "if tuic_Enable (sc_Tuic c) then validateServerTuic cn (sc_Tuic c) (sc_Certs c) = Inr tc else tc = sc_Tuic c"
    by (rule LoadServer_Inr)
  have "when_enabled (stun_Enable tn) InTun validateServerTun tn = Inr tn"
    by (rule when_enabled_again) (use l(7) validateServerTun_Inr in \<open>auto split: if_splits\<close>)
  moreover have "when_enabled (ban_Enable bn) InBan (validateServerBan dur) bn = Inr bn"
    by (rule when_enabled_again) (use l(8) validateServerBan_Inr in \<open>auto split: if_splits\<close>)
  moreover have "when_enabled (tuic_Enable tc) InTuic (\<lambda>t. validateServerTuic cn t (sc_Certs c)) tc = Inr tc"
    by (rule when_enabled_again) (use l(9) validateServerTuic_Inr in \<open>auto split: if_splits\<close>)
  ultimately show ?thesis
    using l(2-4,6) assms(2) unfolding LoadServer_def Let_def l(1) by (simp add: server_defaults_def or_default_def)
qed

text \<open>
  Loading is stable: an accepted server configuration, saved with its defaults filled in and
  loaded again, is accepted unchanged, so adding a client, which loads and rewrites the file,
  never makes it invalid or changes a setting.
\<close>

theorem load_server_stable:
  assumes "LoadServer dur cn c = Inr c'"
  shows "LoadServer dur cn c' = Inr c'"
proof -
  have "sc_Clients c' \<noteq> []" using assms by (rule LoadServer_Inr) (simp add: server_defaults_fields)
  from LoadServer_again[OF assms this] show ?thesis by simp
qed

definition server_config_ex :: server_config where
  "server_config_ex =
     \<lparr>sc_Listen = '''', sc_ServerAddr = ''vps.example'', sc_Mimic = ''www.example.org:443'', sc_RealityPrivateKey = ''k'',
      sc_RealityPublicKey = ''p'', sc_ShortID = ''ab'', sc_ControlAddr = '''', sc_RealityInboundAddr = '''', sc_LogLevel = '''',
      sc_Clients = [\<lparr>cred_Name = ''laptop'', cred_UUID = ''u1'', cred_TuicPassword = ''''\<rparr>],
      sc_Certs = [\<lparr>CertPath = ''a.pem'', KeyPath = ''a.key''\<rparr>], sc_Publish = [publish_of ''https://app.example/x''],
      sc_Tun = \<lparr>stun_Enable = True, stun_TapName = '''', stun_PoolV4 = ''10.42.0.0/24'', stun_Gateway = '''', stun_IPv6Prefix = '''',
                stun_MTU = 0, stun_EnableNAT = False, stun_WANInterface = '''', stun_EnablePassthrough = False\<rparr>,
      sc_Ban = \<lparr>ban_Enable = True, ban_Methods = [], ban_Statuses = [], ban_Path = '''', ban_Window = '''', ban_Threshold = 0,
                ban_BanDuration = '''', ban_SubnetThreshold = None, ban_Exempt = [''10.0.0.0/8'']\<rparr>,
      sc_Tuic = \<lparr>tuic_Enable = True, tuic_Listen = '''', tuic_SNI = ''t.example'', tuic_CongestionControl = ''''\<rparr>\<rparr>"

definition dur_ex :: "string \<Rightarrow> time option" where
  "dur_ex s = (if s = ''10m'' then Some 600000000000 else if s = ''1h'' then Some 3600000000000 else None)"

definition names_ex :: "string \<Rightarrow> string list option" where
  "names_ex path = (if path = ''a.pem'' then Some [''*.example''] else None)"

definition loaded_ex :: server_config where
  "loaded_ex = server_config_ex\<lparr>sc_Listen := '':443'', sc_ControlAddr := ''127.0.0.1:8443'', sc_RealityInboundAddr := ''127.0.0.1:8444'', sc_LogLevel := ''info'',
     sc_Tun := (sc_Tun server_config_ex)\<lparr>stun_TapName := ''tbox0'', stun_Gateway := ''10.42.0.1'', stun_MTU := 1448\<rparr>,
     sc_Ban := \<lparr>ban_Enable = True, ban_Methods = [''POST''], ban_Statuses = [401, 403], ban_Path = '''', ban_Window = ''10m'', ban_Threshold = 5,
       ban_BanDuration = ''1h'', ban_SubnetThreshold = Some 2, ban_Exempt = [''10.0.0.0/8'']\<rparr>,
     sc_Tuic := \<lparr>tuic_Enable = True, tuic_Listen = '':443'', tuic_SNI = ''t.example'', tuic_CongestionControl = ''cubic''\<rparr>\<rparr>"

lemma LoadServer_ex: "LoadServer dur_ex names_ex server_config_ex = Inr loaded_ex"
  by code_simp

theorem load_server_stable_witness:
  "LoadServer dur_ex names_ex loaded_ex =
     Inr loaded_ex"
  by (rule load_server_stable[OF LoadServer_ex])

text \<open>
  A TUIC inbound that passes validation has its certificate: the search for a certificate
  of its server name, which the start-up repeats, succeeds with a certificate that covers the name.
\<close>

theorem validated_tuic_has_cert:
  assumes "LoadServer dur cn c = Inr c'" "tuic_Enable (sc_Tuic c)"
  shows "\<exists>cf ns. FindCertForSAN cn (sc_Certs c') (tuic_SNI (sc_Tuic c')) = Some cf \<and> cf \<in> set (sc_Certs c') \<and>
    cn (CertPath cf) = Some ns \<and> coversName ns (tuic_SNI (sc_Tuic c'))"
  using assms(1)
proof (rule LoadServer_Inr)
  fix tn bn tc
  assume c': "c' = (server_defaults c)\<lparr>sc_Tun := tn, sc_Ban := bn, sc_Tuic := tc\<rparr>"
    and "if tuic_Enable (sc_Tuic c) then validateServerTuic cn (sc_Tuic c) (sc_Certs c) = Inr tc else tc = sc_Tuic c"
  with assms(2) have "validateServerTuic cn (sc_Tuic c) (sc_Certs c) = Inr tc" by simp
  then have "tuic_certs cn (sc_Certs c) (tuic_SNI tc) = None" using validateServerTuic_Inr by blast
  from tuic_certs_found[OF this] show ?thesis by (simp add: c' server_defaults_fields)
qed

theorem validated_tuic_has_cert_witness:
  "\<exists>cf. FindCertForSAN names_ex (sc_Certs loaded_ex)
     (tuic_SNI (sc_Tuic loaded_ex)) = Some cf"
proof -
  have "tuic_Enable (sc_Tuic server_config_ex)" by code_simp
  from validated_tuic_has_cert[OF LoadServer_ex this] show ?thesis by blast
qed

text \<open>
  The tunnel gateway is usable: after loading with the tunnel enabled, the gateway is an
  address; when it was derived from the pool, it is the pool's network address plus one and lies in
  the pool.
\<close>

theorem derived_gateway_in_pool:
  assumes "validateServerTun t = Inr t'"
  shows "ParseIP (stun_Gateway t') \<noteq> None \<and>
    (stun_Gateway t = '''' \<longrightarrow>
      (\<exists>i net ip. ParseCIDR (stun_PoolV4 t) = Some (i, net) \<and> To4 (net_ip net) = Some ip \<and>
         ParseIP (stun_Gateway t') = Some (v4in6_prefix @ ip[3 := ip ! 3 + 1]) \<and>
         net_Contains net (ip[3 := ip ! 3 + 1]) \<and> ip[3 := ip ! 3 + 1] \<noteq> ip))"
proof (cases "stun_Gateway t = ''''")
  case True
  obtain i net where net: "ParseCIDR (stun_PoolV4 t) = Some (i, net)"
    using assms by (auto simp: validateServerTun_def Let_def split: if_splits option.splits)
  obtain gw where gw: "firstHost net = Some gw" "stun_Gateway t' = ip_string gw"
    using True assms net by (auto simp: validateServerTun_def Let_def split: option.splits if_splits)
  note f = firstHost_Some[OF gw(1)]
  have "ParseIP (stun_Gateway t') = Some (v4in6_prefix @ gw)" using f by (simp only: gw(2) ParseIP_gateway)
  then show ?thesis using f net by auto
qed (use validateServerTun_Inr[OF assms] in simp)

theorem derived_gateway_in_pool_witness: "ParseIP (stun_Gateway (projr (validateServerTun (sc_Tun server_config_ex)))) \<noteq> None"
proof -
  have "case validateServerTun (sc_Tun server_config_ex) of Inl _ \<Rightarrow> False | Inr _ \<Rightarrow> True" by code_simp
  then have "validateServerTun (sc_Tun server_config_ex) = Inr (projr (validateServerTun (sc_Tun server_config_ex)))"
    by (cases "validateServerTun (sc_Tun server_config_ex)") simp_all
  from derived_gateway_in_pool[OF this] show ?thesis by simp
qed

lemma parse_uint_bound: "n \<le> maxv \<Longrightarrow> fst (parse_uint_loop maxv n s) \<le> maxv"
  by (induction s arbitrary: n) (auto simp: Let_def)

lemma parse_uint_range: "parse_uint_loop maxv n s = (p, Some ErrRange) \<Longrightarrow> p = maxv"
  by (induction s arbitrary: n) (auto simp: Let_def split: if_splits)

lemma port_of_value:
  assumes "SplitHostPort a = Inr (h, ps)" "ParseUint 16 ps = (p, e)" "p \<noteq> 0"
  shows "unat (port_of a) = p"
proof -
  have "p \<le> 2 ^ 16 - 1" using assms(2) parse_uint_bound[of 0 "2 ^ 16 - 1" ps] by (auto simp: ParseUint_def split: if_splits)
  then show ?thesis using assms by (simp add: port_of_def unat_of_nat take_bit_eq_mod)
qed

lemma port_of_nonzero: "port_of a \<noteq> 0"
proof (cases "SplitHostPort a")
  case (Inr hp)
  obtain h ps p e where s: "hp = (h, ps)" "ParseUint 16 ps = (p, e)" by (metis surj_pair)
  show ?thesis
  proof (cases "p = 0")
    case False
    then show ?thesis using port_of_value[OF Inr[unfolded s(1)] s(2)] by auto
  qed (simp add: port_of_def Inr s)
qed (simp add: port_of_def)

text \<open>
  A derived port is never zero and never truncated: it is the number in the address when
  that is a valid port, and 443 when the address has no port or no number. A number above 65535 is not
  rejected: it is silently read as port 65535.
\<close>

theorem ports_in_range:
  "PublicPort c \<noteq> 0 \<and> MimicPort c \<noteq> 0 \<and>
   (\<forall>h ps p. SplitHostPort (sc_Listen c) = Inr (h, ps) \<and> ParseUint 16 ps = (p, None) \<and> p \<noteq> 0 \<longrightarrow> unat (PublicPort c) = p) \<and>
   (\<forall>h ps p. SplitHostPort (sc_Listen c) = Inr (h, ps) \<and> ParseUint 16 ps = (p, Some ErrRange) \<longrightarrow> unat (PublicPort c) = 65535)"
proof -
  have "unat (PublicPort c) = 65535"
    if "SplitHostPort (sc_Listen c) = Inr (h, ps)" "ParseUint 16 ps = (p, Some ErrRange)" for h ps p
  proof -
    have "p = 65535" using parse_uint_range[of "2 ^ 16 - 1" 0 ps p] that(2) by (auto simp: ParseUint_def split: if_splits)
    then show ?thesis using port_of_value[OF that] by (simp add: PublicPort_def)
  qed
  then show ?thesis using port_of_nonzero port_of_value by (auto simp: PublicPort_def MimicPort_def)
qed

theorem ports_in_range_witness: "unat (PublicPort (server_config_ex\<lparr>sc_Listen := '':70000''\<rparr>)) = 65535"
proof -
  have "SplitHostPort (sc_Listen (server_config_ex\<lparr>sc_Listen := '':70000''\<rparr>)) = Inr ('''', ''70000'')" by code_simp
  moreover have "ParseUint 16 ''70000'' = (65535, Some ErrRange)" by code_simp
  ultimately show ?thesis using ports_in_range[of "server_config_ex\<lparr>sc_Listen := '':70000''\<rparr>"] by blast
qed

lemma validate_publish_facts:
  "validate_publish_from i serverSide ps = None \<Longrightarrow> p \<in> set ps \<Longrightarrow>
     \<exists>mode host path. publish_Parse p = Inr (mode, host, path) \<and>
       (if mode = ''socks5'' then \<not> serverSide \<and> (\<exists>s. DestAllow.New (pub_AllowDest p) = Inr s) else pub_Upstream p \<noteq> '''')"
proof (induction ps arbitrary: i)
  case (Cons q ps)
  obtain mode host path where q: "publish_Parse q = Inr (mode, host, path)"
    using Cons.prems(1) by (cases "publish_Parse q") auto
  have c: "if mode = ''socks5'' then \<not> serverSide \<and> (\<exists>s. DestAllow.New (pub_AllowDest q) = Inr s) else pub_Upstream q \<noteq> ''''"
    and rest: "validate_publish_from (Suc i) serverSide ps = None"
    using Cons.prems(1) q by (auto split: sum.splits if_splits)
  show ?case
  proof (cases "p = q")
    case True
    with q c show ?thesis by blast
  next
    case False
    with Cons.prems(2) have "p \<in> set ps" by simp
    from Cons.IH[OF rest this] show ?thesis .
  qed
qed simp

text \<open>
  An accepted list can be published: every entry has a host and a known scheme, a socks5
  entry occurs only on the client and has a valid destination list, and every other entry names its
  upstream.
\<close>

theorem validated_publish_usable:
  assumes "validatePublish pubs serverSide = None" "p \<in> set pubs"
  shows "\<exists>mode host path. publish_Parse p = Inr (mode, host, path) \<and> host \<noteq> '''' \<and>
    mode \<in> {''http'', ''ws'', ''tcp'', ''socks5''} \<and>
    (mode = ''socks5'' \<longrightarrow> \<not> serverSide \<and> (\<exists>s. DestAllow.New (pub_AllowDest p) = Inr s)) \<and>
    (mode \<noteq> ''socks5'' \<longrightarrow> pub_Upstream p \<noteq> '''') \<and> (isRaw mode \<longleftrightarrow> path = '''')"
proof -
  obtain mode host path where m: "publish_Parse p = Inr (mode, host, path)"
    "if mode = ''socks5'' then \<not> serverSide \<and> (\<exists>s. DestAllow.New (pub_AllowDest p) = Inr s) else pub_Upstream p \<noteq> ''''"
    using validate_publish_facts[OF assms(1)[unfolded validatePublish_def] assms(2)] by blast
  have "host \<noteq> ''''" using m(1) by (auto simp: publish_Parse_def Let_def split: option.splits if_splits)
  moreover have "mode \<in> {''http'', ''ws'', ''tcp'', ''socks5''}"
    using m(1) by (auto simp: publish_Parse_def scheme_mode_def Let_def split: option.splits if_splits)
  moreover have "isRaw mode \<longleftrightarrow> path = ''''"
    using m(1) by (auto simp: publish_Parse_def isRaw_def Let_def split: option.splits if_splits)
  ultimately show ?thesis using m by (auto split: if_splits)
qed

theorem validated_publish_usable_witness:
  "\<exists>mode host path. publish_Parse (publish_of ''tls://git.example'') = Inr (mode, host, path) \<and> host \<noteq> ''''"
proof -
  have "validatePublish [publish_of ''tls://git.example''] True = None" by code_simp
  from validated_publish_usable[OF this, of "publish_of ''tls://git.example''"] show ?thesis by auto
qed

lemma validate_tap_Inr:
  assumes "validate_tap t = Inr t'"
  shows "t' = tap_defaults t \<and> (ctap_BridgeMembers t' \<noteq> [] \<longrightarrow> ctap_Bridge t' \<noteq> '''') \<and> ctap_DHCP t' \<noteq> None \<and> ctap_Name t' \<noteq> '''' \<and>
    (\<forall>r \<in> set (ctap_Routes t'). \<exists>x. ParseTunRoute r = Inr x) \<and> validate_tap t' = Inr t'"
proof -
  have t': "t' = tap_defaults t"
    using assms unfolding validate_tap_def Let_def by (simp split: if_splits option.splits)
  have idem: "tap_defaults (tap_defaults t) = tap_defaults t"
    by (simp add: tap_defaults_def split: option.split)
  have r: "validate_tap t' = Inr t'"
    using assms unfolding validate_tap_def Let_def t' idem by (simp split: if_splits option.splits)
  have "first_error (\<lambda>r. case ParseTunRoute r of Inl e \<Rightarrow> Some e | Inr _ \<Rightarrow> None) (ctap_Routes t') = None"
    "ctap_BridgeMembers t' \<noteq> [] \<longrightarrow> ctap_Bridge t' \<noteq> ''''"
    using assms unfolding validate_tap_def Let_def t' by (auto split: if_splits option.splits)
  moreover have "ctap_DHCP t' \<noteq> None" "ctap_Name t' \<noteq> ''''"
    unfolding t' by (auto simp: tap_defaults_def or_default_def split: option.split)
  moreover from calculation(1) have "\<forall>r \<in> set (ctap_Routes t'). \<exists>x. ParseTunRoute r = Inr x"
    unfolding first_error_None_iff by (metis (no_types, lifting) old.sum.exhaust old.sum.simps(5) option.distinct(1))
  ultimately show ?thesis using t' r by blast
qed

lemma validate_client_tun_Inr:
  assumes "validate_client_tun t = Inr t'"
  shows "ctun_Enable t' = ctun_Enable t \<and> ctun_MTU t' \<noteq> 0 \<and> (ctun_TAP t' \<noteq> None \<or> ctun_UDP t' \<noteq> None) \<and>
    (\<forall>u. ctun_UDP t' = Some u \<longrightarrow> cudp_Listen u \<noteq> '''') \<and>
    (\<forall>tap. ctun_TAP t' = Some tap \<longrightarrow> validate_tap tap = Inr tap) \<and> validate_client_tun t' = Inr t'"
proof (cases "ctun_TAP t")
  case None
  with assms show ?thesis by (auto simp: validate_client_tun_def Let_def split: if_splits option.splits)
next
  case (Some tap)
  with assms obtain tap' where v: "validate_tap tap = Inr tap'"
    by (auto simp: validate_client_tun_def Let_def split: sum.splits)
  then have "validate_tap tap' = Inr tap'" using validate_tap_Inr by blast
  with assms Some v show ?thesis
    by (cases "ctun_UDP t") (auto simp: validate_client_tun_def Let_def split: if_splits)
qed

end
