(* ===== verification/Token.thy ===== *)
theory Token
  imports Go_Json
begin

text \<open>
  \<^verbatim>\<open>internal/token/token.go\<close>: the credential handed to a client. Base64url without padding is
  modelled on bytes, as the standard library's raw URL encoding works, and the token's JSON document
  on top of \<^verbatim>\<open>Go_Json\<close>. The curve of the key pair is a parameter.
\<close>

unbundle bit_operations_syntax

subsection \<open>Raw base64url\<close>

definition b64_alphabet :: string where
  "b64_alphabet = ''ABCDEFGHIJKLMNOPQRSTUVWXYZabcdefghijklmnopqrstuvwxyz0123456789-_''"

definition b64_char :: "nat \<Rightarrow> char" where
  "b64_char n = b64_alphabet ! n"

definition b64_val :: "char \<Rightarrow> nat option" where
  "b64_val c = IndexByte b64_alphabet c"

fun sextets :: "nat list \<Rightarrow> nat list" where
  "sextets [] = []"
| "sextets [a] = [a div 4, a mod 4 * 16]"
| "sextets [a, b] = [a div 4, a mod 4 * 16 + b div 16, b mod 16 * 4]"
| "sextets (a # b # c # r) =
     [a div 4, a mod 4 * 16 + b div 16, b mod 16 * 4 + c div 64, c mod 64] @ sextets r"

definition EncodeToString :: "bytes \<Rightarrow> string" where
  "EncodeToString bs = map b64_char (sextets (map unat bs))"

text \<open>
  Decoding skips line breaks, refuses other characters outside the alphabet and a single
  left-over character, and drops the unused low bits of the last one.
\<close>

fun octets :: "nat list \<Rightarrow> nat list option" where
  "octets [] = Some []"
| "octets [w] = None"
| "octets [w, x] = Some [w * 4 + x div 16]"
| "octets [w, x, y] = Some [w * 4 + x div 16, x mod 16 * 16 + y div 4]"
| "octets (w # x # y # z # r) =
     map_option ((@) [w * 4 + x div 16, x mod 16 * 16 + y div 4, y mod 4 * 64 + z]) (octets r)"

fun b64_values :: "string \<Rightarrow> nat list option" where
  "b64_values [] = Some []"
| "b64_values (c # s) =
     (if c = CHR 0x0A \<or> c = CHR 0x0D then b64_values s
      else case b64_val c of None \<Rightarrow> None | Some n \<Rightarrow> map_option (Cons n) (b64_values s))"

definition DecodeString :: "string \<Rightarrow> bytes option" where
  "DecodeString s = (case b64_values s of None \<Rightarrow> None | Some ns \<Rightarrow> map_option (map of_nat) (octets ns))"

subsection \<open>Tokens\<close>

record token =
  tok_ServerAddr :: string
  tok_ServerPort :: u16
  tok_UUID :: string
  tok_PublicKey :: string
  tok_ShortID :: string
  tok_SNI :: string
  tok_ControlAddr :: string
  tok_Flow :: string
  tok_TuicPort :: u16
  tok_TuicPassword :: string
  tok_TuicSNI :: string
  tok_TuicCongestion :: string
  tok_TuicUDPRelayMode :: string
  tok_Protocol :: string

text \<open>The document of a token: its field names, and what \<^verbatim>\<open>Marshal\<close> and \<^verbatim>\<open>Unmarshal\<close> make of it.\<close>

definition token_names :: "string list" where
  "token_names =
     [''server_addr'', ''server_port'', ''uuid'', ''public_key'', ''short_id'', ''sni'', ''control_addr'', ''flow'', ''tuic_port'',
      ''tuic_password'', ''tuic_sni'', ''tuic_congestion'', ''tuic_udp_relay_mode'', ''protocol'']"

definition set_token :: "string \<Rightarrow> json \<Rightarrow> token \<Rightarrow> token option" where
  "set_token n =
     (if n = ''server_addr'' then set_string (\<lambda>s. tok_ServerAddr_update (\<lambda>_. s))
      else if n = ''server_port'' then set_uint16 (\<lambda>w. tok_ServerPort_update (\<lambda>_. w))
      else if n = ''uuid'' then set_string (\<lambda>s. tok_UUID_update (\<lambda>_. s))
      else if n = ''public_key'' then set_string (\<lambda>s. tok_PublicKey_update (\<lambda>_. s))
      else if n = ''short_id'' then set_string (\<lambda>s. tok_ShortID_update (\<lambda>_. s))
      else if n = ''sni'' then set_string (\<lambda>s. tok_SNI_update (\<lambda>_. s))
      else if n = ''control_addr'' then set_string (\<lambda>s. tok_ControlAddr_update (\<lambda>_. s))
      else if n = ''flow'' then set_string (\<lambda>s. tok_Flow_update (\<lambda>_. s))
      else if n = ''tuic_port'' then set_uint16 (\<lambda>w. tok_TuicPort_update (\<lambda>_. w))
      else if n = ''tuic_password'' then set_string (\<lambda>s. tok_TuicPassword_update (\<lambda>_. s))
      else if n = ''tuic_sni'' then set_string (\<lambda>s. tok_TuicSNI_update (\<lambda>_. s))
      else if n = ''tuic_congestion'' then set_string (\<lambda>s. tok_TuicCongestion_update (\<lambda>_. s))
      else if n = ''tuic_udp_relay_mode'' then set_string (\<lambda>s. tok_TuicUDPRelayMode_update (\<lambda>_. s))
      else set_string (\<lambda>s. tok_Protocol_update (\<lambda>_. s)))"

definition zero_token :: token where
  "zero_token = \<lparr>tok_ServerAddr = '''', tok_ServerPort = 0, tok_UUID = '''', tok_PublicKey = '''', tok_ShortID = '''',
     tok_SNI = '''', tok_ControlAddr = '''', tok_Flow = '''', tok_TuicPort = 0, tok_TuicPassword = '''',
     tok_TuicSNI = '''', tok_TuicCongestion = '''', tok_TuicUDPRelayMode = '''', tok_Protocol = ''''\<rparr>"

definition token_members :: "token \<Rightarrow> (string \<times> json) list" where
  "token_members t =
     string_field ''server_addr'' (tok_ServerAddr t) @ uint_field ''server_port'' (tok_ServerPort t) @
     string_field ''uuid'' (tok_UUID t) @ string_field ''public_key'' (tok_PublicKey t) @
     string_field ''short_id'' (tok_ShortID t) @ string_field ''sni'' (tok_SNI t) @
     string_field ''control_addr'' (tok_ControlAddr t) @ string_omit ''flow'' (tok_Flow t) @
     uint_omit ''tuic_port'' (tok_TuicPort t) @ string_omit ''tuic_password'' (tok_TuicPassword t) @
     string_omit ''tuic_sni'' (tok_TuicSNI t) @ string_omit ''tuic_congestion'' (tok_TuicCongestion t) @
     string_omit ''tuic_udp_relay_mode'' (tok_TuicUDPRelayMode t) @ string_omit ''protocol'' (tok_Protocol t)"

definition token_Marshal :: "token \<Rightarrow> bytes" where
  "token_Marshal t = bytes_of_string (render (JObject (token_members t)))"

definition token_Unmarshal :: "bytes \<Rightarrow> token option" where
  "token_Unmarshal raw =
     (case parse_json (string_of_bytes raw) of
        None \<Rightarrow> None
      | Some v \<Rightarrow> unmarshal_struct set_token token_names v zero_token)"

definition Carrier :: "token \<Rightarrow> string" where
  "Carrier t =
     (if tok_Protocol t = ''tuic'' then ''tuic''
      else if tok_Protocol t = '''' \<and> tok_TuicPassword t \<noteq> '''' \<and> tok_PublicKey t = '''' then ''tuic''
      else ''reality'')"

definition scheme_prefix :: string where "scheme_prefix = ''tbox://''"

definition Encode :: "token \<Rightarrow> string" where
  "Encode t = scheme_prefix @ EncodeToString (token_Marshal t)"

datatype token_error = BadBase64 | BadTokenJSON | MissingFields | MissingTuicPassword | MissingPublicKey

definition check_token :: "token \<Rightarrow> token_error option" where
  "check_token t =
     (if tok_UUID t = '''' \<or> tok_ServerAddr t = '''' then Some MissingFields
      else if Carrier t = ''tuic'' then (if tok_TuicPassword t = '''' then Some MissingTuicPassword else None)
      else if tok_PublicKey t = '''' then Some MissingPublicKey else None)"

definition Decode :: "string \<Rightarrow> token_error + token" where
  "Decode s0 =
     (let s = (if length s0 > length scheme_prefix \<and> take (length scheme_prefix) s0 = scheme_prefix
               then drop (length scheme_prefix) s0 else s0)
      in case DecodeString s of
           None \<Rightarrow> Inl BadBase64
         | Some raw \<Rightarrow>
             (case token_Unmarshal raw of
                None \<Rightarrow> Inl BadTokenJSON
              | Some t \<Rightarrow> (case check_token t of Some e \<Rightarrow> Inl e | None \<Rightarrow> Inr t)))"

subsection \<open>Keys and identifiers\<close>

text \<open>The random bytes are an argument; \<open>derive\<close> is the curve's map from private to public key.\<close>

definition hex_bytes :: "bytes \<Rightarrow> string" where
  "hex_bytes bs = concat (map (\<lambda>b. [hex_char (unat b div 16), hex_char (unat b mod 16)]) bs)"

definition PublicKeyFromPrivate :: "(bytes \<Rightarrow> bytes option) \<Rightarrow> string \<Rightarrow> string option" where
  "PublicKeyFromPrivate derive privB64 =
     (case DecodeString privB64 of
        None \<Rightarrow> None
      | Some raw \<Rightarrow> (case derive raw of None \<Rightarrow> None | Some pub \<Rightarrow> Some (EncodeToString pub)))"

record keypair =
  kp_PrivateKey :: string
  kp_PublicKey :: string

definition GenerateKeypair :: "(bytes \<Rightarrow> bytes option) \<Rightarrow> bytes \<Rightarrow> keypair option" where
  "GenerateKeypair derive priv =
     (case derive priv of
        None \<Rightarrow> None
      | Some pub \<Rightarrow> Some \<lparr>kp_PrivateKey = EncodeToString priv, kp_PublicKey = EncodeToString pub\<rparr>)"

definition GenerateShortID :: "bytes \<Rightarrow> string" where
  "GenerateShortID b = hex_bytes (take 4 b)"

definition GenerateUUID :: "bytes \<Rightarrow> string" where
  "GenerateUUID b0 =
     (let b = b0[6 := (b0 ! 6 AND 0x0f) OR 0x40, 8 := (b0 ! 8 AND 0x3f) OR 0x80] in
      hex_bytes (take 4 b) @ ''-'' @ hex_bytes (take 2 (drop 4 b)) @ ''-'' @ hex_bytes (take 2 (drop 6 b)) @ ''-'' @
      hex_bytes (take 2 (drop 8 b)) @ ''-'' @ hex_bytes (take 6 (drop 10 b)))"

subsection \<open>Lemmas\<close>

lemma sextets_bound: "list_all (\<lambda>a. a < 256) ns \<Longrightarrow> list_all (\<lambda>a. a < 64) (sextets ns)"
  by (induction ns rule: sextets.induct) auto

lemma octets_sextets: "list_all (\<lambda>a. a < 256) ns \<Longrightarrow> octets (sextets ns) = Some ns"
proof (induction ns rule: sextets.induct)
  case (4 a b c r)
  have "(a mod 4 * 16 + b div 16) div 16 = a mod 4" "(a mod 4 * 16 + b div 16) mod 16 = b div 16"
    "(b mod 16 * 4 + c div 64) div 4 = b mod 16" "(b mod 16 * 4 + c div 64) mod 4 = c div 64"
    using 4(2) by auto
  then show ?case using 4 by simp
qed auto

lemma b64_val_char: "n < 64 \<Longrightarrow> b64_val (b64_char n) = Some n"
proof -
  have "list_all (\<lambda>n. b64_val (b64_char n) = Some n) [0 ..< 64]" by code_simp
  then show "n < 64 \<Longrightarrow> ?thesis" by (simp add: list_all_iff)
qed

lemma b64_char_no_break: "n < 64 \<Longrightarrow> b64_char n \<noteq> CHR 0x0A \<and> b64_char n \<noteq> CHR 0x0D"
proof -
  have "list_all (\<lambda>n. b64_char n \<noteq> CHR 0x0A \<and> b64_char n \<noteq> CHR 0x0D) [0 ..< 64]" by code_simp
  then show "n < 64 \<Longrightarrow> ?thesis" by (simp add: list_all_iff)
qed

lemma b64_values_chars: "list_all (\<lambda>a. a < 64) ns \<Longrightarrow> b64_values (map b64_char ns) = Some ns"
  by (induction ns) (auto simp: b64_val_char dest: b64_char_no_break)

lemma DecodeString_EncodeToString [simp]: "DecodeString (EncodeToString bs) = Some bs"
proof -
  have b: "list_all (\<lambda>a. a < 256) (map unat bs)"
  proof -
    have "unat (x :: byte) < 256" for x using unsigned_less[of x] by simp
    then show ?thesis by (simp add: list_all_iff)
  qed
  then have "b64_values (EncodeToString bs) = Some (sextets (map unat bs))"
    unfolding EncodeToString_def by (intro b64_values_chars sextets_bound)
  then show ?thesis using octets_sextets[OF b] by (simp add: DecodeString_def o_def)
qed

lemma EncodeToString_empty: "EncodeToString bs = [] \<longleftrightarrow> bs = []"
proof
  assume "EncodeToString bs = []"
  then have "DecodeString (EncodeToString bs) = Some []" by (simp add: DecodeString_def)
  then show "bs = []" by simp
qed (simp add: EncodeToString_def)

text \<open>A token with its texts made well-formed UTF-8.\<close>

definition valid_token :: "token \<Rightarrow> token" where
  "valid_token t =
     \<lparr>tok_ServerAddr = to_valid (tok_ServerAddr t), tok_ServerPort = tok_ServerPort t, tok_UUID = to_valid (tok_UUID t),
      tok_PublicKey = to_valid (tok_PublicKey t), tok_ShortID = to_valid (tok_ShortID t), tok_SNI = to_valid (tok_SNI t),
      tok_ControlAddr = to_valid (tok_ControlAddr t), tok_Flow = to_valid (tok_Flow t), tok_TuicPort = tok_TuicPort t,
      tok_TuicPassword = to_valid (tok_TuicPassword t), tok_TuicSNI = to_valid (tok_TuicSNI t),
      tok_TuicCongestion = to_valid (tok_TuicCongestion t), tok_TuicUDPRelayMode = to_valid (tok_TuicUDPRelayMode t),
      tok_Protocol = to_valid (tok_Protocol t)\<rparr>"

lemma token_names_ascii: "list_all (\<lambda>n. to_valid n = n) token_names"
  by code_simp

lemma token_json: "token_Unmarshal (token_Marshal t) = Some (valid_token t)"
proof -
  have "to_valid n = n" if "n \<in> set token_names" for n using token_names_ascii that by (simp add: list_all_iff)
  note k = this[unfolded token_names_def]
  have d: "json_depth (JObject (token_members t)) \<le> maxNestingDepth"
    by (simp add: depth_flat token_members_def ball_Un scalar_fields maxNestingDepth_def del: json_depth.simps)
  have m: "decimals (JObject (token_members t))" by (simp add: token_members_def)
  have "set_fields set_token token_names (valid_members (token_members t)) zero_token = Some (valid_token t)"
    unfolding token_members_def map_append set_fields_append
    by (simp add: read_field k token_names_def set_token_def zero_token_def valid_token_def)
  then show ?thesis using parse_render[OF m d]
    by (simp add: token_Marshal_def token_Unmarshal_def unmarshal_struct_def del: render.simps)
qed

text \<open>What decoding makes of an encoded token, whatever its fields are.\<close>

lemma Decode_Encode: "Decode (Encode t) = (case check_token (valid_token t) of Some e \<Rightarrow> Inl e | None \<Rightarrow> Inr (valid_token t))"
proof -
  have "token_Marshal t \<noteq> []" by (simp add: token_Marshal_def bytes_of_string_def)
  then have "length (Encode t) > length scheme_prefix" by (simp add: Encode_def EncodeToString_empty)
  then show ?thesis using token_json[of t] by (simp add: Decode_def Encode_def Let_def)
qed

lemma high_nibble: "unat (w :: byte) div 16 = unat (drop_bit 4 w)"
proof -
  have "drop_bit 4 (unat w) = unat (drop_bit 4 w)"
    by (simp add: unsigned_drop_bit_eq take_bit_nat_eq_self unsigned_less[of w, simplified])
  then show ?thesis by (simp add: drop_bit_eq_div)
qed

lemma version_nibble: "unat (((b :: byte) AND 0x0f) OR 0x40) div 16 = 4"
  unfolding high_nibble by (simp add: drop_bit_or drop_bit_and)

lemma variant_nibble: "unat (((b :: byte) AND 0x3f) OR 0x80) div 16 \<in> {8, 9, 10, 11}"
proof -
  let ?x = "drop_bit 4 b"
  have "drop_bit 4 ((b AND 0x3f) OR 0x80) = (?x AND 3) OR 8" by (simp add: drop_bit_or drop_bit_and)
  moreover have "?x AND 3 \<in> {0, 1, 2, 3}"
  proof -
    have "?x AND 3 = take_bit 2 ?x" by (simp add: take_bit_eq_mask mask_eq_exp_minus_1)
    moreover have "unat (take_bit 2 ?x) = unat ?x mod 4" unfolding unsigned_take_bit_eq by (simp add: take_bit_eq_mod)
    ultimately have "unat (?x AND 3) \<in> {0, 1, 2, 3}" by auto
    moreover have "?x AND 3 = of_nat (unat (?x AND 3))" by simp
    ultimately show ?thesis by (auto simp del: of_nat_unat)
  qed
  ultimately show ?thesis unfolding high_nibble by auto
qed

lemma hex_digits: "hex_char 4 = CHR ''4''" "hex_char 8 = CHR ''8''" "hex_char 9 = CHR ''9''" "hex_char 10 = CHR ''a''" "hex_char 11 = CHR ''b''"
  by code_simp+

subsection \<open>Properties\<close>

definition token_ex :: token where
  "token_ex = \<lparr>tok_ServerAddr = ''vps.example'', tok_ServerPort = 443, tok_UUID = ''u1'', tok_PublicKey = '''', tok_ShortID = '''',
     tok_SNI = '''', tok_ControlAddr = ''127.0.0.1:8443'', tok_Flow = '''', tok_TuicPort = 8445, tok_TuicPassword = ''pw'',
     tok_TuicSNI = ''t.example'', tok_TuicCongestion = ''cubic'', tok_TuicUDPRelayMode = '''', tok_Protocol = ''tuic''\<rparr>"

text \<open>
  C40. Tokens survive the trip through JSON and base64: a token with its carrier's credentials decodes to itself, with the
  malformed UTF-8 of its texts replaced, and one that lacks them is refused with the error for what is missing; escapes,
  omitted empty fields and every port come back.
\<close>

theorem token_roundtrip:
  "Decode (Encode t) =
    (if tok_UUID t = '''' \<or> tok_ServerAddr t = '''' then Inl MissingFields
     else if Carrier (valid_token t) = ''tuic'' \<and> tok_TuicPassword t = '''' then Inl MissingTuicPassword
     else if Carrier (valid_token t) \<noteq> ''tuic'' \<and> tok_PublicKey t = '''' then Inl MissingPublicKey
     else Inr (valid_token t))"
  using Decode_Encode[of t] by (simp add: check_token_def) (simp add: valid_token_def)

text \<open>
  A generated pair fits: the public key that is later derived from the printed private key, when a token is issued for a configuration that
  holds only the private one, is the public key that was printed with it.
\<close>

theorem generated_keypair_fits:
  assumes "GenerateKeypair derive priv = Some kp"
  shows "PublicKeyFromPrivate derive (kp_PrivateKey kp) = Some (kp_PublicKey kp)"
  using assms by (auto simp: GenerateKeypair_def PublicKeyFromPrivate_def split: option.splits)

theorem generated_keypair_fits_witness:
  "PublicKeyFromPrivate (\<lambda>b. Some (rev b)) (EncodeToString [1, 2, 3]) = Some (EncodeToString [3, 2, 1])"
  using generated_keypair_fits[of "\<lambda>b. Some (rev b)" "[1, 2, 3]" "\<lparr>kp_PrivateKey = EncodeToString [1, 2, 3], kp_PublicKey = EncodeToString [3, 2, 1]\<rparr>"]
  by (simp add: GenerateKeypair_def)

text \<open>
  The base64url codec is an exact inverse on all byte strings, and the decoder accepts
  its input with line breaks inserted anywhere.
\<close>

theorem base64_roundtrip:
  assumes "filter (\<lambda>c. c \<noteq> CHR 0x0A \<and> c \<noteq> CHR 0x0D) s = EncodeToString bs"
  shows "DecodeString s = Some bs"
proof -
  have "b64_values s = b64_values (filter (\<lambda>c. c \<noteq> CHR 0x0A \<and> c \<noteq> CHR 0x0D) s)"
    by (induction s) (auto split: option.split)
  then have "DecodeString s = DecodeString (EncodeToString bs)" using assms by (simp add: DecodeString_def)
  then show ?thesis by simp
qed

theorem base64_roundtrip_witness: "DecodeString (''-_'' @ [CHR 0x0A] @ ''8'') = Some [251, 255]"
proof -
  have "filter (\<lambda>c. c \<noteq> CHR 0x0A \<and> c \<noteq> CHR 0x0D) (''-_'' @ [CHR 0x0A] @ ''8'') = EncodeToString [251, 255]" by code_simp
  from base64_roundtrip[OF this] show ?thesis .
qed

text \<open>
  A generated client identifier is a version 4 UUID: 36 characters with hyphens in their
  places, the version digit 4 and a variant digit of 8, 9, a or b, for all random bytes.
\<close>

theorem uuid_is_version4:
  assumes "length b = 16"
  shows "length (GenerateUUID b) = 36 \<and> GenerateUUID b ! 14 = CHR ''4'' \<and> GenerateUUID b ! 19 \<in> set ''89ab'' \<and>
    GenerateUUID b ! 8 = CHR ''-'' \<and> GenerateUUID b ! 13 = CHR ''-'' \<and> GenerateUUID b ! 18 = CHR ''-'' \<and> GenerateUUID b ! 23 = CHR ''-''"
proof -
  obtain b0 b1 b2 b3 b4 b5 b6 b7 b8 b9 b10 b11 b12 b13 b14 b15
    where b: "b = [b0, b1, b2, b3, b4, b5, b6, b7, b8, b9, b10, b11, b12, b13, b14, b15]"
    using assms by (auto simp: length_Suc_conv numeral_eq_Suc)
  have "hex_char (unat ((b6 AND 0x0f) OR 0x40) div 16) = CHR ''4''" by (simp only: version_nibble hex_digits)
  moreover have "hex_char (unat ((b8 AND 0x3f) OR 0x80) div 16) \<in> set ''89ab''" using variant_nibble[of b8] by (auto simp: hex_digits)
  ultimately show ?thesis by (simp add: GenerateUUID_def b hex_bytes_def)
qed

theorem uuid_is_version4_witness: "GenerateUUID (replicate 16 255) ! 14 = CHR ''4''"
  using uuid_is_version4[of "replicate 16 255"] by simp

end
