(* ===== verification/Singbox.thy ===== *)
theory Singbox
  imports Go_Netip
begin

text \<open>
  \<^verbatim>\<open>internal/singbox/singbox.go\<close>: the configuration documents for the embedded carrier. The
  structures are modelled with the source's fields up to \<^verbatim>\<open>json.Marshal\<close>; a nil pointer is \<open>None\<close>, an
  omitted field has its zero value. Running the carrier is library code and not modelled.
\<close>

subsection \<open>Documents\<close>

record log_opts =
  log_Level :: string
  log_Timestamp :: bool

record reality_handshake =
  hs_Server :: string
  hs_ServerPort :: u16

record inbound_reality =
  inr_Enabled :: bool
  inr_Handshake :: reality_handshake
  inr_PrivateKey :: string
  inr_ShortID :: "string list"

record outbound_reality =
  outr_Enabled :: bool
  outr_PublicKey :: string
  outr_ShortID :: string

record utls_opts =
  utls_Enabled :: bool
  utls_Fingerprint :: string

record inbound_tls =
  intls_Enabled :: bool
  intls_ServerName :: string
  intls_Insecure :: bool
  intls_ALPN :: "string list"
  intls_CertificatePath :: string
  intls_KeyPath :: string
  intls_Reality :: "inbound_reality option"

record outbound_tls =
  outtls_Enabled :: bool
  outtls_ServerName :: string
  outtls_Insecure :: bool
  outtls_ALPN :: "string list"
  outtls_UTLS :: "utls_opts option"
  outtls_Reality :: "outbound_reality option"

record vless_user =
  vu_Name :: string
  vu_UUID :: string
  vu_Flow :: string
  vu_Password :: string

record inbound =
  in_Type :: string
  in_Tag :: string
  in_Listen :: string
  in_ListenPort :: u16
  in_Users :: "vless_user list"
  in_TLS :: "inbound_tls option"
  in_CongestionControl :: string
  in_AuthTimeout :: string
  in_Heartbeat :: string
  in_Network :: "string list"

record outbound =
  out_Type :: string
  out_Tag :: string
  out_Server :: string
  out_ServerPort :: u16
  out_UUID :: string
  out_Flow :: string
  out_TLS :: "outbound_tls option"
  out_Password :: string
  out_CongestionControl :: string
  out_UDPRelayMode :: string
  out_ZeroRTTHandshake :: bool
  out_Heartbeat :: string
  out_TCPFastOpen :: bool

record sb_config =
  cfg_Log :: log_opts
  cfg_Inbounds :: "inbound list"
  cfg_Outbounds :: "outbound list"
  cfg_RouteFinal :: string

subsection \<open>Parameters\<close>

record user =
  user_Name :: string
  user_UUID :: string
  user_Password :: string

record tuic_server_params =
  tsp_Listen :: string
  tsp_ListenPort :: u16
  tsp_SNI :: string
  tsp_CertPath :: string
  tsp_KeyPath :: string
  tsp_CongestionControl :: string
  tsp_Users :: "user list"

record server_params =
  sp_ListenAddr :: string
  sp_ListenPort :: u16
  sp_MimicHost :: string
  sp_MimicPort :: u16
  sp_PrivateKey :: string
  sp_ShortID :: string
  sp_Users :: "user list"
  sp_LogLevel :: string
  sp_Tuic :: "tuic_server_params option"

record client_params =
  cp_SocksListen :: string
  cp_ServerAddr :: string
  cp_ServerPort :: u16
  cp_UUID :: string
  cp_SNI :: string
  cp_PublicKey :: string
  cp_ShortID :: string
  cp_Fingerprint :: string
  cp_LogLevel :: string
  cp_Carrier :: string
  cp_TuicPort :: u16
  cp_TuicPassword :: string
  cp_TuicSNI :: string
  cp_TuicCongestion :: string
  cp_TuicUDPRelayMode :: string
  cp_TproxyPort :: u16

definition orDefault :: "string \<Rightarrow> string \<Rightarrow> string" where
  "orDefault s d = (if s = '''' then d else s)"

definition orDefaultPort :: "u16 \<Rightarrow> u16 \<Rightarrow> u16" where
  "orDefaultPort p d = (if p = 0 then d else p)"

definition orDefaultUint32 :: "32 word \<Rightarrow> 32 word \<Rightarrow> 32 word" where
  "orDefaultUint32 n d = (if n = 0 then d else n)"

datatype address_error = BadAddress split_error | InvalidPort string

definition splitHostPort :: "string \<Rightarrow> address_error + (string \<times> u16)" where
  "splitHostPort address =
     (case SplitHostPort address of
        Inl e \<Rightarrow> Inl (BadAddress e)
      | Inr (host, portStr) \<Rightarrow>
          (case ParseUint 16 portStr of
             (_, Some _) \<Rightarrow> Inl (InvalidPort portStr)
           | (p, None) \<Rightarrow> Inr (if host = '''' then ''127.0.0.1'' else host, of_nat p)))"

subsection \<open>The server's document\<close>

definition vless_user_of :: "user \<Rightarrow> vless_user" where
  "vless_user_of u = \<lparr>vu_Name = user_Name u, vu_UUID = user_UUID u, vu_Flow = '''', vu_Password = user_Password u\<rparr>"

definition empty_outbound :: "string \<Rightarrow> string \<Rightarrow> outbound" where
  "empty_outbound ty tag =
     \<lparr>out_Type = ty, out_Tag = tag, out_Server = '''', out_ServerPort = 0, out_UUID = '''', out_Flow = '''', out_TLS = None,
      out_Password = '''', out_CongestionControl = '''', out_UDPRelayMode = '''', out_ZeroRTTHandshake = False, out_Heartbeat = '''',
      out_TCPFastOpen = False\<rparr>"

definition vless_inbound :: "server_params \<Rightarrow> inbound" where
  "vless_inbound p =
     \<lparr>in_Type = ''vless'', in_Tag = ''vless-in'', in_Listen = orDefault (sp_ListenAddr p) ''127.0.0.1'',
      in_ListenPort = sp_ListenPort p, in_Users = map vless_user_of (sp_Users p),
      in_TLS = Some \<lparr>intls_Enabled = True, intls_ServerName = sp_MimicHost p, intls_Insecure = False, intls_ALPN = [],
        intls_CertificatePath = '''', intls_KeyPath = '''',
        intls_Reality = Some \<lparr>inr_Enabled = True,
          inr_Handshake = \<lparr>hs_Server = sp_MimicHost p, hs_ServerPort = orDefaultPort (sp_MimicPort p) 443\<rparr>,
          inr_PrivateKey = sp_PrivateKey p, inr_ShortID = [sp_ShortID p]\<rparr>\<rparr>,
      in_CongestionControl = '''', in_AuthTimeout = '''', in_Heartbeat = '''',
      in_Network = []\<rparr>"

definition tuic_inbound :: "tuic_server_params \<Rightarrow> inbound" where
  "tuic_inbound t =
     \<lparr>in_Type = ''tuic'', in_Tag = ''tuic-in'', in_Listen = orDefault (tsp_Listen t) ''0.0.0.0'',
      in_ListenPort = tsp_ListenPort t, in_Users = map vless_user_of (tsp_Users t),
      in_TLS = Some \<lparr>intls_Enabled = True, intls_ServerName = tsp_SNI t, intls_Insecure = False, intls_ALPN = [''h3''],
        intls_CertificatePath = tsp_CertPath t, intls_KeyPath = tsp_KeyPath t, intls_Reality = None\<rparr>,
      in_CongestionControl = orDefault (tsp_CongestionControl t) ''cubic'', in_AuthTimeout = '''', in_Heartbeat = '''',
      in_Network = []\<rparr>"

definition ServerConfigJSON :: "server_params \<Rightarrow> sb_config" where
  "ServerConfigJSON p =
     \<lparr>cfg_Log = \<lparr>log_Level = orDefault (sp_LogLevel p) ''info'', log_Timestamp = False\<rparr>,
      cfg_Inbounds = [vless_inbound p] @ (case sp_Tuic p of None \<Rightarrow> [] | Some t \<Rightarrow> [tuic_inbound t]),
      cfg_Outbounds = [empty_outbound ''direct'' ''direct''], cfg_RouteFinal = ''direct''\<rparr>"

subsection \<open>The client's document\<close>

text \<open>The carrier's outbound, the same for the desktop and the tun client.\<close>

definition carrier_outbound ::
    "string \<Rightarrow> string \<Rightarrow> u16 \<Rightarrow> string \<Rightarrow> string \<Rightarrow> string \<Rightarrow> string \<Rightarrow> string \<Rightarrow> u16 \<Rightarrow> string \<Rightarrow> string \<Rightarrow> string \<Rightarrow> string \<Rightarrow> outbound" where
  "carrier_outbound carrier server prt uid sn publicKey short fingerprint tuicPort tuicPassword tuicSNI tuicCongestion relay =
     (if carrier = ''tuic'' then
        (empty_outbound ''tuic'' ''tuic-out'')\<lparr>out_Server := server, out_ServerPort := orDefaultPort tuicPort prt, out_UUID := uid,
          out_Password := tuicPassword, out_CongestionControl := orDefault tuicCongestion ''cubic'',
          out_UDPRelayMode := orDefault relay ''native'',
          out_TLS := Some \<lparr>outtls_Enabled = True, outtls_ServerName = orDefault tuicSNI sn, outtls_Insecure = False,
            outtls_ALPN = [''h3''], outtls_UTLS = None, outtls_Reality = None\<rparr>\<rparr>
      else
        (empty_outbound ''vless'' ''vless-out'')\<lparr>out_Server := server, out_ServerPort := prt, out_UUID := uid,
          out_TLS := Some \<lparr>outtls_Enabled = True, outtls_ServerName = sn, outtls_Insecure = False, outtls_ALPN = [],
            outtls_UTLS = Some \<lparr>utls_Enabled = True, utls_Fingerprint = orDefault fingerprint ''chrome''\<rparr>,
            outtls_Reality = Some \<lparr>outr_Enabled = True, outr_PublicKey = publicKey, outr_ShortID = short\<rparr>\<rparr>\<rparr>)"

definition plain_inbound :: "string \<Rightarrow> string \<Rightarrow> string \<Rightarrow> u16 \<Rightarrow> string list \<Rightarrow> inbound" where
  "plain_inbound ty tag listen prt network =
     \<lparr>in_Type = ty, in_Tag = tag, in_Listen = listen, in_ListenPort = prt, in_Users = [], in_TLS = None,
      in_CongestionControl = '''', in_AuthTimeout = '''', in_Heartbeat = '''',
      in_Network = network\<rparr>"

definition ClientConfigJSON :: "client_params \<Rightarrow> address_error + sb_config" where
  "ClientConfigJSON p =
     (case splitHostPort (cp_SocksListen p) of
        Inl e \<Rightarrow> Inl e
      | Inr (host, prt) \<Rightarrow>
          let carrier = orDefault (cp_Carrier p) ''reality'';
              ob = carrier_outbound carrier (cp_ServerAddr p) (cp_ServerPort p) (cp_UUID p) (cp_SNI p) (cp_PublicKey p)
                     (cp_ShortID p) (cp_Fingerprint p) (cp_TuicPort p) (cp_TuicPassword p) (cp_TuicSNI p) (cp_TuicCongestion p)
                     (cp_TuicUDPRelayMode p)
          in Inr \<lparr>cfg_Log = \<lparr>log_Level = orDefault (cp_LogLevel p) ''info'', log_Timestamp = False\<rparr>,
                  cfg_Inbounds = [plain_inbound ''mixed'' ''socks-in'' host prt []] @
                    (if cp_TproxyPort p > 0
                     then [plain_inbound ''tproxy'' ''tproxy-in'' ''0.0.0.0'' (cp_TproxyPort p) [''tcp'', ''udp'']] else []),
                  cfg_Outbounds = [ob, empty_outbound ''direct'' ''direct''],
                  cfg_RouteFinal = (if carrier = ''tuic'' then ''tuic-out'' else ''vless-out'')\<rparr>)"

subsection \<open>The tun client's document\<close>

record dns_server =
  dns_Type :: string
  dns_Tag :: string
  dns_Server :: string
  dns_ServerPort :: u16
  dns_Detour :: string

record tun_inbound =
  ti_Type :: string
  ti_Tag :: string
  ti_Address :: "string list"
  ti_MTU :: "32 word"
  ti_AutoRoute :: bool
  ti_StrictRoute :: bool
  ti_Stack :: string

record route_rule =
  rule_Action :: string
  rule_Protocol :: string

record tun_config =
  tcfg_Log :: log_opts
  tcfg_DNSServers :: "dns_server list"
  tcfg_DNSFinal :: string
  tcfg_Inbounds :: "tun_inbound list"
  tcfg_Outbounds :: "outbound list"
  tcfg_Rules :: "route_rule list"
  tcfg_AutoDetectInterface :: bool
  tcfg_OverrideAndroidVPN :: bool
  tcfg_DomainResolver :: string
  tcfg_RouteFinal :: string

record tun_client_params =
  tp_ServerAddr :: string
  tp_ServerPort :: u16
  tp_UUID :: string
  tp_SNI :: string
  tp_PublicKey :: string
  tp_ShortID :: string
  tp_Fingerprint :: string
  tp_LogLevel :: string
  tp_Carrier :: string
  tp_TuicPort :: u16
  tp_TuicPassword :: string
  tp_TuicSNI :: string
  tp_TuicCongestion :: string
  tp_TuicUDPRelayMode :: string
  tp_MTU :: "32 word"
  tp_IPv6 :: bool
  tp_DNSAddress :: string

definition tunInet4Address :: string where "tunInet4Address = ''198.18.0.1/15''"
definition tunInet6Address :: string where "tunInet6Address = ''fdfe:dcba:9876::1/126''"
definition TunAddress :: string where "TunAddress = tunInet4Address"

datatype tun_client_error = ServerAndUUIDRequired | TuicPasswordRequired | PublicKeyRequired

definition check_tun_client :: "tun_client_params \<Rightarrow> tun_client_error option" where
  "check_tun_client p =
     (if tp_ServerAddr p = '''' \<or> tp_UUID p = '''' then Some ServerAndUUIDRequired
      else if orDefault (tp_Carrier p) ''reality'' = ''tuic''
      then (if tp_TuicPassword p = '''' then Some TuicPasswordRequired else None)
      else if tp_PublicKey p = '''' then Some PublicKeyRequired else None)"

definition TunClientConfigJSON :: "tun_client_params \<Rightarrow> tun_client_error + tun_config" where
  "TunClientConfigJSON p =
     (case check_tun_client p of
        Some e \<Rightarrow> Inl e
      | None \<Rightarrow>
          let carrier = orDefault (tp_Carrier p) ''reality'';
              outTag = (if carrier = ''tuic'' then ''tuic-out'' else ''vless-out'');
              ob = carrier_outbound carrier (tp_ServerAddr p) (tp_ServerPort p) (tp_UUID p) (tp_SNI p) (tp_PublicKey p)
                     (tp_ShortID p) (tp_Fingerprint p) (tp_TuicPort p) (tp_TuicPassword p) (tp_TuicSNI p) (tp_TuicCongestion p)
                     (tp_TuicUDPRelayMode p)
          in Inr \<lparr>tcfg_Log = \<lparr>log_Level = orDefault (tp_LogLevel p) ''info'', log_Timestamp = False\<rparr>,
                  tcfg_DNSServers =
                    [\<lparr>dns_Type = ''udp'', dns_Tag = ''remote-dns'', dns_Server = orDefault (tp_DNSAddress p) ''8.8.8.8'',
                      dns_ServerPort = 0, dns_Detour = outTag\<rparr>,
                     \<lparr>dns_Type = ''udp'', dns_Tag = ''direct-dns'', dns_Server = ''223.5.5.5'', dns_ServerPort = 0, dns_Detour = ''direct''\<rparr>],
                  tcfg_DNSFinal = ''remote-dns'',
                  tcfg_Inbounds =
                    [\<lparr>ti_Type = ''tun'', ti_Tag = ''tun-in'',
                      ti_Address = [tunInet4Address] @ (if tp_IPv6 p then [tunInet6Address] else []),
                      ti_MTU = orDefaultUint32 (tp_MTU p) 9000, ti_AutoRoute = True, ti_StrictRoute = True, ti_Stack = ''system''\<rparr>],
                  tcfg_Outbounds = [ob, (empty_outbound ''direct'' ''direct'')\<lparr>out_TCPFastOpen := True\<rparr>],
                  tcfg_Rules = [\<lparr>rule_Action = ''sniff'', rule_Protocol = ''''\<rparr>, \<lparr>rule_Action = ''hijack-dns'', rule_Protocol = ''dns''\<rparr>],
                  tcfg_AutoDetectInterface = True, tcfg_OverrideAndroidVPN = False, tcfg_DomainResolver = ''direct-dns'', tcfg_RouteFinal = outTag\<rparr>)"

subsection \<open>Lemmas\<close>

lemma carrier_outbound_fields:
  "out_Tag (carrier_outbound ca se po ui sn pk sh fp tp tw ts tc re) = (if ca = ''tuic'' then ''tuic-out'' else ''vless-out'')"
  "out_Server (carrier_outbound ca se po ui sn pk sh fp tp tw ts tc re) = se"
  "out_UUID (carrier_outbound ca se po ui sn pk sh fp tp tw ts tc re) = ui"
  "out_ServerPort (carrier_outbound ca se po ui sn pk sh fp tp tw ts tc re) = (if ca = ''tuic'' then orDefaultPort tp po else po)"
  "out_Password (carrier_outbound ca se po ui sn pk sh fp tp tw ts tc re) = (if ca = ''tuic'' then tw else '''')"
  by (simp_all add: carrier_outbound_def empty_outbound_def)

lemma empty_outbound_tag [simp]: "out_Tag (empty_outbound ty tag) = tag"
  by (simp add: empty_outbound_def)

subsection \<open>Properties\<close>

text \<open>
  C34. No document points at an outbound it does not have: in the tun client's document the
  default route, and the detour of every DNS server, name one of its outbounds; the DNS servers
  referred to exist; and the carrier server's own name is resolved outside the tunnel.
\<close>

theorem tun_config_closed:
  assumes "TunClientConfigJSON p = Inr c"
  shows "tcfg_RouteFinal c = out_Tag (hd (tcfg_Outbounds c)) \<and>
    (\<forall>d \<in> set (tcfg_DNSServers c). dns_Detour d \<in> out_Tag ` set (tcfg_Outbounds c)) \<and>
    {tcfg_DNSFinal c, tcfg_DomainResolver c} \<subseteq> dns_Tag ` set (tcfg_DNSServers c) \<and>
    (\<forall>d \<in> set (tcfg_DNSServers c). dns_Tag d = tcfg_DomainResolver c \<longrightarrow> dns_Detour d = ''direct'') \<and>
    out_Server (hd (tcfg_Outbounds c)) = tp_ServerAddr p \<and> tp_ServerAddr p \<noteq> '''' \<and> out_UUID (hd (tcfg_Outbounds c)) \<noteq> ''''"
proof -
  have k: "check_tun_client p = None" using assms by (cases "check_tun_client p") (simp_all add: TunClientConfigJSON_def)
  then have r: "tp_ServerAddr p \<noteq> ''''" "tp_UUID p \<noteq> ''''" by (auto simp: check_tun_client_def split: if_splits)
  show ?thesis
    using assms k r unfolding TunClientConfigJSON_def Let_def
    by (auto simp: carrier_outbound_fields)
qed

definition tun_params_ex :: tun_client_params where
  "tun_params_ex = \<lparr>tp_ServerAddr = ''vps.example'', tp_ServerPort = 443, tp_UUID = ''u1'', tp_SNI = '''', tp_PublicKey = '''', tp_ShortID = '''',
     tp_Fingerprint = '''', tp_LogLevel = '''', tp_Carrier = ''tuic'', tp_TuicPort = 0, tp_TuicPassword = ''pw'', tp_TuicSNI = ''t.example'',
     tp_TuicCongestion = '''', tp_TuicUDPRelayMode = '''', tp_MTU = 0, tp_IPv6 = False, tp_DNSAddress = ''''\<rparr>"

theorem tun_config_closed_witness: "tcfg_RouteFinal (projr (TunClientConfigJSON tun_params_ex)) = out_Tag (hd (tcfg_Outbounds (projr (TunClientConfigJSON tun_params_ex))))"
proof -
  have "case TunClientConfigJSON tun_params_ex of Inl _ \<Rightarrow> False | Inr _ \<Rightarrow> True" by code_simp
  then have "TunClientConfigJSON tun_params_ex = Inr (projr (TunClientConfigJSON tun_params_ex))"
    by (cases "TunClientConfigJSON tun_params_ex") simp_all
  from tun_config_closed[OF this] show ?thesis by simp
qed

end
