(* ===== verification/App.thy ===== *)
theory App
  imports Config ControlClient Ban Token Singbox
begin

text \<open>
  \<^verbatim>\<open>internal/app\<close> and \<^verbatim>\<open>mobile/tbox.go\<close>: how the two roles are put together from their
  configuration. Files (\<open>readFile\<close>), certificate decoding (\<open>x509\<close>, \<open>certDNSNames\<close>), durations (\<open>dur\<close>)
  and the key derivation (\<open>derive\<close>) are parameters. Listening, signals and the running carrier are I/O.
\<close>

subsection \<open>From the configuration to the wire\<close>

definition service_of_publish :: "publish \<Rightarrow> config_error + service_reg" where
  "service_of_publish p =
     (case publish_Parse p of
        Inl e \<Rightarrow> Inl e
      | Inr (mode, host, path) \<Rightarrow>
          let h = (mode = ''http'') in
          Inr \<lparr>reg_Mode = mode, reg_Host = host, reg_Path = path, reg_Upstream = pub_Upstream p, reg_Allow = pub_Allow p,
               reg_AllowDest = pub_AllowDest p,
               reg_StripPrefix = (h \<and> pub_StripPrefix p), reg_AddPrefix = (if h then pub_AddPrefix p else ''''),
               reg_SetHost = (if h then pub_SetHost p else ''''),
               reg_RequestHeaders = (if h then pub_RequestHeaders p else []),
               reg_ResponseHeaders = (if h then pub_ResponseHeaders p else [])\<rparr>)"

definition buildServices :: "publish list \<Rightarrow> config_error + service_reg list" where
  "buildServices pubs = traverse_result service_of_publish pubs"

definition read_cert :: "(string \<Rightarrow> string option) \<Rightarrow> cert_file \<Rightarrow> cert_reg option" where
  "read_cert readFile cf =
     (case (readFile (CertPath cf), readFile (KeyPath cf)) of
        (Some cp, Some kp) \<Rightarrow> Some \<lparr>CertPEM = cp, KeyPEM = kp\<rparr>
      | _ \<Rightarrow> None)"

text \<open>The certificates read, or the index of the first pair that cannot be read.\<close>

fun buildCerts :: "(string \<Rightarrow> string option) \<Rightarrow> nat \<Rightarrow> cert_file list \<Rightarrow> nat + cert_reg list" where
  "buildCerts readFile i [] = Inr []"
| "buildCerts readFile i (cf # cfs) =
     (case read_cert readFile cf of
        None \<Rightarrow> Inl i
      | Some c \<Rightarrow> map_sum id (Cons c) (buildCerts readFile (Suc i) cfs))"

definition buildTunParams :: "client_tun \<Rightarrow> tun_params option" where
  "buildTunParams t =
     (if \<not> ctun_Enable t then None
      else
        let p0 = \<lparr>TAPEnable = False, TAPName = '''', TAPBridge = '''', TAPBridgeMembers = [], TAPv4 = '''', TAPv6 = '''',
                  TAPDHCP = False, TAPRoutes = [], UDPListen = '''', AcceptDefaultRoute = ctun_AcceptDefaultRoute t,
                  MTU = ctun_MTU t\<rparr>;
            p1 = (case ctun_TAP t of
                    None \<Rightarrow> p0
                  | Some tap \<Rightarrow>
                      p0\<lparr>TAPEnable := True, TAPName := ctap_Name tap, TAPBridge := ctap_Bridge tap,
                         TAPBridgeMembers := ctap_BridgeMembers tap, TAPv4 := ctap_IPv4CIDR tap, TAPv6 := ctap_IPv6 tap,
                         TAPDHCP := (case ctap_DHCP tap of Some d \<Rightarrow> d | None \<Rightarrow> False),
                         TAPRoutes := map (\<lambda>r. case ParseTunRoute r of Inr (dst, gw) \<Rightarrow> (dst, gw) | Inl _ \<Rightarrow> ('''', ''''))
                                        (ctap_Routes tap)\<rparr>)
        in Some (case ctun_UDP t of None \<Rightarrow> p1 | Some u \<Rightarrow> p1\<lparr>UDPListen := cudp_Listen u\<rparr>))"

subsection \<open>The server\<close>

datatype start_error = CertRead nat | CertInvalid nat register_error | PublishParse config_error | PublishRegister register_error
  | RealityAddress address_error | TuicNoCert string | TuicListen address_error | ExemptInvalid string

text \<open>The registry at start-up: the server's certificates in order, then its own services.\<close>

fun load_certs ::
    "(string \<Rightarrow> string \<Rightarrow> string + leaf) \<Rightarrow> (string \<Rightarrow> string option) \<Rightarrow> nat \<Rightarrow> cert_file list \<Rightarrow> registry \<Rightarrow> start_error + registry" where
  "load_certs x509 readFile i [] reg = Inr reg"
| "load_certs x509 readFile i (cf # cfs) reg =
     (case (readFile (CertPath cf), readFile (KeyPath cf)) of
        (Some cp, Some kp) \<Rightarrow>
          (case AddServerCert x509 cp kp reg of
             (_, Some e) \<Rightarrow> Inl (CertInvalid i e)
           | (reg1, None) \<Rightarrow> load_certs x509 readFile (Suc i) cfs reg1)
      | _ \<Rightarrow> Inl (CertRead i))"

definition server_registry ::
    "(string \<Rightarrow> string \<Rightarrow> string + leaf) \<Rightarrow> (string \<Rightarrow> string option) \<Rightarrow> server_config \<Rightarrow> start_error + registry" where
  "server_registry x509 readFile conf =
     (case load_certs x509 readFile 0 (sc_Certs conf) NewRegistry of
        Inl e \<Rightarrow> Inl e
      | Inr reg \<Rightarrow>
          if sc_Publish conf = [] then Inr reg
          else case buildServices (sc_Publish conf) of
                 Inl e \<Rightarrow> Inl (PublishParse e)
               | Inr svcs \<Rightarrow>
                   (case RegisterServer x509 svcs reg of
                      (_, Some e) \<Rightarrow> Inl (PublishRegister e)
                    | (reg1, None) \<Rightarrow> Inr reg1))"

definition clientMap :: "server_config \<Rightarrow> string \<rightharpoonup> string" where
  "clientMap conf = fold (\<lambda>c m. m(cred_UUID c \<mapsto> cred_Name c)) (sc_Clients conf) Map.empty"

definition tuic_password :: "client_cred \<Rightarrow> string" where
  "tuic_password c = (if cred_TuicPassword c = '''' then cred_UUID c else cred_TuicPassword c)"

definition server_tuic_params ::
    "(string \<Rightarrow> string list option) \<Rightarrow> server_config \<Rightarrow> start_error + tuic_server_params option" where
  "server_tuic_params certDNSNames conf =
     (if \<not> tuic_Enable (sc_Tuic conf) then Inr None
      else case FindCertForSAN certDNSNames (sc_Certs conf) (tuic_SNI (sc_Tuic conf)) of
             None \<Rightarrow> Inl (TuicNoCert (tuic_SNI (sc_Tuic conf)))
           | Some cf \<Rightarrow>
               (case SplitHostPort (tuic_Listen (sc_Tuic conf)) of
                  Inl e \<Rightarrow> Inl (TuicListen (BadAddress e))
                | Inr (host, portStr) \<Rightarrow>
                    (case ParseUint 16 portStr of
                       (_, Some _) \<Rightarrow> Inl (TuicListen (InvalidPort portStr))
                     | (prt, None) \<Rightarrow>
                         Inr (Some \<lparr>tsp_Listen = (if host = '''' then ''0.0.0.0'' else host), tsp_ListenPort = of_nat prt,
                                    tsp_SNI = tuic_SNI (sc_Tuic conf), tsp_CertPath = CertPath cf, tsp_KeyPath = KeyPath cf,
                                    tsp_CongestionControl = tuic_CongestionControl (sc_Tuic conf),
                                    tsp_Users = map (\<lambda>c. \<lparr>user_Name = cred_Name c, user_UUID = cred_UUID c, user_Password = tuic_password c\<rparr>)
                                                  (sc_Clients conf)\<rparr>))))"

definition server_carrier ::
    "(string \<Rightarrow> string list option) \<Rightarrow> server_config \<Rightarrow> start_error + sb_config" where
  "server_carrier certDNSNames conf =
     (case Singbox.splitHostPort (sc_RealityInboundAddr conf) of
        Inl e \<Rightarrow> Inl (RealityAddress e)
      | Inr (rHost, rPort) \<Rightarrow>
          (case server_tuic_params certDNSNames conf of
             Inl e \<Rightarrow> Inl e
           | Inr tuic \<Rightarrow>
               Inr (ServerConfigJSON
                 \<lparr>sp_ListenAddr = rHost, sp_ListenPort = rPort, sp_MimicHost = MimicHost conf, sp_MimicPort = MimicPort conf,
                  sp_PrivateKey = sc_RealityPrivateKey conf, sp_ShortID = sc_ShortID conf,
                  sp_Users = map (\<lambda>c. \<lparr>user_Name = cred_Name c, user_UUID = cred_UUID c, user_Password = ''''\<rparr>) (sc_Clients conf),
                  sp_LogLevel = sc_LogLevel conf, sp_Tuic = tuic\<rparr>)))"

definition parse_exempt :: "string \<Rightarrow> start_error + prefix" where
  "parse_exempt c = (case ParsePrefix c of None \<Rightarrow> Inl (ExemptInvalid c) | Some p \<Rightarrow> Inr p)"

definition setupBanner :: "(string \<Rightarrow> time option) \<Rightarrow> server_config \<Rightarrow> start_error + banner option" where
  "setupBanner dur conf =
     (let b = sc_Ban conf in
      if \<not> ban_Enable b then Inr None
      else case traverse_result parse_exempt (ban_Exempt b) of
             Inl e \<Rightarrow> Inl e
           | Inr ps \<Rightarrow>
               Inr (Some (Ban.New
                 \<lparr>Methods = ban_Methods b, Statuses = ban_Statuses b, PathPrefix = ban_Path b,
                  Window = (case dur (ban_Window b) of Some w \<Rightarrow> w | None \<Rightarrow> 0), Threshold = ban_Threshold b,
                  BanDuration = (case dur (ban_BanDuration b) of Some d \<Rightarrow> d | None \<Rightarrow> 0),
                  SubnetThreshold = (case ban_SubnetThreshold b of Some n \<Rightarrow> n | None \<Rightarrow> 2), Exempt = ps\<rparr>)))"

subsection \<open>Tokens and clients of a server\<close>

datatype token_for_error = NoServerAddr | ClientNotFound string | TuicDisabled | TuicListenInvalid string | DeriveKey

text \<open>The last client of that name; the empty string when there is none.\<close>

definition find_client :: "server_config \<Rightarrow> string \<Rightarrow> string \<times> string" where
  "find_client conf nm =
     fold (\<lambda>c acc. if cred_Name c = nm then (cred_UUID c, cred_TuicPassword c) else acc) (sc_Clients conf) ('''', '''')"

definition base_token :: "server_config \<Rightarrow> string \<Rightarrow> token" where
  "base_token conf uid =
     \<lparr>tok_ServerAddr = sc_ServerAddr conf, tok_ServerPort = PublicPort conf, tok_UUID = uid, tok_PublicKey = '''', tok_ShortID = '''',
      tok_SNI = '''', tok_ControlAddr = sc_ControlAddr conf, tok_Flow = '''', tok_TuicPort = 0, tok_TuicPassword = '''',
      tok_TuicSNI = '''', tok_TuicCongestion = '''', tok_TuicUDPRelayMode = '''', tok_Protocol = ''''\<rparr>"

definition token_value ::
    "(bytes \<Rightarrow> bytes option) \<Rightarrow> server_config \<Rightarrow> string \<Rightarrow> string \<Rightarrow> token_for_error + token" where
  "token_value derive conf nm carrier0 =
     (if sc_ServerAddr conf = '''' then Inl NoServerAddr
      else
        let carrier = (if carrier0 = '''' then ''reality'' else carrier0);
            (uid, tuicPw0) = find_client conf nm;
            tuicPw = (if tuicPw0 = '''' then uid else tuicPw0);
            tok = base_token conf uid
        in if uid = '''' then Inl (ClientNotFound nm)
           else if carrier = ''tuic'' then
             (if \<not> tuic_Enable (sc_Tuic conf) then Inl TuicDisabled
              else case SplitHostPort (tuic_Listen (sc_Tuic conf)) of
                     Inl _ \<Rightarrow> Inl (TuicListenInvalid (tuic_Listen (sc_Tuic conf)))
                   | Inr (_, portStr) \<Rightarrow>
                       (case ParseUint 16 portStr of
                          (_, Some _) \<Rightarrow> Inl (TuicListenInvalid portStr)
                        | (prt, None) \<Rightarrow>
                            Inr (tok\<lparr>tok_TuicPort := of_nat prt, tok_TuicPassword := tuicPw, tok_TuicSNI := tuic_SNI (sc_Tuic conf),
                                     tok_TuicCongestion := tuic_CongestionControl (sc_Tuic conf), tok_Protocol := ''tuic''\<rparr>)))
           else
             (case (if sc_RealityPublicKey conf = '''' then PublicKeyFromPrivate derive (sc_RealityPrivateKey conf)
                    else Some (sc_RealityPublicKey conf)) of
                None \<Rightarrow> Inl DeriveKey
              | Some pub \<Rightarrow>
                  Inr (tok\<lparr>tok_PublicKey := pub, tok_ShortID := sc_ShortID conf, tok_SNI := MimicHost conf, tok_Protocol := ''reality''\<rparr>)))"

definition TokenFor ::
    "(bytes \<Rightarrow> bytes option) \<Rightarrow> server_config \<Rightarrow> string \<Rightarrow> string \<Rightarrow> token_for_error + string" where
  "TokenFor derive conf nm carrier = map_sum id (Encode) (token_value derive conf nm carrier)"

text \<open>
  \<^verbatim>\<open>AddClient\<close> on the loaded configuration: the configuration that is saved and the token of
  the new client. \<open>random\<close> holds the random bytes of its identifier.
\<close>

datatype add_client_error = LoadFailed config_error | ClientExists string | NoToken token_for_error

definition AddClient ::
    "(string \<Rightarrow> time option) \<Rightarrow> (string \<Rightarrow> string list option) \<Rightarrow> (bytes \<Rightarrow> bytes option) \<Rightarrow> bytes \<Rightarrow> server_config \<Rightarrow> string \<Rightarrow>
     server_config option \<times> (add_client_error + token)" where
  "AddClient dur certDNSNames derive random c0 nm =
     (case LoadServer dur certDNSNames c0 of
        Inl e \<Rightarrow> (None, Inl (LoadFailed e))
      | Inr conf \<Rightarrow>
          if list_ex (\<lambda>c. cred_Name c = nm) (sc_Clients conf) then (None, Inl (ClientExists nm))
          else
            let cfg1 = conf\<lparr>sc_Clients := sc_Clients conf @ [\<lparr>cred_Name = nm, cred_UUID = GenerateUUID random, cred_TuicPassword = ''''\<rparr>]\<rparr>
            in (Some cfg1, map_sum NoToken id (token_value derive cfg1 nm ''reality'')))"

text \<open>
  \<^verbatim>\<open>InitServer\<close>: the configuration written and the first client's token. \<open>exists\<close> says whether
  the file is there; the key pair and the random bytes are arguments.
\<close>

datatype init_error = AlreadyExists | InitNoToken token_for_error

definition initial_config :: "string \<times> string \<Rightarrow> bytes \<Rightarrow> bytes \<Rightarrow> string \<Rightarrow> string \<Rightarrow> string \<Rightarrow> string \<Rightarrow> server_config" where
  "initial_config kp sid uid serverAddr mimic listen firstClient =
     \<lparr>sc_Listen = listen, sc_ServerAddr = serverAddr, sc_Mimic = mimic, sc_RealityPrivateKey = fst kp, sc_RealityPublicKey = snd kp,
      sc_ShortID = GenerateShortID sid, sc_ControlAddr = ''127.0.0.1:8443'', sc_RealityInboundAddr = ''127.0.0.1:8444'',
      sc_LogLevel = ''info'', sc_Clients = [\<lparr>cred_Name = firstClient, cred_UUID = GenerateUUID uid, cred_TuicPassword = ''''\<rparr>],
      sc_Certs = [], sc_Publish = [],
      sc_Tun = \<lparr>stun_Enable = False, stun_TapName = '''', stun_PoolV4 = '''', stun_Gateway = '''', stun_IPv6Prefix = '''',
                stun_MTU = 0, stun_EnableNAT = False, stun_WANInterface = '''', stun_EnablePassthrough = False\<rparr>,
      sc_Ban = \<lparr>ban_Enable = False, ban_Methods = [], ban_Statuses = [], ban_Path = '''', ban_Window = '''', ban_Threshold = 0,
                ban_BanDuration = '''', ban_SubnetThreshold = None, ban_Exempt = []\<rparr>,
      sc_Tuic = \<lparr>tuic_Enable = False, tuic_Listen = '''', tuic_SNI = '''', tuic_CongestionControl = ''''\<rparr>\<rparr>"

definition InitServer ::
    "(bytes \<Rightarrow> bytes option) \<Rightarrow> string \<times> string \<Rightarrow> bytes \<Rightarrow> bytes \<Rightarrow> bool \<Rightarrow> string \<Rightarrow> string \<Rightarrow> string \<Rightarrow> string \<Rightarrow> bool \<Rightarrow>
     server_config option \<times> (init_error + token)" where
  "InitServer derive kp sid uid exists serverAddr mimic listen firstClient force =
     (if \<not> force \<and> exists then (None, Inl AlreadyExists)
      else let conf = initial_config kp sid uid serverAddr mimic listen firstClient
           in (Some conf, map_sum InitNoToken id (token_value derive conf firstClient ''reality'')))"

subsection \<open>The clients\<close>

datatype run_client_error = BadToken token_error | NoControlAddr | BadSocksListen address_error

definition client_params_of :: "client_config \<Rightarrow> token \<Rightarrow> client_params" where
  "client_params_of conf tok =
     (let carrier = Carrier tok;
          cp = \<lparr>cp_SocksListen = cc_SocksListen conf, cp_ServerAddr = tok_ServerAddr tok, cp_ServerPort = tok_ServerPort tok,
                cp_UUID = tok_UUID tok, cp_SNI = tok_SNI tok, cp_PublicKey = '''', cp_ShortID = '''', cp_Fingerprint = '''',
                cp_LogLevel = cc_LogLevel conf, cp_Carrier = carrier, cp_TuicPort = 0, cp_TuicPassword = '''', cp_TuicSNI = '''',
                cp_TuicCongestion = '''', cp_TuicUDPRelayMode = '''', cp_TproxyPort = cc_TproxyPort conf\<rparr>
      in if carrier = ''tuic''
         then cp\<lparr>cp_TuicPort := tok_TuicPort tok, cp_TuicPassword := tok_TuicPassword tok, cp_TuicSNI := tok_TuicSNI tok,
                 cp_TuicCongestion := tok_TuicCongestion tok, cp_TuicUDPRelayMode := tok_TuicUDPRelayMode tok\<rparr>
         else cp\<lparr>cp_PublicKey := tok_PublicKey tok, cp_ShortID := tok_ShortID tok\<rparr>)"

definition client_carrier ::
    "client_config \<Rightarrow> run_client_error + (token \<times> sb_config)" where
  "client_carrier conf =
     (case Decode (cc_Token conf) of
        Inl e \<Rightarrow> Inl (BadToken e)
      | Inr tok \<Rightarrow>
          if tok_ControlAddr tok = '''' then Inl NoControlAddr
          else case ClientConfigJSON (client_params_of conf tok) of
                 Inl e \<Rightarrow> Inl (BadSocksListen e)
               | Inr c \<Rightarrow> Inr (tok, c))"

record mobile_options =
  mo_LogLevel :: string
  mo_MTU :: int
  mo_IPv6 :: bool
  mo_DNS :: string
  mo_BasePath :: string
  mo_WorkingPath :: string
  mo_TempPath :: string

definition empty_options :: mobile_options where
  "empty_options =
     \<lparr>mo_LogLevel = '''', mo_MTU = 0, mo_IPv6 = False, mo_DNS = '''', mo_BasePath = '''', mo_WorkingPath = '''', mo_TempPath = ''''\<rparr>"

definition tun_params_of :: "mobile_options \<Rightarrow> token \<Rightarrow> tun_client_params" where
  "tun_params_of opts tok =
     (let carrier = Carrier tok;
          tp = \<lparr>tp_ServerAddr = tok_ServerAddr tok, tp_ServerPort = tok_ServerPort tok, tp_UUID = tok_UUID tok, tp_SNI = tok_SNI tok,
                tp_PublicKey = '''', tp_ShortID = '''', tp_Fingerprint = '''', tp_LogLevel = mo_LogLevel opts, tp_Carrier = carrier,
                tp_TuicPort = 0, tp_TuicPassword = '''', tp_TuicSNI = '''', tp_TuicCongestion = '''', tp_TuicUDPRelayMode = '''',
                tp_MTU = of_int (mo_MTU opts), tp_IPv6 = mo_IPv6 opts, tp_DNSAddress = mo_DNS opts\<rparr>
      in if carrier = ''tuic''
         then tp\<lparr>tp_TuicPort := tok_TuicPort tok, tp_TuicPassword := tok_TuicPassword tok, tp_TuicSNI := tok_TuicSNI tok,
                 tp_TuicCongestion := tok_TuicCongestion tok, tp_TuicUDPRelayMode := tok_TuicUDPRelayMode tok\<rparr>
         else tp\<lparr>tp_PublicKey := tok_PublicKey tok, tp_ShortID := tok_ShortID tok\<rparr>)"

datatype build_error = TokenInvalid token_error | TunInvalid tun_client_error

definition BuildConfig ::
    "string \<Rightarrow> mobile_options option \<Rightarrow> build_error + tun_config" where
  "BuildConfig tokenStr opts0 =
     (let opts = (case opts0 of None \<Rightarrow> empty_options | Some o' \<Rightarrow> o') in
      case Decode tokenStr of
        Inl e \<Rightarrow> Inl (TokenInvalid e)
      | Inr tok \<Rightarrow> map_sum TunInvalid id (TunClientConfigJSON (tun_params_of opts tok)))"

text \<open>
  \<^verbatim>\<open>Start\<close>: what it asks of the library, in order, and its error. \<open>ok\<close> says which of these
  calls succeed; \<open>hasPlatform\<close> is \<^verbatim>\<open>platform != nil\<close>.
\<close>

datatype libbox_call = LibSetup string string string | LibNewService tun_config | LibStart | LibClose

datatype mobile_error = NoPlatform | SetupFailed | ConfigFailed build_error | CreateFailed | StartFailed

definition mobile_Start ::
    "(libbox_call \<Rightarrow> bool) \<Rightarrow> string \<Rightarrow> mobile_options option \<Rightarrow> bool \<Rightarrow> libbox_call list \<times> mobile_error option" where
  "mobile_Start ok tokenStr opts0 hasPlatform =
     (let opts = (case opts0 of None \<Rightarrow> empty_options | Some o' \<Rightarrow> o') in
      if \<not> hasPlatform then ([], Some NoPlatform)
      else
        let setup = (if mo_WorkingPath opts \<noteq> '''' \<or> mo_TempPath opts \<noteq> '''' \<or> mo_BasePath opts \<noteq> ''''
                     then [LibSetup (mo_BasePath opts) (mo_WorkingPath opts) (mo_TempPath opts)] else [])
        in if \<not> list_all ok setup then (setup, Some SetupFailed)
           else case BuildConfig tokenStr (Some opts) of
                  Inl e \<Rightarrow> (setup, Some (ConfigFailed e))
                | Inr c \<Rightarrow>
                    if \<not> ok (LibNewService c) then (setup @ [LibNewService c], Some CreateFailed)
                    else if \<not> ok LibStart then (setup @ [LibNewService c, LibStart, LibClose], Some StartFailed)
                    else (setup @ [LibNewService c, LibStart], None))"

text \<open>Closing: the calls made and the handle afterwards; a missing or already closed service is left alone.\<close>

definition mobile_Close :: "'s option \<Rightarrow> libbox_call list \<times> 's option" where
  "mobile_Close box = (case box of None \<Rightarrow> ([], None) | Some _ \<Rightarrow> ([LibClose], None))"

record token_info =
  ti_ServerAddr :: string
  ti_ServerPort :: int
  ti_SNI :: string
  ti_UUID :: string
  ti_Carrier :: string

definition ParseToken :: "string \<Rightarrow> token_error + token_info" where
  "ParseToken tokenStr =
     map_sum id (\<lambda>tok. \<lparr>ti_ServerAddr = tok_ServerAddr tok, ti_ServerPort = uint (tok_ServerPort tok), ti_SNI = tok_SNI tok,
        ti_UUID = tok_UUID tok, ti_Carrier = Carrier tok\<rparr>) (Decode tokenStr)"

definition TokenSummary :: "string \<Rightarrow> token_error + string" where
  "TokenSummary tokenStr =
     map_sum id (\<lambda>info. ti_ServerAddr info @ '':'' @ Itoa (nat (ti_ServerPort info)) @ '' (SNI '' @ ti_SNI info @ '')'')
       (ParseToken tokenStr)"

subsection \<open>Lemmas\<close>

lemma parseCert_owner:
  "parseCert x509 cp kp = Inr pc \<Longrightarrow> cert_clientID pc = '''' \<and> cert_session pc = None"
  by (auto simp: parseCert_def Let_def split: sum.splits)

lemma owners_add_cert:
  "owners (r\<lparr>certs := certs r @ [pc], version := n\<rparr>) = insert (cert_clientID pc, cert_session pc) (owners r)"
  by (simp add: owners_def all_services_def)

lemma AddServerCert_owners:
  "AddServerCert x509 cp kp r = (r1, None) \<Longrightarrow> owners r1 = insert ('''', None) (owners r)"
  using parseCert_owner[of x509 cp kp]
  by (auto simp: AddServerCert_def owners_add_cert simp del: owners_version split: sum.splits)

lemma load_certs_owners:
  "load_certs x509 rf i cfs r = Inr r1 \<Longrightarrow> \<forall>x \<in> owners r. snd x = None \<Longrightarrow> \<forall>x \<in> owners r1. snd x = None"
proof (induction cfs arbitrary: i r)
  case (Cons cf cfs)
  obtain cp kp where rd: "rf (CertPath cf) = Some cp" "rf (KeyPath cf) = Some kp"
    using Cons.prems(1) by (auto split: option.splits)
  obtain r2 e where a: "AddServerCert x509 cp kp r = (r2, e)" by fastforce
  then have "e = None" "load_certs x509 rf (Suc i) cfs r2 = Inr r1"
    using Cons.prems(1) rd by (auto split: option.splits)
  moreover from this a have "\<forall>x \<in> owners r2. snd x = None"
    using AddServerCert_owners[of x509 cp kp r r2] Cons.prems(2) by simp
  ultimately show ?case using Cons.IH[of "Suc i" r2] by simp
qed simp

lemma server_registry_owners:
  assumes "server_registry x509 rf conf = Inr r"
  shows "\<forall>x \<in> owners r. snd x = None"
proof -
  obtain r0 where r0: "load_certs x509 rf 0 (sc_Certs conf) NewRegistry = Inr r0"
    using assms by (auto simp: server_registry_def split: sum.splits)
  have o: "\<forall>x \<in> owners r0. snd x = None"
    by (rule load_certs_owners[OF r0]) (simp add: owners_def NewRegistry_def all_services_def)
  show ?thesis
  proof (cases "sc_Publish conf = []")
    case True
    then show ?thesis using assms r0 o by (simp add: server_registry_def)
  next
    case False
    then obtain svcs where "RegisterServer x509 svcs r0 = (r, None)"
      using assms r0 by (auto simp: server_registry_def split: sum.splits prod.splits option.splits)
    then show ?thesis
      using o Register_owners[of x509 ServerOwnerID None "[]" svcs r0] by (auto simp: RegisterServer_def)
  qed
qed

lemma clientMap_fold:
  "fold (\<lambda>c m. m(cred_UUID c \<mapsto> cred_Name c)) cs m u \<noteq> None \<longleftrightarrow> u \<in> cred_UUID ` set cs \<or> m u \<noteq> None"
  by (induction cs arbitrary: m) auto

lemma clientMap_iff: "clientMap conf u \<noteq> None \<longleftrightarrow> u \<in> cred_UUID ` set (sc_Clients conf)"
  unfolding clientMap_def by (simp only: clientMap_fold) simp

lemma find_client_fold:
  "fold (\<lambda>c acc. if cred_Name c = nm then (cred_UUID c, cred_TuicPassword c) else acc) cs acc = (u, p) \<Longrightarrow>
     (u, p) = acc \<or> (\<exists>c \<in> set cs. cred_Name c = nm \<and> cred_UUID c = u \<and> cred_TuicPassword c = p)"
  by (induction cs arbitrary: acc) (auto split: if_splits)

lemma find_client_Some:
  "find_client conf nm = (u, p) \<Longrightarrow> u \<noteq> '''' \<Longrightarrow>
     \<exists>c \<in> set (sc_Clients conf). cred_Name c = nm \<and> cred_UUID c = u \<and> cred_TuicPassword c = p"
  using find_client_fold[of nm "sc_Clients conf" "('''', '''')" u p] by (auto simp: find_client_def)

subsection \<open>Properties\<close>

text \<open>
  C6. From start-up on, only configured clients publish: when the server has built its registry
  from its configuration, then under every interleaving of control sessions each service in the
  registry is one of the server's own or was registered over a still open session by a client of
  the configuration.
\<close>

theorem only_configured_clients_publish:
  assumes "server_registry x509 rf conf = Inr r0" "(srv_step x509 (clientMap conf))\<^sup>*\<^sup>* (start r0) w"
    and "s \<in> set (all_services (w_reg w))"
  shows "Session s = None \<or>
    (\<exists>sid. Session s = Some sid \<and> w_open w sid \<noteq> None \<and> ClientID s \<in> cred_UUID ` set (sc_Clients conf))"
proof -
  have "world_inv (clientMap conf) w"
    by (rule reach_inv[OF assms(2) start_inv[OF server_registry_owners[OF assms(1)]]])
  moreover have "(ClientID s, Session s) \<in> owners (w_reg w)" using assms(3) by (simp add: owners_def)
  ultimately have "owner_ok (clientMap conf) (w_open w) (ClientID s, Session s)" unfolding world_inv_def by blast
  then show ?thesis unfolding owner_ok_def clientMap_iff by (cases "Session s") auto
qed

definition readFile_ex :: "string \<Rightarrow> string option" where
  "readFile_ex path = (if path = ''a.pem'' then Some ''*.example'' else if path = ''a.key'' then Some ''key'' else None)"

definition registry_ex :: registry where
  "registry_ex = projr (server_registry x509_ex readFile_ex server_config_ex)"

lemma registry_ex: "server_registry x509_ex readFile_ex server_config_ex = Inr registry_ex"
proof -
  have "case server_registry x509_ex readFile_ex server_config_ex of Inl _ \<Rightarrow> False | Inr _ \<Rightarrow> True" by code_simp
  then show ?thesis unfolding registry_ex_def by (cases "server_registry x509_ex readFile_ex server_config_ex") simp_all
qed

theorem only_configured_clients_publish_witness:
  "Session (hd (all_services registry_ex)) = None \<or>
    (\<exists>sid. Session (hd (all_services registry_ex)) = Some sid \<and> w_open (start registry_ex) sid \<noteq> None \<and>
       ClientID (hd (all_services registry_ex)) \<in> cred_UUID ` set (sc_Clients server_config_ex))"
proof -
  have "all_services registry_ex \<noteq> []" by code_simp
  then have "hd (all_services registry_ex) \<in> set (all_services (w_reg (start registry_ex)))" by (simp add: start_def)
  from only_configured_clients_publish[OF registry_ex rtranclp.rtrancl_refl this] show ?thesis .
qed

text \<open>
  What was validated is built: a publish list that passed validation gives one registration
  per entry, in order, with the entry's upstream and whitelist, and with the rewriting options kept for
  http only; on the server side none of them is a socks5 service.
\<close>

theorem validated_publish_builds:
  assumes "validatePublish pubs serverSide = None"
  shows "\<exists>svcs. buildServices pubs = Inr svcs \<and>
    list_all2 (\<lambda>p s. publish_Parse p = Inr (reg_Mode s, reg_Host s, reg_Path s) \<and> reg_Upstream s = pub_Upstream p \<and>
       reg_Allow s = pub_Allow p \<and> (reg_Mode s \<noteq> ''http'' \<longrightarrow> \<not> reg_StripPrefix s \<and> reg_AddPrefix s = '''') \<and>
       (serverSide \<longrightarrow> reg_Mode s \<noteq> ''socks5'')) pubs svcs"
proof -
  let ?P = "\<lambda>p s. publish_Parse p = Inr (reg_Mode s, reg_Host s, reg_Path s) \<and> reg_Upstream s = pub_Upstream p \<and>
       reg_Allow s = pub_Allow p \<and> (reg_Mode s \<noteq> ''http'' \<longrightarrow> \<not> reg_StripPrefix s \<and> reg_AddPrefix s = '''') \<and>
       (serverSide \<longrightarrow> reg_Mode s \<noteq> ''socks5'')"
  have one: "\<exists>s. service_of_publish p = Inr s \<and> ?P p s" if "p \<in> set pubs" for p
    using validate_publish_facts[OF assms[unfolded validatePublish_def] that]
    by (auto simp: service_of_publish_def Let_def split: if_splits)
  define svcs where "svcs = map (\<lambda>p. SOME s. service_of_publish p = Inr s \<and> ?P p s) pubs"
  have each: "service_of_publish p = Inr (SOME s. service_of_publish p = Inr s \<and> ?P p s) \<and>
      ?P p (SOME s. service_of_publish p = Inr s \<and> ?P p s)" if "p \<in> set pubs" for p
    using someI_ex[OF one[OF that]] by blast
  have "list_all2 (\<lambda>p s. service_of_publish p = Inr s) pubs svcs" "list_all2 ?P pubs svcs"
    unfolding svcs_def using each by (auto simp: list_all2_conv_all_nth)
  then show ?thesis unfolding buildServices_def traverse_result_Inr_iff by blast
qed

theorem validated_publish_builds_witness:
  "\<exists>svcs. buildServices [publish_of ''https://app.example/x''] = Inr svcs"
proof -
  have "validatePublish [publish_of ''https://app.example/x''] True = None" by code_simp
  from validated_publish_builds[OF this] show ?thesis by blast
qed

subsection \<open>A token opens the server it was issued for\<close>

text \<open>
  When a client's outbound is served by an inbound: same protocol, a user with the outbound's
  credentials, the same TLS server name and ALPN, the same congestion control, and for REALITY the
  short id.
\<close>

definition tls_matches :: "inbound_tls \<Rightarrow> outbound_tls \<Rightarrow> bool" where
  "tls_matches it ot =
     (intls_ServerName it = outtls_ServerName ot \<and> intls_ALPN it = outtls_ALPN ot \<and>
      (case (intls_Reality it, outtls_Reality ot) of
         (None, None) \<Rightarrow> True
       | (Some ri, Some ro) \<Rightarrow> outr_ShortID ro \<in> set (inr_ShortID ri)
       | _ \<Rightarrow> False))"

definition served_by :: "outbound \<Rightarrow> string \<Rightarrow> inbound \<Rightarrow> bool" where
  "served_by ob nm ib =
     (in_Type ib = out_Type ob \<and> in_CongestionControl ib = out_CongestionControl ob \<and>
      list_ex (\<lambda>u. vu_Name u = nm \<and> vu_UUID u = out_UUID ob \<and> vu_Password u = out_Password ob) (in_Users ib) \<and>
      (case (in_TLS ib, out_TLS ob) of (Some it, Some ot) \<Rightarrow> tls_matches it ot | _ \<Rightarrow> False))"

lemma server_carrier_Inr:
  assumes "server_carrier cn conf = Inr sconf"
  obtains h p t where "server_tuic_params cn conf = Inr t"
    "sconf = ServerConfigJSON
       \<lparr>sp_ListenAddr = h, sp_ListenPort = p, sp_MimicHost = MimicHost conf, sp_MimicPort = MimicPort conf,
        sp_PrivateKey = sc_RealityPrivateKey conf, sp_ShortID = sc_ShortID conf,
        sp_Users = map (\<lambda>c. \<lparr>user_Name = cred_Name c, user_UUID = cred_UUID c, user_Password = ''''\<rparr>) (sc_Clients conf),
        sp_LogLevel = sc_LogLevel conf, sp_Tuic = t\<rparr>"
  using assms that unfolding server_carrier_def by (auto split: sum.splits)

lemma ClientConfigJSON_Inr:
  assumes "ClientConfigJSON (client_params_of cc tok) = Inr c"
  shows "hd (cfg_Outbounds c) =
      (if Carrier tok = ''tuic''
       then carrier_outbound ''tuic'' (tok_ServerAddr tok) (tok_ServerPort tok) (tok_UUID tok) (tok_SNI tok) '''' '''' ''''
              (tok_TuicPort tok) (tok_TuicPassword tok) (tok_TuicSNI tok) (tok_TuicCongestion tok) (tok_TuicUDPRelayMode tok)
       else carrier_outbound ''reality'' (tok_ServerAddr tok) (tok_ServerPort tok) (tok_UUID tok) (tok_SNI tok) (tok_PublicKey tok)
              (tok_ShortID tok) '''' 0 '''' '''' '''' '''') \<and>
    cfg_RouteFinal c = out_Tag (hd (cfg_Outbounds c))"
  using assms unfolding ClientConfigJSON_def client_params_of_def Let_def
  by (auto simp: orDefault_def Carrier_def carrier_outbound_fields split: sum.splits if_splits)

text \<open>The two kinds of token.\<close>

lemma token_value_reality:
  assumes "token_value derive conf nm ca = Inr tok" "ca \<noteq> ''tuic''"
  obtains u w pub where "find_client conf nm = (u, w)" "u \<noteq> ''''" "sc_ServerAddr conf \<noteq> ''''"
    "(if sc_RealityPublicKey conf = '''' then PublicKeyFromPrivate derive (sc_RealityPrivateKey conf)
      else Some (sc_RealityPublicKey conf)) = Some pub"
    "tok = (base_token conf u)\<lparr>tok_PublicKey := pub, tok_ShortID := sc_ShortID conf, tok_SNI := MimicHost conf, tok_Protocol := ''reality''\<rparr>"
proof -
  obtain u w where f: "find_client conf nm = (u, w)" by fastforce
  have a: "sc_ServerAddr conf \<noteq> ''''" "u \<noteq> ''''"
    using assms f by (auto simp: token_value_def Let_def split: if_splits)
  have "(if ca = '''' then ''reality'' else ca) \<noteq> ''tuic''" using assms(2) by simp
  with assms(1) f a that show thesis
    unfolding token_value_def Let_def by (fastforce split: option.splits)
qed

lemma token_value_tuic:
  assumes "token_value derive conf nm ''tuic'' = Inr tok"
  obtains u w h ps n where "find_client conf nm = (u, w)" "u \<noteq> ''''" "sc_ServerAddr conf \<noteq> ''''" "tuic_Enable (sc_Tuic conf)"
    "SplitHostPort (tuic_Listen (sc_Tuic conf)) = Inr (h, ps)" "ParseUint 16 ps = (n, None)"
    "tok = (base_token conf u)\<lparr>tok_TuicPort := of_nat n, tok_TuicPassword := (if w = '''' then u else w),
       tok_TuicSNI := tuic_SNI (sc_Tuic conf), tok_TuicCongestion := tuic_CongestionControl (sc_Tuic conf), tok_Protocol := ''tuic''\<rparr>"
proof -
  obtain u w where f: "find_client conf nm = (u, w)" by fastforce
  have a: "sc_ServerAddr conf \<noteq> ''''" "u \<noteq> ''''" "tuic_Enable (sc_Tuic conf)"
    using assms f by (auto simp: token_value_def Let_def split: if_splits)
  with assms f that show thesis
    unfolding token_value_def Let_def by (auto split: sum.splits prod.splits option.splits)
qed

lemma reality_token_served:
  assumes tv: "token_value derive conf nm ca = Inr tok" and ca: "ca \<noteq> ''tuic''" and sc: "server_carrier cn conf = Inr sconf"
    and cl: "ClientConfigJSON (client_params_of cc tok) = Inr c"
  shows "\<exists>ib \<in> set (cfg_Inbounds sconf). served_by (hd (cfg_Outbounds c)) nm ib"
proof -
  from tv ca obtain u w pub where f: "find_client conf nm = (u, w)" "u \<noteq> ''''"
    and t: "tok = (base_token conf u)\<lparr>tok_PublicKey := pub, tok_ShortID := sc_ShortID conf, tok_SNI := MimicHost conf, tok_Protocol := ''reality''\<rparr>"
    by (rule token_value_reality)
  from find_client_Some[OF f] obtain k where k: "k \<in> set (sc_Clients conf)" "cred_Name k = nm" "cred_UUID k = u" by blast
  have ob: "hd (cfg_Outbounds c) = carrier_outbound ''reality'' (tok_ServerAddr tok) (tok_ServerPort tok) u (MimicHost conf) pub
      (sc_ShortID conf) '''' 0 '''' '''' '''' ''''"
    using ClientConfigJSON_Inr[OF cl] by (simp add: t Carrier_def base_token_def)
  from sc obtain h p tu where s: "sconf = ServerConfigJSON
       \<lparr>sp_ListenAddr = h, sp_ListenPort = p, sp_MimicHost = MimicHost conf, sp_MimicPort = MimicPort conf,
        sp_PrivateKey = sc_RealityPrivateKey conf, sp_ShortID = sc_ShortID conf,
        sp_Users = map (\<lambda>c. \<lparr>user_Name = cred_Name c, user_UUID = cred_UUID c, user_Password = ''''\<rparr>) (sc_Clients conf),
        sp_LogLevel = sc_LogLevel conf, sp_Tuic = tu\<rparr>"
    by (rule server_carrier_Inr)
  have "served_by (hd (cfg_Outbounds c)) nm (hd (cfg_Inbounds sconf))"
    unfolding ob s served_by_def using k
    by (auto simp: ServerConfigJSON_def vless_inbound_def carrier_outbound_def empty_outbound_def tls_matches_def list_ex_iff
      vless_user_of_def)
  moreover have "hd (cfg_Inbounds sconf) \<in> set (cfg_Inbounds sconf)" unfolding s by (simp add: ServerConfigJSON_def)
  ultimately show ?thesis by blast
qed

lemma tuic_token_served:
  assumes tv: "token_value derive conf nm ''tuic'' = Inr tok" and sc: "server_carrier cn conf = Inr sconf"
    and cl: "ClientConfigJSON (client_params_of cc tok) = Inr c"
  shows "\<exists>ib \<in> set (cfg_Inbounds sconf). served_by (hd (cfg_Outbounds c)) nm ib \<and>
    out_ServerPort (hd (cfg_Outbounds c)) = orDefaultPort (in_ListenPort ib) (PublicPort conf)"
proof -
  from tv obtain u w h ps n where f: "find_client conf nm = (u, w)" "u \<noteq> ''''" and en: "tuic_Enable (sc_Tuic conf)"
    and l: "SplitHostPort (tuic_Listen (sc_Tuic conf)) = Inr (h, ps)" "ParseUint 16 ps = (n, None)"
    and t: "tok = (base_token conf u)\<lparr>tok_TuicPort := of_nat n, tok_TuicPassword := (if w = '''' then u else w),
       tok_TuicSNI := tuic_SNI (sc_Tuic conf), tok_TuicCongestion := tuic_CongestionControl (sc_Tuic conf), tok_Protocol := ''tuic''\<rparr>"
    by (rule token_value_tuic)
  from find_client_Some[OF f] obtain k
    where k: "k \<in> set (sc_Clients conf)" "cred_Name k = nm" "cred_UUID k = u" "cred_TuicPassword k = w" by blast
  have ob: "hd (cfg_Outbounds c) = carrier_outbound ''tuic'' (sc_ServerAddr conf) (PublicPort conf) u '''' '''' '''' ''''
      (of_nat n) (tuic_password k) (tuic_SNI (sc_Tuic conf)) (tuic_CongestionControl (sc_Tuic conf)) ''''"
    using ClientConfigJSON_Inr[OF cl] k by (simp add: t Carrier_def base_token_def tuic_password_def)
  from sc obtain h2 p2 tu where tp: "server_tuic_params cn conf = Inr tu" and s: "sconf = ServerConfigJSON
       \<lparr>sp_ListenAddr = h2, sp_ListenPort = p2, sp_MimicHost = MimicHost conf, sp_MimicPort = MimicPort conf,
        sp_PrivateKey = sc_RealityPrivateKey conf, sp_ShortID = sc_ShortID conf,
        sp_Users = map (\<lambda>c. \<lparr>user_Name = cred_Name c, user_UUID = cred_UUID c, user_Password = ''''\<rparr>) (sc_Clients conf),
        sp_LogLevel = sc_LogLevel conf, sp_Tuic = tu\<rparr>"
    by (rule server_carrier_Inr)
  from tp en l obtain ts where ts: "tu = Some ts" "tsp_ListenPort ts = of_nat n" "tsp_SNI ts = tuic_SNI (sc_Tuic conf)"
      "tsp_CongestionControl ts = tuic_CongestionControl (sc_Tuic conf)"
      "tsp_Users ts = map (\<lambda>c. \<lparr>user_Name = cred_Name c, user_UUID = cred_UUID c, user_Password = tuic_password c\<rparr>) (sc_Clients conf)"
    by (auto simp: server_tuic_params_def split: option.splits)
  have "served_by (hd (cfg_Outbounds c)) nm (tuic_inbound ts)"
    unfolding ob served_by_def using k ts(2-)
    by (auto simp: tuic_inbound_def carrier_outbound_def empty_outbound_def tls_matches_def list_ex_iff vless_user_of_def orDefault_def)
  moreover have "out_ServerPort (hd (cfg_Outbounds c)) = orDefaultPort (in_ListenPort (tuic_inbound ts)) (PublicPort conf)"
    unfolding ob by (simp add: carrier_outbound_fields tuic_inbound_def ts)
  moreover have "tuic_inbound ts \<in> set (cfg_Inbounds sconf)" unfolding s by (simp add: ServerConfigJSON_def ts)
  ultimately show ?thesis by blast
qed

lemma token_value_base:
  assumes "token_value derive conf nm ca = Inr tok"
  shows "tok_ServerAddr tok = sc_ServerAddr conf \<and> tok_UUID tok = fst (find_client conf nm) \<and> tok_ServerPort tok = PublicPort conf \<and>
    tok_ControlAddr tok = sc_ControlAddr conf \<and> sc_ServerAddr conf \<noteq> '''' \<and> fst (find_client conf nm) \<noteq> ''''"
proof (cases "ca = ''tuic''")
  case True
  then show ?thesis using assms by (auto simp: base_token_def elim!: token_value_tuic)
next
  case False
  then show ?thesis using assms by (auto simp: base_token_def elim!: token_value_reality)
qed

text \<open>
  C5. A token opens the server it was issued for: with the token string the server prints for one of its clients in its
  configuration (its texts being well-formed UTF-8), the client decodes it and its carrier dials the server's public address, and the server's carrier has an inbound of
  the same protocol that knows a user of that name with the dialled credentials, under the same TLS name,
  ALPN, congestion control and REALITY short id; and the server's control plane knows the client identifier.
  The traffic of the client's SOCKS port takes that outbound.
\<close>

theorem token_connects:
  assumes "TokenFor derive conf nm ca = Inr (cc_Token cc)" "client_carrier cc = Inr (tok, c)"
    and "server_carrier cn conf = Inr sconf" "\<forall>t. token_value derive conf nm ca = Inr t \<longrightarrow> valid_token t = t"
  shows "(\<exists>ib \<in> set (cfg_Inbounds sconf). served_by (hd (cfg_Outbounds c)) nm ib) \<and>
    out_Server (hd (cfg_Outbounds c)) = sc_ServerAddr conf \<and> cfg_RouteFinal c = out_Tag (hd (cfg_Outbounds c)) \<and>
    clientMap conf (tok_UUID tok) \<noteq> None"
proof -
  obtain t where t: "token_value derive conf nm ca = Inr t" "cc_Token cc = Encode t"
    using assms(1) by (cases "token_value derive conf nm ca") (auto simp: TokenFor_def)
  then have v: "valid_token t = t" using assms(4) by blast
  have "Decode (cc_Token cc) = Inr tok" and cl: "ClientConfigJSON (client_params_of cc tok) = Inr c"
    using assms(2) by (auto simp: client_carrier_def split: sum.splits if_splits)
  then have "tok = t" using Decode_Encode[of t] t(2) v by (auto split: option.splits)
  with t have tv: "token_value derive conf nm ca = Inr tok" by simp
  have "\<exists>ib \<in> set (cfg_Inbounds sconf). served_by (hd (cfg_Outbounds c)) nm ib"
    using reality_token_served[OF tv _ assms(3) cl] tuic_token_served[OF _ assms(3) cl] tv by (cases "ca = ''tuic''") blast+
  moreover have "out_Server (hd (cfg_Outbounds c)) = sc_ServerAddr conf"
    using ClientConfigJSON_Inr[OF cl] token_value_base[OF tv] by (simp add: carrier_outbound_fields)
  moreover have "cfg_RouteFinal c = out_Tag (hd (cfg_Outbounds c))" using ClientConfigJSON_Inr[OF cl] by blast
  moreover obtain u w where "find_client conf nm = (u, w)" by fastforce
  with find_client_Some[OF this] token_value_base[OF tv] have "clientMap conf (tok_UUID tok) \<noteq> None"
    unfolding clientMap_iff by (auto intro: rev_image_eqI)
  ultimately show ?thesis by blast
qed

text \<open>
  A client that is added can come in: the configuration \<^verbatim>\<open>add-client\<close> writes is accepted
  unchanged when the server starts, the new identifier is mapped to the new name, every other
  identifier is mapped as before, and the token carries it. A name that is taken changes nothing.
\<close>

theorem added_client_is_admitted:
  assumes "LoadServer dur cn c0 = Inr conf"
  shows "if nm \<in> cred_Name ` set (sc_Clients conf)
    then AddClient dur cn derive random c0 nm = (None, Inl (ClientExists nm))
    else \<exists>c1 r. AddClient dur cn derive random c0 nm = (Some c1, r) \<and> LoadServer dur cn c1 = Inr c1 \<and>
      clientMap c1 = (clientMap conf)(GenerateUUID random \<mapsto> nm) \<and>
      (\<forall>tok. r = Inr tok \<longrightarrow> tok_UUID tok = GenerateUUID random)"
proof (cases "nm \<in> cred_Name ` set (sc_Clients conf)")
  case True
  then show ?thesis using assms by (auto simp: AddClient_def list_ex_iff)
next
  case False
  let ?c1 = "conf\<lparr>sc_Clients := sc_Clients conf @ [\<lparr>cred_Name = nm, cred_UUID = GenerateUUID random, cred_TuicPassword = ''''\<rparr>]\<rparr>"
  have a: "AddClient dur cn derive random c0 nm = (Some ?c1, map_sum NoToken id (token_value derive ?c1 nm ''reality''))"
    using assms False by (auto simp: AddClient_def list_ex_iff Let_def)
  have "LoadServer dur cn ?c1 = Inr ?c1" by (rule LoadServer_again[OF assms]) simp
  moreover have "clientMap ?c1 = (clientMap conf)(GenerateUUID random \<mapsto> nm)" by (simp add: clientMap_def)
  moreover have "tok_UUID tok = GenerateUUID random"
    if "map_sum NoToken id (token_value derive ?c1 nm ''reality'') = Inr tok" for tok
  proof -
    have "token_value derive ?c1 nm ''reality'' = Inr tok" using that by (cases "token_value derive ?c1 nm ''reality''") simp_all
    from token_value_base[OF this] show ?thesis by (simp add: find_client_def)
  qed
  ultimately show ?thesis using a False by auto
qed

theorem added_client_is_admitted_witness:
  "\<exists>c1 r. AddClient dur_ex names_ex (\<lambda>_. None) (replicate 16 7) server_config_ex ''phone'' = (Some c1, r) \<and>
     clientMap c1 (GenerateUUID (replicate 16 7)) = Some ''phone''"
proof -
  have "sc_Clients loaded_ex = sc_Clients server_config_ex" by code_simp
  then have "''phone'' \<notin> cred_Name ` set (sc_Clients loaded_ex)"
    by (simp add: server_config_ex_def)
  with added_client_is_admitted[OF LoadServer_ex, of "''phone''" "\<lambda>_. None" "replicate 16 7"] show ?thesis by auto
qed

lemma initial_config_loads:
  assumes "mimic \<noteq> ''''" "fst kp \<noteq> ''''" "length sid = 4"
  shows "LoadServer dur cn (initial_config kp sid uid addr mimic listen first) =
    Inr ((initial_config kp sid uid addr mimic listen first)\<lparr>sc_Listen := or_default '':443'' listen\<rparr>)"
proof -
  have "GenerateShortID sid \<noteq> ''''"
    using assms(3) by (cases sid) (simp_all add: GenerateShortID_def hex_bytes_def)
  moreover have "validatePublish [] True = None" by code_simp
  ultimately show ?thesis using assms(1,2)
    by (simp add: LoadServer_def server_defaults_def initial_config_def or_default_def Let_def when_enabled_def)
qed

lemma initial_config_token:
  assumes "snd kp \<noteq> ''''" "addr \<noteq> ''''" and conf_def: "conf = initial_config kp sid uid addr mimic listen first"
  shows "\<exists>tok. token_value derive conf first ''reality'' = Inr tok \<and> check_token tok = None \<and> tok_ServerAddr tok = addr \<and>
    clientMap conf (tok_UUID tok) = Some first"
proof -
  have f: "find_client conf first = (GenerateUUID uid, '''')" by (simp add: find_client_def conf_def initial_config_def)
  have u: "GenerateUUID uid \<noteq> ''''" by (simp add: GenerateUUID_def Let_def)
  have k: "sc_RealityPublicKey conf = snd kp" "sc_ServerAddr conf = addr" by (simp_all add: conf_def initial_config_def)
  have "clientMap conf (GenerateUUID uid) = Some first" by (simp add: clientMap_def conf_def initial_config_def)
  then show ?thesis using assms(1,2) f u k
    by (simp add: token_value_def Let_def check_token_def Carrier_def base_token_def)
qed

text \<open>
  A fresh server starts: the configuration \<^verbatim>\<open>init-server\<close> writes for a given mimic site passes
  validation with only the listening address defaulted, and with a server address the token of its
  first client is one the client decodes. An existing file is not overwritten without \<open>force\<close>.
\<close>

theorem initialised_server_loads:
  assumes "mimic \<noteq> ''''" "fst kp \<noteq> ''''" "snd kp \<noteq> ''''" "length sid = 4"
  shows "if exists \<and> \<not> force
    then InitServer derive kp sid uid exists serverAddr mimic listen first force = (None, Inl AlreadyExists)
    else \<exists>c r. InitServer derive kp sid uid exists serverAddr mimic listen first force = (Some c, r) \<and>
      LoadServer dur cn c = Inr (c\<lparr>sc_Listen := or_default '':443'' listen\<rparr>) \<and>
      (serverAddr \<noteq> '''' \<longrightarrow> (\<exists>tok. r = Inr tok \<and> check_token tok = None \<and> tok_ServerAddr tok = serverAddr \<and>
         clientMap c (tok_UUID tok) = Some first))"
proof (cases "exists \<and> \<not> force")
  case True
  then show ?thesis by (simp add: InitServer_def)
next
  case False
  let ?c = "initial_config kp sid uid serverAddr mimic listen first"
  let ?r = "map_sum InitNoToken id (token_value derive ?c first ''reality'')"
  have i: "InitServer derive kp sid uid exists serverAddr mimic listen first force = (Some ?c, ?r)"
    using False by (auto simp: InitServer_def Let_def)
  have t: "\<exists>tok. ?r = Inr tok \<and> check_token tok = None \<and> tok_ServerAddr tok = serverAddr \<and> clientMap ?c (tok_UUID tok) = Some first"
    if "serverAddr \<noteq> ''''"
    using initial_config_token[where derive = derive, OF assms(3) that refl] by force
  show ?thesis unfolding if_not_P[OF False]
    using i initial_config_loads[OF assms(1,2,4)] t by blast
qed

theorem initialised_server_loads_witness:
  "\<exists>c r. InitServer (\<lambda>_. None) (''k'', ''p'') (replicate 4 1) (replicate 16 1) True ''vps.example'' ''www.example.org'' '''' ''laptop'' True = (Some c, r) \<and>
     LoadServer dur_ex names_ex c = Inr (c\<lparr>sc_Listen := '':443''\<rparr>)"
  using initialised_server_loads[where mimic = "''www.example.org''" and kp = "(''k'', ''p'')" and sid = "replicate 4 1" and uid = "replicate 16 1"
      and exists = True and force = True and derive = "\<lambda>_. None" and serverAddr = "''vps.example''" and listen = "''''"
      and first = "''laptop''" and dur = dur_ex and cn = names_ex]
  by (auto simp: or_default_def)

subsection \<open>Start-up after validation\<close>

lemma LoadServer_ban:
  assumes "LoadServer dur cn c0 = Inr conf" "ban_Enable (sc_Ban conf)"
  shows "dur (ban_Window (sc_Ban conf)) \<noteq> None \<and> dur (ban_BanDuration (sc_Ban conf)) \<noteq> None \<and>
    (\<forall>c \<in> set (ban_Exempt (sc_Ban conf)). ParsePrefix c \<noteq> None) \<and> 0 < ban_Threshold (sc_Ban conf)"
  using assms(1)
proof (rule LoadServer_Inr)
  fix tn bn tc
  assume c: "conf = (server_defaults c0)\<lparr>sc_Tun := tn, sc_Ban := bn, sc_Tuic := tc\<rparr>"
    and b: "if ban_Enable (sc_Ban c0) then validateServerBan dur (sc_Ban c0) = Inr bn else bn = sc_Ban c0"
  have "ban_Enable (sc_Ban c0)" using assms(2) b c by (simp split: if_splits)
  with b have "validateServerBan dur (sc_Ban c0) = Inr bn" by simp
  moreover have "sc_Ban conf = bn" "0 < ban_Threshold (ban_defaults (sc_Ban c0))" using c by (simp_all add: ban_defaults_def)
  ultimately show ?thesis using validateServerBan_Inr by metis
qed

lemma traverse_exempt:
  "(\<forall>c \<in> set cs. ParsePrefix c \<noteq> None) \<Longrightarrow> traverse_result parse_exempt cs = Inr (map (\<lambda>c. the (ParsePrefix c)) cs)"
  by (induction cs) (auto simp: parse_exempt_def)

text \<open>
  The exemptions of the configuration hold: when a server configuration with the
  throttle enabled is accepted, the throttle is built from it, with a positive threshold, and an address
  in one of the listed networks is never blocked, whatever checks and failures happen at
  whatever times.
\<close>

theorem configured_exemption_holds:
  assumes "LoadServer dur cn c0 = Inr conf" "ban_Enable (sc_Ban conf)"
    and "n \<in> set (ban_Exempt (sc_Ban conf))" "ParsePrefix n = Some p" "Contains p (Unmap ip)"
  shows "\<exists>b. setupBanner dur conf = Inr (Some b) \<and> 0 < Threshold (cfg b) \<and>
    (\<forall>evs now. \<not> fst (Blocked now ip (fold ban_step evs b)))"
proof -
  note l = LoadServer_ban[OF assms(1,2)]
  obtain c where c: "setupBanner dur conf = Inr (Some (Ban.New c))" "Threshold c = ban_Threshold (sc_Ban conf)" "p \<in> set (Exempt c)"
    using assms(2,3,4) traverse_exempt[of "ban_Exempt (sc_Ban conf)"] l
    by (force simp: setupBanner_def Let_def)
  have "isExempt (fold ban_step evs (Ban.New c)) (Unmap ip)" for evs
    using c(3) assms(5) exempt.admits_iff by (auto simp: isExempt_def)
  then have "\<not> fst (Blocked now ip (fold ban_step evs (Ban.New c)))" for evs now by (simp add: Blocked_iff)
  moreover have "cfg (Ban.New c) = c" by (simp add: Ban.New_def)
  ultimately show ?thesis using c(1,2) l by auto
qed

theorem configured_exemption_holds_witness:
  "\<exists>b. setupBanner dur_ex loaded_ex = Inr (Some b) \<and>
     \<not> fst (Blocked 5 (Addr4 0x0a010203) b)"
proof -
  let ?c = "loaded_ex"
  have "ban_Enable (sc_Ban ?c)" "''10.0.0.0/8'' \<in> set (ban_Exempt (sc_Ban ?c))"
    "ParsePrefix ''10.0.0.0/8'' = Some (Prefix (Addr4 0x0a000000) 8)"
    "Contains (Prefix (Addr4 0x0a000000) 8) (Unmap (Addr4 0x0a010203))" by code_simp+
  from configured_exemption_holds[OF LoadServer_ex this] obtain b where
    "setupBanner dur_ex ?c = Inr (Some b)" "\<And>evs now. \<not> fst (Blocked now (Addr4 0x0a010203) (fold ban_step evs b))" by blast
  from this(1) this(2)[of 5 "[]"] show ?thesis by auto
qed

text \<open>
  A validated tunnel starts, with one exception: when an enabled tunnel section is accepted, the
  parameters are built with its MTU never zero and its routes those of the section, and the node
  has something to run, unless the section only has a TAP device that has no static address, no bridge, and DHCP
  switched off.
\<close>

theorem validated_tunnel_starts:
  assumes "validate_client_tun t0 = Inr t" "ctun_Enable t0"
  shows "\<exists>p. buildTunParams t = Some p \<and> MTU p \<noteq> 0 \<and>
    (startTun True True (\<lambda>_. True) p = Inl NothingUsable \<longleftrightarrow>
      (\<exists>tap. ctun_TAP t = Some tap \<and> ctun_UDP t = None \<and> ctap_IPv4CIDR tap = '''' \<and> ctap_Bridge tap = '''' \<and> ctap_DHCP tap = Some False)) \<and>
    (\<forall>tap. ctun_TAP t = Some tap \<longrightarrow> list_all2 (\<lambda>r q. ParseTunRoute r = Inr q) (ctap_Routes tap) (TAPRoutes p))"
proof -
  note v = validate_client_tun_Inr[OF assms(1)]
  have tap: "ctap_DHCP tap \<noteq> None \<and> (\<forall>r \<in> set (ctap_Routes tap). \<exists>x. ParseTunRoute r = Inr x)" if "ctun_TAP t = Some tap" for tap
    using v that validate_tap_Inr[of tap tap] by blast
  have e: "ctun_Enable t" using v assms(2) by simp
  have routes: "list_all2 (\<lambda>r q. ParseTunRoute r = Inr q) rs (map (\<lambda>r. case ParseTunRoute r of Inr (d, g) \<Rightarrow> (d, g) | Inl _ \<Rightarrow> ('''', '''')) rs)"
    if "\<forall>r \<in> set rs. \<exists>x. ParseTunRoute r = Inr x" for rs
    using that by (induction rs) (auto split: prod.split)
  show ?thesis
  proof (cases "ctun_TAP t")
    case None
    then obtain u where "ctun_UDP t = Some u" "cudp_Listen u \<noteq> ''''" using v by auto
    with None e v show ?thesis by (simp add: buildTunParams_def startTun_def tun_options_def Let_def)
  next
    case (Some a)
    from tap[OF Some] obtain d where d: "ctap_DHCP a = Some d" by auto
    show ?thesis
    proof (cases "ctun_UDP t")
      case None
      with Some d e v tap[OF Some] routes show ?thesis
        by (simp add: buildTunParams_def startTun_def tun_options_def tap_of_def Let_def)
    next
      fix u assume u: "ctun_UDP t = Some u"
      with v have "cudp_Listen u \<noteq> ''''" by blast
      with Some d e v u tap[OF Some] routes show ?thesis
        by (simp add: buildTunParams_def startTun_def tun_options_def tap_of_def Let_def)
    qed
  qed
qed

definition tun_ex :: client_tun where
  "tun_ex = \<lparr>ctun_Enable = True,
     ctun_TAP = Some \<lparr>ctap_Name = '''', ctap_Bridge = '''', ctap_BridgeMembers = [], ctap_IPv4CIDR = '''', ctap_IPv6 = '''',
       ctap_DHCP = Some False, ctap_Routes = [''10.0.0.0/8 via 10.42.0.1'']\<rparr>,
     ctun_UDP = None, ctun_AcceptDefaultRoute = False, ctun_MTU = 0\<rparr>"

theorem validated_tunnel_starts_witness:
  "\<exists>p. buildTunParams (projr (validate_client_tun tun_ex)) = Some p \<and> startTun True True (\<lambda>_. True) p = Inl NothingUsable"
proof -
  let ?t = "projr (validate_client_tun tun_ex)"
  have "case validate_client_tun tun_ex of Inl _ \<Rightarrow> False | Inr _ \<Rightarrow> True" by code_simp
  then have v: "validate_client_tun tun_ex = Inr ?t" by (cases "validate_client_tun tun_ex") simp_all
  have e: "ctun_Enable tun_ex" by code_simp
  have tap: "ctun_TAP ?t = Some (the (ctun_TAP ?t))" "ctap_DHCP (the (ctun_TAP ?t)) = Some False" "ctun_UDP ?t = None"
    "ctap_IPv4CIDR (the (ctun_TAP ?t)) = ''''" "ctap_Bridge (the (ctun_TAP ?t)) = ''''" by code_simp+
  from validated_tunnel_starts[OF v e] tap show ?thesis by blast
qed

definition client_config_ex :: client_config where
  "client_config_ex = \<lparr>cc_Token = '''', cc_SocksListen = ''127.0.0.1:1080'', cc_AdminListen = '''', cc_LogLevel = '''', cc_TproxyPort = 0,
     cc_Certs = [], cc_Publish = [], cc_Tun = tun_ex\<rparr>"

lemma projr_Inr: "(case x of Inl _ \<Rightarrow> False | Inr _ \<Rightarrow> True) \<Longrightarrow> x = Inr (projr x)"
  by (cases x) simp_all

lemma client_carrier_token:
  "Decode (cc_Token cc) = Inr tok \<Longrightarrow> tok_ControlAddr tok \<noteq> [] \<Longrightarrow> ClientConfigJSON (client_params_of cc tok) = Inr c \<Longrightarrow>
   client_carrier cc = Inr (tok, c)"
  by (simp add: client_carrier_def)

definition token_value_ex :: token where
  "token_value_ex = projr (token_value (\<lambda>_. None) loaded_ex ''laptop'' ''tuic'')"

definition token_client_ex :: client_config where
  "token_client_ex = client_config_ex\<lparr>cc_Token := Encode token_value_ex\<rparr>"

definition carrier_ex :: sb_config where
  "carrier_ex = projr (ClientConfigJSON (client_params_of client_config_ex token_value_ex))"

lemma token_value_ex: "token_value (\<lambda>_. None) loaded_ex ''laptop'' ''tuic'' = Inr token_value_ex" "valid_token token_value_ex = token_value_ex"
  "check_token token_value_ex = None" "tok_ControlAddr token_value_ex \<noteq> ''''"
proof -
  show "token_value (\<lambda>_. None) loaded_ex ''laptop'' ''tuic'' = Inr token_value_ex" unfolding token_value_ex_def by (rule projr_Inr) code_simp
  show "valid_token token_value_ex = token_value_ex" "check_token token_value_ex = None" "tok_ControlAddr token_value_ex \<noteq> ''''" by code_simp+
qed

lemma carrier_ex: "client_carrier token_client_ex = Inr (token_value_ex, carrier_ex)"
proof (rule client_carrier_token)
  show "Decode (cc_Token token_client_ex) = Inr token_value_ex" using token_value_ex by (simp add: token_client_ex_def Decode_Encode)
  have "ClientConfigJSON (client_params_of client_config_ex token_value_ex) = Inr carrier_ex" unfolding carrier_ex_def by (rule projr_Inr) code_simp
  moreover have "client_params_of token_client_ex token_value_ex = client_params_of client_config_ex token_value_ex"
    by (simp add: client_params_of_def token_client_ex_def)
  ultimately show "ClientConfigJSON (client_params_of token_client_ex token_value_ex) = Inr carrier_ex" by (simp only:)
qed (use token_value_ex in simp)

theorem token_connects_witness:
  "let ob = hd (cfg_Outbounds carrier_ex)
   in client_carrier token_client_ex = Inr (token_value_ex, carrier_ex) \<and>
      (\<exists>ib \<in> set (cfg_Inbounds (projr (server_carrier names_ex loaded_ex))). served_by ob ''laptop'' ib)"
proof -
  have s: "server_carrier names_ex loaded_ex = Inr (projr (server_carrier names_ex loaded_ex))" by (rule projr_Inr) code_simp
  have f: "TokenFor (\<lambda>_. None) loaded_ex ''laptop'' ''tuic'' = Inr (cc_Token token_client_ex)"
    by (simp add: TokenFor_def token_value_ex(1) token_client_ex_def)
  have w: "\<forall>t. token_value (\<lambda>_. None) loaded_ex ''laptop'' ''tuic'' = Inr t \<longrightarrow> valid_token t = t" by (simp add: token_value_ex)
  show ?thesis unfolding Let_def using token_connects[OF f carrier_ex s w] carrier_ex by blast
qed

text \<open>
  Every token the client decodes gives the phone a tunnel: building the tun configuration
  fails only where decoding the token fails, and what it builds sends its traffic to the token's server with the
  token's identifier.
\<close>

theorem decoded_token_builds_tunnel:
  "(\<forall>e. Decode s = Inl e \<longrightarrow> BuildConfig s opts = Inl (TokenInvalid e)) \<and>
   (\<forall>tok. Decode s = Inr tok \<longrightarrow>
      (\<exists>c. BuildConfig s opts = Inr c \<and> out_Server (hd (tcfg_Outbounds c)) = tok_ServerAddr tok \<and>
         out_UUID (hd (tcfg_Outbounds c)) = tok_UUID tok \<and> tcfg_RouteFinal c = out_Tag (hd (tcfg_Outbounds c))))"
proof (intro conjI allI impI)
  fix tok assume d: "Decode s = Inr tok"
  then have k: "check_token tok = None" unfolding Decode_def Let_def by (auto split: option.splits)
  let ?o = "case opts of None \<Rightarrow> empty_options | Some o' \<Rightarrow> o'"
  have "check_tun_client (tun_params_of ?o tok) = None"
    using k by (auto simp: check_token_def check_tun_client_def tun_params_of_def Let_def orDefault_def Carrier_def split: if_splits)
  then show "\<exists>c. BuildConfig s opts = Inr c \<and> out_Server (hd (tcfg_Outbounds c)) = tok_ServerAddr tok \<and>
      out_UUID (hd (tcfg_Outbounds c)) = tok_UUID tok \<and> tcfg_RouteFinal c = out_Tag (hd (tcfg_Outbounds c))"
    using d by (simp add: BuildConfig_def TunClientConfigJSON_def Let_def carrier_outbound_fields tun_params_of_def)
qed (simp add: BuildConfig_def)

theorem decoded_token_builds_tunnel_witness:
  "\<exists>c. BuildConfig (Encode token_ex) None = Inr c \<and>
     out_Server (hd (tcfg_Outbounds c)) = ''vps.example''"
proof -
  have "valid_token token_ex = token_ex" "check_token token_ex = None" by code_simp+
  then have "Decode (Encode token_ex) = Inr token_ex" by (simp add: Decode_Encode)
  moreover have "tok_ServerAddr token_ex = ''vps.example''" by (simp add: token_ex_def)
  ultimately show ?thesis
    using decoded_token_builds_tunnel[of "Encode token_ex" None] by auto
qed

end
