(* ===== verification/Netcfg.thy ===== *)
theory Netcfg
  imports Go_Netip
begin

text \<open>
  \<^verbatim>\<open>internal/l2/netcfg_linux.go\<close>, \<^verbatim>\<open>device_linux.go\<close>, \<^verbatim>\<open>sysconfig_linux.go\<close> and
  \<^verbatim>\<open>passthrough_linux.go\<close>: the calls into the operating system. The system is a parameter: it
  answers every call, and its answer may depend on all the calls before. A function of this file is a step on the record of
  calls made so far that returns whether its error is nil.
\<close>

subsection \<open>Calls and steps\<close>

datatype call = LinkByName string | LinkSetMTU string int | LinkSetUp string | ParseLinkAddr string
  | AddrReplace string string | LinkAdd string | LinkDel string | LinkSetMaster string string | LinkSetNoMaster string
  | RouteReplace string string string string | RouteGet string
  | OpenTun | NewIfreq string | TunSetIff string | CloseFd | CloseTap string
  | ListenUDP string | CloseUDP | CloseStream
  | WriteForward4 | WriteForward6 | IptablesNew | AppendMasquerade string string | DeleteMasquerade string string
  | StartDHCP string | CloseDHCP
  | ReplaceRoute6 prefix string | RestartNdppd

text \<open>\<open>Named\<close> answers with the name the kernel assigned, \<open>Current\<close> with a device, gateway and source.\<close>

datatype answer = Fails | Done | Named string | Current string string string

type_synonym trace = "(call \<times> answer) list"
type_synonym kernel = "trace \<Rightarrow> call \<Rightarrow> answer"
type_synonym 's step = "'s \<Rightarrow> bool \<times> 's"

definition ask :: "kernel \<Rightarrow> call \<Rightarrow> trace step" where
  "ask k c h = (k h c \<noteq> Fails, h @ [(c, k h c)])"

definition andThen :: "'s step \<Rightarrow> 's step \<Rightarrow> 's step" where
  "andThen f g s = (case f s of (True, s') \<Rightarrow> g s' | (False, s') \<Rightarrow> (False, s'))"

fun steps :: "'s step list \<Rightarrow> 's step" where
  "steps [] s = (True, s)"
| "steps (f # fs) s = andThen f (steps fs) s"

definition require :: "bool \<Rightarrow> 's step" where "require b s = (b, s)"

definition if_step :: "bool \<Rightarrow> 's step \<Rightarrow> 's step" where
  "if_step b f s = (if b then f s else (True, s))"

text \<open>A step whose error is ignored or only logged.\<close>

definition ignore :: "'s step \<Rightarrow> 's step" where "ignore f s = (True, snd (f s))"

subsection \<open>Links, addresses and routes\<close>

definition SetUp :: "kernel \<Rightarrow> string \<Rightarrow> int \<Rightarrow> trace step" where
  "SetUp k name mtu =
     steps [ask k (LinkByName name), if_step (mtu > 0) (ask k (LinkSetMTU name mtu)), ask k (LinkSetUp name)]"

definition AddAddr :: "kernel \<Rightarrow> string \<Rightarrow> string \<Rightarrow> trace step" where
  "AddAddr k name cidr = steps [ask k (LinkByName name), ask k (ParseLinkAddr cidr), ask k (AddrReplace name cidr)]"

text \<open>Whether the bridge was created, and whether the error is nil.\<close>

definition EnsureBridge :: "kernel \<Rightarrow> string \<Rightarrow> trace \<Rightarrow> (bool \<times> bool) \<times> trace" where
  "EnsureBridge k bridge h =
     (case ask k (LinkByName bridge) h of
        (True, h1) \<Rightarrow> ((False, True), h1)
      | (False, h1) \<Rightarrow> (case ask k (LinkAdd bridge) h1 of (ok, h2) \<Rightarrow> ((ok, ok), h2)))"

definition DelLink :: "kernel \<Rightarrow> string \<Rightarrow> trace step" where
  "DelLink k name h =
     (case ask k (LinkByName name) h of (False, h1) \<Rightarrow> (True, h1) | (True, h1) \<Rightarrow> ask k (LinkDel name) h1)"

definition AddToBridge :: "kernel \<Rightarrow> string \<Rightarrow> string \<Rightarrow> trace step" where
  "AddToBridge k name bridge =
     steps [ask k (LinkByName name), ask k (LinkByName bridge), ask k (LinkSetUp name), ask k (LinkSetMaster name bridge)]"

definition RemoveFromBridge :: "kernel \<Rightarrow> string \<Rightarrow> trace step" where
  "RemoveFromBridge k name h =
     (case ask k (LinkByName name) h of (False, h1) \<Rightarrow> (True, h1) | (True, h1) \<Rightarrow> ask k (LinkSetNoMaster name) h1)"

text \<open>A route has a device, a destination, a gateway and a source, the last two possibly empty.\<close>

definition AddRoute :: "kernel \<Rightarrow> string \<Rightarrow> string \<Rightarrow> trace step" where
  "AddRoute k name dstCIDR =
     steps [ask k (LinkByName name), require (ParseCIDR dstCIDR \<noteq> None), ask k (RouteReplace name dstCIDR '''' '''')]"

definition AddRouteVia :: "kernel \<Rightarrow> string \<Rightarrow> string \<Rightarrow> string \<Rightarrow> trace step" where
  "AddRouteVia k name dstCIDR gw =
     steps [ask k (LinkByName name), require (ParseCIDR dstCIDR \<noteq> None), require (ParseIP gw \<noteq> None),
            ask k (RouteReplace name dstCIDR gw '''')]"

definition AddDefaultRoute :: "kernel \<Rightarrow> string \<Rightarrow> string \<Rightarrow> trace step" where
  "AddDefaultRoute k name gw =
     steps [ask k (LinkByName name), require (ParseIP gw \<noteq> None), ask k (RouteReplace name ''0.0.0.0/0'' gw '''')]"

definition AddHostRouteViaCurrentGateway :: "kernel \<Rightarrow> string \<Rightarrow> trace step" where
  "AddHostRouteViaCurrentGateway k ip h =
     (case ParseIP ip of
        None \<Rightarrow> (False, h)
      | Some dest \<Rightarrow>
          let h1 = h @ [(RouteGet ip, k h (RouteGet ip))];
              pfx = ip @ (if To4 dest = None then ''/128'' else ''/32'')
          in case k h (RouteGet ip) of
               Current dev gw src \<Rightarrow> ask k (RouteReplace dev pfx gw src) h1
             | _ \<Rightarrow> (False, h1))"

subsection \<open>The TAP device\<close>

text \<open>The assigned name on success. A failure after opening the control file closes it.\<close>

definition Open :: "kernel \<Rightarrow> string \<Rightarrow> trace \<Rightarrow> string option \<times> trace" where
  "Open k name h =
     (case ask k OpenTun h of
        (False, h1) \<Rightarrow> (None, h1)
      | (True, h1) \<Rightarrow>
          (case ask k (NewIfreq name) h1 of
             (False, h2) \<Rightarrow> (None, snd (ask k CloseFd h2))
           | (True, h2) \<Rightarrow>
               (case ask k (TunSetIff name) h2 of
                  (False, h3) \<Rightarrow> (None, snd (ask k CloseFd h3))
                | (True, h3) \<Rightarrow>
                    (Some (case k h2 (TunSetIff name) of Named d \<Rightarrow> d | _ \<Rightarrow> name), h3))))"

subsection \<open>Forwarding and address translation\<close>

definition EnableIPForward :: "kernel \<Rightarrow> trace step" where
  "EnableIPForward k = steps [ask k WriteForward4, ignore (ask k WriteForward6)]"

definition EnsureMasquerade :: "kernel \<Rightarrow> string \<Rightarrow> string \<Rightarrow> trace step" where
  "EnsureMasquerade k pool wan = steps [ask k IptablesNew, ask k (AppendMasquerade pool wan)]"

subsection \<open>IPv6 passthrough\<close>

text \<open>\<open>None\<close> for the zero time of \<^verbatim>\<open>lastRestart\<close>; times in nanoseconds.\<close>

record passthrough =
  pt_dev :: string
  pt_seen :: "prefix list"
  pt_lastRestart :: "int option"

definition NewPassthrough :: "string \<Rightarrow> passthrough" where
  "NewPassthrough dev = \<lparr>pt_dev = dev, pt_seen = [], pt_lastRestart = None\<rparr>"

definition restartNdppd :: "kernel \<Rightarrow> int \<Rightarrow> passthrough \<times> trace \<Rightarrow> passthrough \<times> trace" where
  "restartNdppd k now = (\<lambda>(p, h).
     if (case pt_lastRestart p of None \<Rightarrow> False | Some t \<Rightarrow> now - t < 5000000000) then (p, h)
     else (p\<lparr>pt_lastRestart := Some now\<rparr>, snd (ask k RestartNdppd h)))"

text \<open>\<^verbatim>\<open>netip.AddrFromSlice\<close> with \<^verbatim>\<open>Is6\<close>: sixteen bytes.\<close>

definition addr6_from_slice :: "bytes \<Rightarrow> addr option" where
  "addr6_from_slice b = (if length b = 16 then Some (Addr6 (word_of_bytes b) []) else None)"

definition OnIPv6 :: "kernel \<Rightarrow> int \<Rightarrow> bytes \<Rightarrow> passthrough \<times> trace \<Rightarrow> passthrough \<times> trace" where
  "OnIPv6 k now src = (\<lambda>(p, h).
     case addr6_from_slice src of
       None \<Rightarrow> (p, h)
     | Some a \<Rightarrow>
         let pfx = addr_prefix 80 a in
         if pfx \<in> set (pt_seen p) then (p, h)
         else case ask k (ReplaceRoute6 pfx (pt_dev p)) h of
                (False, h1) \<Rightarrow> (p, h1)
              | (True, h1) \<Rightarrow> restartNdppd k now (p\<lparr>pt_seen := pfx # pt_seen p\<rparr>, h1))"

subsection \<open>Lemmas\<close>

named_theorems step_rules

lemma ask_fst [simp]: "fst (ask k c h) \<longleftrightarrow> k h c \<noteq> Fails"
  and ask_snd [simp]: "snd (ask k c h) = h @ [(c, k h c)]"
  by (simp_all add: ask_def)

text \<open>What a step keeps, whatever its outcome.\<close>

definition keeps :: "('s \<Rightarrow> bool) \<Rightarrow> 's step \<Rightarrow> bool" where
  "keeps I f = (\<forall>s. I s \<longrightarrow> I (snd (f s)))"

lemma keepsI: "(\<And>s. I s \<Longrightarrow> I (snd (f s))) \<Longrightarrow> keeps I f"
  by (simp add: keeps_def)

lemma keepsD: "keeps I f \<Longrightarrow> I s \<Longrightarrow> I (snd (f s))"
  by (simp add: keeps_def)

lemma keeps_andThen [step_rules]: "keeps I f \<Longrightarrow> keeps I g \<Longrightarrow> keeps I (andThen f g)"
  by (auto simp: keeps_def andThen_def split: prod.split bool.split)

lemma keeps_steps [step_rules]: "list_all (keeps I) fs \<Longrightarrow> keeps I (steps fs)"
proof (induction fs)
  case (Cons f fs)
  have "steps (f # fs) = andThen f (steps fs)" by (rule ext) simp
  with Cons show ?case by (simp add: keeps_andThen)
qed (simp add: keeps_def)

lemma keeps_if [step_rules]: "keeps I f \<Longrightarrow> keeps I (if_step b f)"
  and keeps_ignore [step_rules]: "keeps I f \<Longrightarrow> keeps I (ignore f)"
  and keeps_require [step_rules]: "keeps I (require b)"
  by (simp_all add: keeps_def if_step_def ignore_def require_def)

text \<open>Steps that only add calls with a property \<open>P\<close> to the record \<open>h0\<close>.\<close>

definition adds :: "(call \<Rightarrow> bool) \<Rightarrow> trace \<Rightarrow> trace \<Rightarrow> bool" where
  "adds P h0 h = (\<exists>t. h = h0 @ t \<and> (\<forall>x \<in> set t. P (fst x)))"

lemma adds_refl [simp]: "adds P h h"
  by (simp add: adds_def)

lemma adds_snoc: "adds P h0 h \<Longrightarrow> P c \<Longrightarrow> adds P h0 (h @ [(c, a)])"
  unfolding adds_def by fastforce

lemma keeps_ask_adds [step_rules]: "P c \<Longrightarrow> keeps (adds P h0) (ask k c)"
  by (auto intro!: keepsI adds_snoc)

lemma keeps_pin_adds [step_rules]:
  assumes "P (RouteGet ip)" "\<And>dev pfx gw src. P (RouteReplace dev pfx gw src)"
  shows "keeps (adds P h0) (AddHostRouteViaCurrentGateway k ip)"
proof (rule keepsI)
  fix h assume "adds P h0 h"
  then have "adds P h0 (h @ [(RouteGet ip, a)])" for a using assms(1) by (rule adds_snoc)
  moreover from adds_snoc[OF this assms(2)]
  have "adds P h0 ((h @ [(RouteGet ip, a)]) @ [(RouteReplace dev pfx gw src, a')])" for a dev pfx gw src a' .
  ultimately show "adds P h0 (snd (AddHostRouteViaCurrentGateway k ip h))"
    using \<open>adds P h0 h\<close> by (auto simp: AddHostRouteViaCurrentGateway_def Let_def ask_def split: option.split answer.split)
qed

subsection \<open>Properties of the passthrough\<close>

definition pt_run :: "kernel \<Rightarrow> string \<Rightarrow> (int \<times> bytes) list \<Rightarrow> passthrough \<times> trace" where
  "pt_run k dev evs = fold (\<lambda>(now, src). OnIPv6 k now src) evs (NewPassthrough dev, [])"

definition routes_made :: "trace \<Rightarrow> call list" where
  "routes_made h = map fst (filter (\<lambda>(c, a). c \<noteq> RestartNdppd \<and> a \<noteq> Fails) h)"

definition restarts :: "trace \<Rightarrow> nat" where
  "restarts h = length (filter (\<lambda>(c, a). c = RestartNdppd) h)"

lemma OnIPv6_inv:
  assumes "distinct (pt_seen p)" "pt_dev p = dev" "routes_made h = map (\<lambda>x. ReplaceRoute6 x dev) (rev (pt_seen p))"
    and "OnIPv6 k now src (p, h) = (p', h')"
  shows "distinct (pt_seen p') \<and> pt_dev p' = dev \<and> routes_made h' = map (\<lambda>x. ReplaceRoute6 x dev) (rev (pt_seen p'))"
  using assms
  by (auto simp: OnIPv6_def restartNdppd_def Let_def ask_def routes_made_def split: option.splits if_splits bool.splits)

text \<open>The restarts so far fit between \<open>t0\<close> and the last one, which is not after \<open>tend\<close>.\<close>

definition paced :: "int \<Rightarrow> int \<Rightarrow> passthrough \<times> trace \<Rightarrow> bool" where
  "paced t0 tend = (\<lambda>(p, h).
     case pt_lastRestart p of
       None \<Rightarrow> restarts h = 0
     | Some t \<Rightarrow> t0 + 5000000000 * (int (restarts h) - 1) \<le> t \<and> t \<le> tend)"

lemma OnIPv6_paced:
  assumes "t0 \<le> now" "now \<le> tend" "paced t0 tend s"
  shows "paced t0 tend (OnIPv6 k now src s)"
  using assms
  by (auto simp: paced_def OnIPv6_def restartNdppd_def Let_def ask_def restarts_def split: option.splits if_splits bool.splits prod.splits)

text \<open>
  Every /80 gets its route once: whatever sources appear and whichever commands fail, the
  routes successfully installed are exactly the recorded prefixes, each installed once, in the order of their
  first success.
\<close>

theorem passthrough_routes_once:
  "distinct (pt_seen (fst (pt_run k dev evs))) \<and>
   routes_made (snd (pt_run k dev evs)) = map (\<lambda>x. ReplaceRoute6 x dev) (rev (pt_seen (fst (pt_run k dev evs))))"
proof -
  have "distinct (pt_seen (fst s)) \<and> pt_dev (fst s) = dev \<and> routes_made (snd s) = map (\<lambda>x. ReplaceRoute6 x dev) (rev (pt_seen (fst s))) \<Longrightarrow>
    (let s' = fold (\<lambda>(now, src). OnIPv6 k now src) evs s in
      distinct (pt_seen (fst s')) \<and> pt_dev (fst s') = dev \<and> routes_made (snd s') = map (\<lambda>x. ReplaceRoute6 x dev) (rev (pt_seen (fst s'))))" for s
  proof (induction evs arbitrary: s)
    case (Cons ev evs)
    obtain now src where ev: "ev = (now, src)" by fastforce
    obtain p h where s: "s = (p, h)" by fastforce
    obtain p' h' where o: "OnIPv6 k now src (p, h) = (p', h')" by fastforce
    have "distinct (pt_seen p') \<and> pt_dev p' = dev \<and> routes_made h' = map (\<lambda>x. ReplaceRoute6 x dev) (rev (pt_seen p'))"
      using Cons.prems s by (intro OnIPv6_inv[OF _ _ _ o]) simp_all
    with Cons.IH[of "(p', h')"] show ?case by (simp add: ev s o)
  qed (simp add: Let_def)
  from this[of "(NewPassthrough dev, [])"] show ?thesis
    by (simp add: pt_run_def NewPassthrough_def routes_made_def Let_def)
qed

text \<open>
  Restarts of the neighbour proxy are spaced: between times \<open>t0\<close> and \<open>tend\<close> there is at most
  one restart, and one more for each five seconds.
\<close>

theorem ndppd_restarts_spaced:
  assumes "\<forall>ev \<in> set evs. t0 \<le> fst ev \<and> fst ev \<le> tend" "t0 \<le> tend"
  shows "5000000000 * (int (restarts (snd (pt_run k dev evs))) - 1) \<le> tend - t0"
proof -
  have "paced t0 tend s \<Longrightarrow> paced t0 tend (fold (\<lambda>(now, src). OnIPv6 k now src) evs s)" for s
    using assms(1)
  proof (induction evs arbitrary: s)
    case (Cons ev evs)
    have "paced t0 tend (OnIPv6 k (fst ev) (snd ev) s)" using Cons.prems by (intro OnIPv6_paced) simp_all
    with Cons show ?case by (simp add: case_prod_unfold)
  qed simp
  moreover have "paced t0 tend (NewPassthrough dev, [])" by (simp add: paced_def NewPassthrough_def restarts_def)
  ultimately have "paced t0 tend (pt_run k dev evs)" unfolding pt_run_def by blast
  then show ?thesis using assms(2) by (auto simp: paced_def split: option.splits prod.splits)
qed

theorem ndppd_restarts_spaced_witness:
  "int (restarts (snd (pt_run (\<lambda>_ _. Done) ''tap0'' [(0, replicate 16 32), (1, replicate 16 33), (6000000000, replicate 16 34)]))) \<le> 2"
  using ndppd_restarts_spaced[of "[(0, replicate 16 32), (1, replicate 16 33), (6000000000, replicate 16 34)]" 0 6000000000
    "\<lambda>_ _. Done" "''tap0''"] by simp

end
