(* ===== verification/Nodes.thy ===== *)
theory Nodes
  imports App Netcfg
begin

text \<open>
  \<^verbatim>\<open>internal/l2/clientnode.go\<close> and \<^verbatim>\<open>setupTunHub\<close> of \<^verbatim>\<open>internal/app/server.go\<close>: bringing up the
  two ends of the L2 tunnel, with the calls into the operating system in the order they are made, and taking them down.
  The packet pumps are in \<^verbatim>\<open>L2Switch\<close>; here are the resources.
\<close>

subsection \<open>The client's node\<close>

record full_tap = client_tap +
  tap_DefaultRoute :: bool
  tap_Gateway :: string
  tap_SubnetRoute :: string
  tap_ServerRealIP :: string

record client_node =
  node_dev :: "string option"
  node_udp :: bool
  createdBridge :: string
  bridgeMembers :: "string list"
  node_closed :: bool

type_synonym node_state = "client_node \<times> trace"

definition new_node :: client_node where
  "new_node = \<lparr>node_dev = None, node_udp = False, createdBridge = '''', bridgeMembers = [], node_closed = False\<rparr>"

definition on_trace :: "trace step \<Rightarrow> node_state step" where
  "on_trace f = (\<lambda>(n, h). case f h of (ok, h1) \<Rightarrow> (ok, (n, h1)))"

definition open_tap :: "kernel \<Rightarrow> string \<Rightarrow> node_state step" where
  "open_tap k nm = (\<lambda>(n, h).
     case Open k nm h of
       (None, h1) \<Rightarrow> (False, (n, h1))
     | (Some d, h1) \<Rightarrow> (True, (n\<lparr>node_dev := Some d\<rparr>, h1)))"

definition ensure_bridge :: "kernel \<Rightarrow> string \<Rightarrow> node_state step" where
  "ensure_bridge k br = (\<lambda>(n, h).
     case EnsureBridge k br h of
       ((created, ok), h1) \<Rightarrow> (ok, (if created then n\<lparr>createdBridge := br\<rparr> else n, h1)))"

definition enslave :: "kernel \<Rightarrow> string \<Rightarrow> string \<Rightarrow> node_state step" where
  "enslave k br m = (\<lambda>(n, h).
     case AddToBridge k m br h of
       (True, h1) \<Rightarrow> (True, (n\<lparr>bridgeMembers := bridgeMembers n @ [m]\<rparr>, h1))
     | (False, h1) \<Rightarrow> (False, (n, h1)))"

definition bridge_steps :: "kernel \<Rightarrow> full_tap \<Rightarrow> string \<Rightarrow> int \<Rightarrow> node_state step list" where
  "bridge_steps k t nm mtu =
     (if tap_Bridge t = '''' then []
      else [ensure_bridge k (tap_Bridge t), on_trace (AddToBridge k nm (tap_Bridge t)), on_trace (SetUp k (tap_Bridge t) mtu)] @
           map (enslave k (tap_Bridge t)) (tap_BridgeMembers t))"

definition address_steps :: "kernel \<Rightarrow> full_tap \<Rightarrow> string \<Rightarrow> trace step list" where
  "address_steps k t ipDev =
     [if_step (tap_IPv4CIDR t \<noteq> '''') (Netcfg.AddAddr k ipDev (tap_IPv4CIDR t)),
      if_step (tap_IPv6 t \<noteq> '''') (Netcfg.AddAddr k ipDev (tap_IPv6 t)),
      if_step (tap_SubnetRoute t \<noteq> '''') (Netcfg.AddRoute k ipDev (tap_SubnetRoute t)),
      if_step (tap_DefaultRoute t \<and> tap_Gateway t \<noteq> '''')
        (steps [if_step (tap_ServerRealIP t \<noteq> '''') (ignore (AddHostRouteViaCurrentGateway k (tap_ServerRealIP t))),
                Netcfg.AddDefaultRoute k ipDev (tap_Gateway t)])] @
     map (\<lambda>(dst, gw). if gw \<noteq> '''' then AddRouteVia k ipDev dst gw else Netcfg.AddRoute k ipDev dst) (tap_Routes t)"

definition startTAP :: "kernel \<Rightarrow> full_tap \<Rightarrow> int \<Rightarrow> node_state step" where
  "startTAP k t mtu s =
     (case open_tap k (tap_Name t) s of
        (False, s1) \<Rightarrow> (False, s1)
      | (True, s1) \<Rightarrow>
          let nm = the (node_dev (fst s1));
              ipDev = (if tap_Bridge t \<noteq> '''' then tap_Bridge t else nm)
          in steps ([on_trace (SetUp k nm mtu)] @ bridge_steps k t nm mtu @ map on_trace (address_steps k t ipDev)) s1)"

text \<open>\<open>closeOnce\<close>: only the first call does anything; errors are ignored.\<close>

definition close_list :: "kernel \<Rightarrow> client_node \<Rightarrow> trace step list" where
  "close_list k n =
     (if node_udp n then [ask k CloseUDP] else []) @
     (case node_dev n of Some d \<Rightarrow> [ask k (CloseTap d)] | None \<Rightarrow> []) @
     map (RemoveFromBridge k) (bridgeMembers n) @
     (if createdBridge n \<noteq> '''' then [DelLink k (createdBridge n)] else []) @
     [ask k CloseStream]"

definition close_calls :: "kernel \<Rightarrow> client_node \<Rightarrow> trace step" where
  "close_calls k n = steps (map ignore (close_list k n))"

definition node_Close :: "kernel \<Rightarrow> node_state \<Rightarrow> node_state" where
  "node_Close k = (\<lambda>(n, h). if node_closed n then (n, h) else (n\<lparr>node_closed := True\<rparr>, snd (close_calls k n h)))"

definition StartClient :: "kernel \<Rightarrow> full_tap option \<Rightarrow> int \<Rightarrow> string \<Rightarrow> node_state step" where
  "StartClient k tap mtu udpListen s0 =
     (case (case tap of None \<Rightarrow> (True, s0) | Some t \<Rightarrow> startTAP k t mtu s0) of
        (False, s1) \<Rightarrow> (False, node_Close k s1)
      | (True, s1) \<Rightarrow>
          if udpListen = '''' then (True, s1)
          else (case ask k (ListenUDP udpListen) (snd s1) of
                  (False, h2) \<Rightarrow> (False, node_Close k (fst s1, h2))
                | (True, h2) \<Rightarrow> (True, ((fst s1)\<lparr>node_udp := True\<rparr>, h2))))"

subsection \<open>Lemmas\<close>

text \<open>What a record of calls acquired.\<close>

definition enslaved :: "trace \<Rightarrow> string set" where
  "enslaved h = {m. \<exists>b a. (LinkSetMaster m b, a) \<in> set h \<and> a \<noteq> Fails}"

definition made_bridges :: "trace \<Rightarrow> string set" where
  "made_bridges h = {b. \<exists>a. (LinkAdd b, a) \<in> set h \<and> a \<noteq> Fails}"

definition made_taps :: "trace \<Rightarrow> string set" where
  "made_taps h = {d. \<exists>nm a. (TunSetIff nm, a) \<in> set h \<and> a \<noteq> Fails \<and> d = (case a of Named x \<Rightarrow> x | _ \<Rightarrow> nm)}"

fun releasing :: "call \<Rightarrow> bool" where
  "releasing (LinkDel _) = True"
| "releasing (LinkSetNoMaster _) = True"
| "releasing (CloseTap _) = True"
| "releasing CloseUDP = True"
| "releasing CloseStream = True"
| "releasing _ = False"

fun neutral :: "call \<Rightarrow> bool" where
  "neutral (LinkSetMaster _ _) = False"
| "neutral (LinkAdd _) = False"
| "neutral (TunSetIff _) = False"
| "neutral c = (\<not> releasing c)"

text \<open>The fields of a node account for the calls made, for a node that uses the bridge \<open>br\<close>.\<close>

definition tracks :: "string \<Rightarrow> node_state \<Rightarrow> bool" where
  "tracks br = (\<lambda>(n, h).
     \<not> node_closed n \<and> (\<forall>x \<in> set h. \<not> releasing (fst x)) \<and>
     set (bridgeMembers n) \<subseteq> enslaved h \<and> enslaved h \<subseteq> set (bridgeMembers n) \<union> set_option (node_dev n) \<and>
     made_bridges h \<subseteq> {br} \<and> createdBridge n = (if br \<in> made_bridges h then br else '''') \<and>
     made_taps h = set_option (node_dev n))"

lemma acquired_append [simp]:
  "enslaved (h @ t) = enslaved h \<union> enslaved t"
  "made_bridges (h @ t) = made_bridges h \<union> made_bridges t"
  "made_taps (h @ t) = made_taps h \<union> made_taps t"
  by (auto simp: enslaved_def made_bridges_def made_taps_def)

lemma acquired_one [simp]:
  "enslaved [(c, a)] = (case c of LinkSetMaster m b \<Rightarrow> if a \<noteq> Fails then {m} else {} | _ \<Rightarrow> {})"
  "made_bridges [(c, a)] = (case c of LinkAdd b \<Rightarrow> if a \<noteq> Fails then {b} else {} | _ \<Rightarrow> {})"
  "made_taps [(c, a)] = (case c of TunSetIff nm \<Rightarrow> if a \<noteq> Fails then {case a of Named x \<Rightarrow> x | _ \<Rightarrow> nm} else {} | _ \<Rightarrow> {})"
  by (auto simp: enslaved_def made_bridges_def made_taps_def split: call.split)

lemma neutral_acquires [simp]:
  assumes "list_all (neutral \<circ> fst) t"
  shows "enslaved t = {}" "made_bridges t = {}" "made_taps t = {}" "\<forall>x \<in> set t. \<not> releasing (fst x)"
proof -
  have "neutral (fst x)" if "x \<in> set t" for x using assms that by (auto simp: list_all_iff)
  then show "enslaved t = {}" "made_bridges t = {}" "made_taps t = {}"
    unfolding enslaved_def made_bridges_def made_taps_def by fastforce+
  have "neutral c \<Longrightarrow> \<not> releasing c" for c by (cases c) simp_all
  with \<open>\<And>x. x \<in> set t \<Longrightarrow> neutral (fst x)\<close> show "\<forall>x \<in> set t. \<not> releasing (fst x)" by blast
qed

lemma tracks_neutral: "list_all (neutral \<circ> fst) t \<Longrightarrow> tracks br (n, h) \<Longrightarrow> tracks br (n, h @ t)"
  by (simp add: tracks_def ball_Un)

lemma keeps_ask [step_rules]: "neutral c \<Longrightarrow> keeps (\<lambda>h. tracks br (n, h)) (ask k c)"
  by (auto intro!: keepsI tracks_neutral)

lemma keeps_on_trace [step_rules]: "(\<And>n. keeps (\<lambda>h. tracks br (n, h)) f) \<Longrightarrow> keeps (tracks br) (on_trace f)"
  by (auto simp: keeps_def on_trace_def split: prod.splits) (metis snd_conv)

lemma keeps_pin [step_rules]: "keeps (\<lambda>h. tracks br (n, h)) (AddHostRouteViaCurrentGateway k ip)"
  by (rule keepsI) (auto simp: AddHostRouteViaCurrentGateway_def Let_def tracks_neutral split: option.split answer.split)

lemma keeps_netcfg [step_rules]:
  "keeps (\<lambda>h. tracks br (n, h)) (SetUp k nm mtu)"
  "keeps (\<lambda>h. tracks br (n, h)) (Netcfg.AddAddr k nm addr)"
  "keeps (\<lambda>h. tracks br (n, h)) (Netcfg.AddRoute k nm dst)"
  "keeps (\<lambda>h. tracks br (n, h)) (AddRouteVia k nm dst gw)"
  "keeps (\<lambda>h. tracks br (n, h)) (Netcfg.AddDefaultRoute k nm gw)"
  unfolding SetUp_def Netcfg.AddAddr_def Netcfg.AddRoute_def AddRouteVia_def Netcfg.AddDefaultRoute_def
  by (simp_all add: step_rules)

lemma keeps_address_steps: "list_all (keeps (\<lambda>h. tracks br (n, h))) (address_steps k t ipDev)"
  unfolding address_steps_def by (auto simp: step_rules list_all_iff)

lemma AddToBridge_calls:
  assumes "AddToBridge k m b h = (ok, h1)"
  obtains (unreached) t where "list_all (neutral \<circ> fst) t" "h1 = h @ t" "\<not> ok"
  | (reached) t a where "list_all (neutral \<circ> fst) t" "h1 = h @ t @ [(LinkSetMaster m b, a)]" "ok \<longleftrightarrow> a \<noteq> Fails"
proof -
  let ?fs = "[ask k (LinkByName m), ask k (LinkByName b), ask k (LinkSetUp m)]"
  obtain b3 h3 where s: "steps ?fs h = (b3, h3)" by fastforce
  have "AddToBridge k m b h = andThen (steps ?fs) (ask k (LinkSetMaster m b)) h"
    by (auto simp: AddToBridge_def andThen_def split: bool.split prod.split)
  with assms s have r: "(if b3 then ask k (LinkSetMaster m b) h3 else (False, h3)) = (ok, h1)" by (simp add: andThen_def split: bool.splits)
  have "keeps (adds neutral h) (steps ?fs)" by (simp add: step_rules del: steps.simps)
  from keepsD[OF this, of h] s obtain t where t: "list_all (neutral \<circ> fst) t" "h3 = h @ t"
    by (auto simp: adds_def list_all_iff)
  show thesis
  proof (cases b3)
    case True
    with r t that(2)[of t "k h3 (LinkSetMaster m b)"] show ?thesis by (auto simp: ask_def)
  next
    case False
    with r t that(1)[of t] show ?thesis by simp
  qed
qed

lemma tracks_enslaved:
  "tracks br (n, h) \<Longrightarrow> a \<noteq> Fails \<Longrightarrow> tracks br (n\<lparr>bridgeMembers := bridgeMembers n @ [m]\<rparr>, h @ [(LinkSetMaster m b, a)])"
  "tracks br (n, h) \<Longrightarrow> tracks br (n, h @ [(LinkSetMaster m b, Fails)])"
  "tracks br (n, h) \<Longrightarrow> node_dev n = Some m \<Longrightarrow> tracks br (n, h @ [(LinkSetMaster m b, a)])"
  by (auto simp: tracks_def)

lemma keeps_enslave [step_rules]: "keeps (tracks br) (enslave k b m)"
proof (rule keepsI)
  fix s :: node_state
  assume tr: "tracks br s"
  obtain n h where s: "s = (n, h)" by fastforce
  obtain ok h1 where a: "AddToBridge k m b h = (ok, h1)" by fastforce
  then show "tracks br (snd (enslave k b m s))"
  proof (cases rule: AddToBridge_calls)
    case (unreached t)
    with tr s a show ?thesis by (simp add: enslave_def tracks_neutral)
  next
    case (reached t a')
    have "tracks br (n, h @ t)" using tr s reached(1) by (simp add: tracks_neutral)
    from tracks_enslaved(1,2)[OF this] show ?thesis
      using reached(2,3) a s by (cases ok) (simp_all add: enslave_def)
  qed
qed

lemma keeps_own_bridge:
  "node_dev n = Some m \<Longrightarrow> keeps (\<lambda>h. tracks br (n, h)) (AddToBridge k m b)"
proof (rule keepsI)
  fix h
  assume d: "node_dev n = Some m" and tr: "tracks br (n, h)"
  obtain ok h1 where a: "AddToBridge k m b h = (ok, h1)" by fastforce
  then show "tracks br (n, snd (AddToBridge k m b h))"
  proof (cases rule: AddToBridge_calls)
    case (unreached t)
    with tr a show ?thesis by (simp add: tracks_neutral)
  next
    case (reached t a')
    have "tracks br (n, h @ t)" using tr reached(1) by (simp add: tracks_neutral)
    from tracks_enslaved(3)[OF this d] show ?thesis using reached(2) a by simp
  qed
qed

lemma tracks_bridge:
  "tracks br (n, h) \<Longrightarrow> a \<noteq> Fails \<Longrightarrow> tracks br (n\<lparr>createdBridge := br\<rparr>, h @ [(LinkAdd br, a)])"
  "tracks br (n, h) \<Longrightarrow> tracks br (n, h @ [(LinkAdd br, Fails)])"
  by (simp_all add: tracks_def ball_Un)

lemma keeps_ensure_bridge: "keeps (tracks br) (ensure_bridge k br)"
proof (rule keepsI)
  fix s :: node_state
  assume tr: "tracks br s"
  obtain n h where s: "s = (n, h)" by fastforce
  let ?h1 = "h @ [(LinkByName br, k h (LinkByName br))]"
  have t1: "tracks br (n, ?h1)" using tr s by (simp add: tracks_neutral)
  show "tracks br (snd (ensure_bridge k br s))"
  proof (cases "k h (LinkByName br) = Fails")
    case False
    then show ?thesis using t1 s by (simp add: ensure_bridge_def EnsureBridge_def ask_def)
  next
    case True
    then show ?thesis
      using tracks_bridge[OF t1] s by (cases "k ?h1 (LinkAdd br)") (simp_all add: ensure_bridge_def EnsureBridge_def ask_def)
  qed
qed

text \<open>Opening the device, from the fresh node.\<close>

lemma tracks_new: "tracks br (new_node, [])"
  by (simp add: tracks_def new_node_def enslaved_def made_bridges_def made_taps_def)

lemma tracks_tap:
  "tracks br (n, h) \<Longrightarrow> tracks br (n, h @ [(TunSetIff nm, Fails)])"
  "tracks br (n, h) \<Longrightarrow> node_dev n = None \<Longrightarrow> a \<noteq> Fails \<Longrightarrow>
     tracks br (n\<lparr>node_dev := Some (case a of Named x \<Rightarrow> x | _ \<Rightarrow> nm)\<rparr>, h @ [(TunSetIff nm, a)])"
  by (auto simp: tracks_def ball_Un)

lemma open_tap_tracks:
  assumes "open_tap k nm (new_node, []) = (ok, s)"
  shows "tracks br s" and "ok \<Longrightarrow> node_dev (fst s) \<noteq> None"
proof -
  show "ok \<Longrightarrow> node_dev (fst s) \<noteq> None"
    using assms by (auto simp: open_tap_def split: option.splits prod.splits)
  define a1 where "a1 = k [] OpenTun"
  define a2 where "a2 = k [(OpenTun, a1)] (NewIfreq nm)"
  let ?h = "[(OpenTun, a1), (NewIfreq nm, a2)]"
  define a3 where "a3 = k ?h (TunSetIff nm)"
  have t: "tracks br (new_node, t)" if "list_all (neutral \<circ> fst) t" for t
    using tracks_neutral[OF that tracks_new] by simp
  have t3: "tracks br (new_node, ?h @ [(TunSetIff nm, Fails)] @ [(CloseFd, a)])" for a
    using tracks_neutral[of "[(CloseFd, a)]", OF _ tracks_tap(1)[OF t[of ?h]]] by simp
  have t4: "a3 \<noteq> Fails \<Longrightarrow> tracks br (new_node\<lparr>node_dev := Some (case a3 of Named x \<Rightarrow> x | _ \<Rightarrow> nm)\<rparr>, ?h @ [(TunSetIff nm, a3)])"
    by (rule tracks_tap(2)[OF t]) (simp_all add: new_node_def)
  note d = open_tap_def Open_def ask_def a1_def[symmetric] a2_def[symmetric] a3_def[symmetric]
  consider "a1 = Fails" | "a1 \<noteq> Fails" "a2 = Fails" | "a1 \<noteq> Fails" "a2 \<noteq> Fails" "a3 = Fails" | "a1 \<noteq> Fails" "a2 \<noteq> Fails" "a3 \<noteq> Fails"
    by blast
  then show "tracks br s"
  proof cases
    case 1
    with assms show ?thesis by (auto simp: d intro!: t)
  next
    case 2
    with assms show ?thesis by (auto simp: d intro!: t)
  next
    case 3
    with assms t3 show ?thesis by (auto simp: d)
  next
    case 4
    with assms t4 show ?thesis by (auto simp: d)
  qed
qed

definition tracks_dev :: "string \<Rightarrow> string \<Rightarrow> node_state \<Rightarrow> bool" where
  "tracks_dev br d s = (tracks br s \<and> node_dev (fst s) = Some d)"

lemma keeps_tracks_dev:
  assumes "keeps (tracks br) f" "keeps (\<lambda>s. node_dev (fst s) = Some d) f"
  shows "keeps (tracks_dev br d) f"
  using assms by (auto simp: keeps_def tracks_dev_def)

lemma keeps_dev [step_rules]:
  "keeps (\<lambda>s. node_dev (fst s) = Some d) (on_trace f)"
  "keeps (\<lambda>s. node_dev (fst s) = Some d) (enslave k b m)"
  "keeps (\<lambda>s. node_dev (fst s) = Some d) (ensure_bridge k b)"
  by (auto simp: keeps_def on_trace_def enslave_def ensure_bridge_def split: prod.split bool.split)

lemma keeps_own_bridge_dev: "keeps (tracks_dev br d) (on_trace (AddToBridge k d b))"
proof (rule keepsI)
  fix s
  assume "tracks_dev br d s"
  moreover obtain n h where s: "s = (n, h)" by fastforce
  ultimately have "tracks br (n, h)" "node_dev n = Some d" by (simp_all add: tracks_dev_def)
  then have "tracks br (n, snd (AddToBridge k d b h))" by (intro keepsD[OF keeps_own_bridge]) simp_all
  with \<open>node_dev n = Some d\<close> s show "tracks_dev br d (snd (on_trace (AddToBridge k d b) s))"
    by (auto simp: tracks_dev_def on_trace_def split: prod.splits)
qed

lemma keeps_bridge_steps: "list_all (keeps (tracks_dev (tap_Bridge t) d)) (bridge_steps k t d mtu)"
  unfolding bridge_steps_def list_all_iff
  by (auto intro!: keeps_tracks_dev keeps_ensure_bridge keeps_own_bridge_dev simp: step_rules)

lemma startTAP_tracks:
  assumes "startTAP k t mtu (new_node, []) = (ok, s)"
  shows "tracks (tap_Bridge t) s"
proof -
  obtain ok1 s1 where o: "open_tap k (tap_Name t) (new_node, []) = (ok1, s1)" by (metis surj_pair)
  note tr = open_tap_tracks(1)[OF o, of "tap_Bridge t"] open_tap_tracks(2)[OF o]
  show ?thesis
  proof (cases ok1)
    case False
    with assms o tr show ?thesis by (simp add: startTAP_def)
  next
    case True
    with tr obtain d where d: "tracks_dev (tap_Bridge t) d s1" by (auto simp: tracks_dev_def)
    let ?dev = "if tap_Bridge t \<noteq> '''' then tap_Bridge t else d"
    have one: "keeps (tracks_dev (tap_Bridge t) d) (on_trace f)" if "\<And>n. keeps (\<lambda>h. tracks (tap_Bridge t) (n, h)) f" for f
      using that by (intro keeps_tracks_dev) (simp_all add: step_rules)
    have "list_all (keeps (tracks_dev (tap_Bridge t) d)) (map on_trace (address_steps k t ?dev))"
      unfolding list_all_iff set_map
    proof (intro ballI)
      fix g
      assume "g \<in> on_trace ` set (address_steps k t ?dev)"
      then obtain f where f: "g = on_trace f" "f \<in> set (address_steps k t ?dev)" by blast
      then show "keeps (tracks_dev (tap_Bridge t) d) g"
        using keeps_address_steps[of "tap_Bridge t" _ k t ?dev] unfolding list_all_iff f(1) by (intro one) blast
    qed
    then have "keeps (tracks_dev (tap_Bridge t) d)
      (steps ([on_trace (SetUp k d mtu)] @ bridge_steps k t d mtu @ map on_trace (address_steps k t ?dev)))"
      using keeps_bridge_steps[of t d k mtu] one[OF keeps_netcfg(1)] by (intro keeps_steps) simp
    note kept = keepsD[OF this d]
    have o': "open_tap k (tap_Name t) (new_node, []) = (True, s1)" and nd: "the (node_dev (fst s1)) = d"
      using o True d by (simp_all add: tracks_dev_def)
    have "steps ([on_trace (SetUp k d mtu)] @ bridge_steps k t d mtu @ map on_trace (address_steps k t ?dev)) s1 = (ok, s)"
      using assms nd unfolding startTAP_def o' Let_def by auto
    with kept show ?thesis by (simp only: snd_conv tracks_dev_def)
  qed
qed

subsection \<open>What closing does\<close>

definition produces :: "trace step \<Rightarrow> trace \<Rightarrow> bool" where
  "produces f t = (\<exists>h. snd (f h) = h @ t)"

lemma steps_ignore:
  assumes "\<forall>f \<in> set fs. \<forall>h. \<exists>t. snd (f h) = h @ t"
  shows "\<exists>t. snd (steps (map ignore fs) h) = h @ t \<and>
    (\<forall>f \<in> set fs. \<exists>t0. produces f t0 \<and> set t0 \<subseteq> set t) \<and> (\<forall>x \<in> set t. \<exists>f \<in> set fs. \<exists>t0. produces f t0 \<and> x \<in> set t0)"
  using assms
proof (induction fs arbitrary: h)
  case (Cons f fs)
  from Cons.prems obtain t1 where t1: "snd (f h) = h @ t1" by (metis list.set_intros(1))
  from Cons.IH[of "h @ t1"] Cons.prems obtain t2 where t2: "snd (steps (map ignore fs) (h @ t1)) = (h @ t1) @ t2"
    "\<forall>f \<in> set fs. \<exists>t0. produces f t0 \<and> set t0 \<subseteq> set t2" "\<forall>x \<in> set t2. \<exists>f \<in> set fs. \<exists>t0. produces f t0 \<and> x \<in> set t0" by auto
  have p: "produces f t1" using t1 by (auto simp: produces_def)
  have "snd (steps (map ignore (f # fs)) h) = h @ (t1 @ t2)"
    using t1 t2(1) by (simp add: andThen_def ignore_def)
  moreover have "\<forall>g \<in> set (f # fs). \<exists>t0. produces g t0 \<and> set t0 \<subseteq> set (t1 @ t2)"
    using p t2(2) by fastforce
  moreover have "\<forall>x \<in> set (t1 @ t2). \<exists>g \<in> set (f # fs). \<exists>t0. produces g t0 \<and> x \<in> set t0"
    using p t2(3) by auto
  ultimately show ?case by blast
qed simp

text \<open>An attempt to release something: the link is gone, or the call is made.\<close>

definition released :: "string \<Rightarrow> trace \<Rightarrow> bool" where
  "released m t = ((LinkByName m, Fails) \<in> set t \<or> (\<exists>a. (LinkSetNoMaster m, a) \<in> set t))"

definition deleted :: "string \<Rightarrow> trace \<Rightarrow> bool" where
  "deleted b t = ((LinkByName b, Fails) \<in> set t \<or> (\<exists>a. (LinkDel b, a) \<in> set t))"

lemma produces_ask: "produces (ask k c) t \<longleftrightarrow> (\<exists>h. t = [(c, k h c)])"
  by (auto simp: produces_def)

lemma produces_RemoveFromBridge:
  "produces (RemoveFromBridge k m) t \<Longrightarrow> released m t \<and> fst ` set t \<subseteq> {LinkByName m, LinkSetNoMaster m}"
  by (auto simp: produces_def RemoveFromBridge_def ask_def released_def split: bool.splits)

lemma produces_DelLink:
  "produces (DelLink k b) t \<Longrightarrow> deleted b t \<and> fst ` set t \<subseteq> {LinkByName b, LinkDel b}"
  by (auto simp: produces_def DelLink_def ask_def deleted_def split: bool.splits)

lemma released_mono: "released m t0 \<Longrightarrow> set t0 \<subseteq> set t \<Longrightarrow> released m t"
  and deleted_mono: "deleted b t0 \<Longrightarrow> set t0 \<subseteq> set t \<Longrightarrow> deleted b t"
  by (auto simp: released_def deleted_def)

lemma close_calls_extend: "f \<in> set (close_list k n) \<Longrightarrow> \<exists>t. snd (f h) = h @ t"
  by (auto simp: close_list_def RemoveFromBridge_def DelLink_def ask_def split: if_splits option.splits bool.splits)

lemma close_calls_trace:
  obtains t where "snd (close_calls k n h) = h @ t"
    "\<forall>m \<in> set (bridgeMembers n). released m t" "createdBridge n \<noteq> '''' \<longrightarrow> deleted (createdBridge n) t"
    "\<forall>d. node_dev n = Some d \<longrightarrow> (\<exists>a. (CloseTap d, a) \<in> set t)" "node_udp n \<longrightarrow> (\<exists>a. (CloseUDP, a) \<in> set t)"
    "\<exists>a. (CloseStream, a) \<in> set t"
    "\<forall>m a. (LinkSetNoMaster m, a) \<in> set t \<longrightarrow> m \<in> set (bridgeMembers n)"
    "\<forall>b a. (LinkDel b, a) \<in> set t \<longrightarrow> b = createdBridge n \<and> b \<noteq> ''''"
    "enslaved t = {}" "made_bridges t = {}" "made_taps t = {}"
proof -
  have c: "close_calls k n = steps (map ignore (close_list k n))" by (simp add: close_calls_def)
  obtain t where t: "snd (close_calls k n h) = h @ t"
    and all: "\<And>f. f \<in> set (close_list k n) \<Longrightarrow> \<exists>t0. produces f t0 \<and> set t0 \<subseteq> set t"
    and only: "\<And>x. x \<in> set t \<Longrightarrow> \<exists>f \<in> set (close_list k n). \<exists>t0. produces f t0 \<and> x \<in> set t0"
    using steps_ignore[of "close_list k n" h] close_calls_extend[of _ k n] unfolding c by blast
  show thesis
  proof (rule that[OF t])
    show "\<forall>m \<in> set (bridgeMembers n). released m t"
    proof
      fix m assume "m \<in> set (bridgeMembers n)"
      then have "RemoveFromBridge k m \<in> set (close_list k n)" by (simp add: close_list_def)
      from all[OF this] show "released m t" using produces_RemoveFromBridge released_mono by blast
    qed
    show "createdBridge n \<noteq> '''' \<longrightarrow> deleted (createdBridge n) t"
    proof
      assume "createdBridge n \<noteq> ''''"
      then have "DelLink k (createdBridge n) \<in> set (close_list k n)" by (simp add: close_list_def)
      from all[OF this] show "deleted (createdBridge n) t" using produces_DelLink deleted_mono by blast
    qed
    have a: "\<exists>a. (c, a) \<in> set t" if "ask k c \<in> set (close_list k n)" for c
      using all[OF that] by (auto simp: produces_ask)
    show "\<forall>d. node_dev n = Some d \<longrightarrow> (\<exists>a. (CloseTap d, a) \<in> set t)" "node_udp n \<longrightarrow> (\<exists>a. (CloseUDP, a) \<in> set t)"
      "\<exists>a. (CloseStream, a) \<in> set t"
      by (auto intro!: a simp: close_list_def)
    have o: "(\<exists>c. f = ask k c \<and> c \<in> {CloseUDP, CloseStream} \<union> CloseTap ` UNIV) \<or> (\<exists>m \<in> set (bridgeMembers n). f = RemoveFromBridge k m) \<or>
        f = DelLink k (createdBridge n) \<and> createdBridge n \<noteq> ''''" if "f \<in> set (close_list k n)" for f
      using that by (auto simp: close_list_def split: if_splits option.splits)
    show "\<forall>m a. (LinkSetNoMaster m, a) \<in> set t \<longrightarrow> m \<in> set (bridgeMembers n)"
      by (intro allI impI, drule only, elim bexE exE conjE, drule o)
         (force simp: produces_ask dest!: produces_RemoveFromBridge produces_DelLink)
    show "\<forall>b a. (LinkDel b, a) \<in> set t \<longrightarrow> b = createdBridge n \<and> b \<noteq> ''''"
      by (intro allI impI, drule only, elim bexE exE conjE, drule o)
         (force simp: produces_ask dest!: produces_RemoveFromBridge produces_DelLink)
    have nr: "neutral (fst x) \<or> releasing (fst x)" if "x \<in> set t" for x
      using only[OF that] by (elim bexE exE conjE, drule_tac o) (force simp: produces_ask dest!: produces_RemoveFromBridge produces_DelLink)
    show "enslaved t = {}" "made_bridges t = {}" "made_taps t = {}"
      unfolding enslaved_def made_bridges_def made_taps_def using nr by fastforce+
  qed
qed

subsection \<open>Properties of the client's node\<close>

lemma StartClient_failed:
  assumes "StartClient k (Some t) mtu udp (new_node, []) = (False, (n, h))"
  obtains n0 h0 where "tracks (tap_Bridge t) (n0, h0)" "(n, h) = node_Close k (n0, h0)"
proof -
  obtain ok s1 where st: "startTAP k t mtu (new_node, []) = (ok, s1)" by (metis surj_pair)
  note tr = startTAP_tracks[OF st]
  show thesis
  proof (cases ok)
    case False
    with assms st have "(n, h) = node_Close k (fst s1, snd s1)" by (simp add: StartClient_def)
    with that tr show ?thesis by (metis prod.collapse)
  next
    case True
    let ?h2 = "snd s1 @ [(ListenUDP udp, k (snd s1) (ListenUDP udp))]"
    from True assms st have "(n, h) = node_Close k (fst s1, ?h2)"
      by (auto simp: StartClient_def ask_def split: if_splits bool.splits)
    moreover have "tracks (tap_Bridge t) (fst s1, ?h2)" using tr by (intro tracks_neutral) simp_all
    ultimately show ?thesis using that by blast
  qed
qed


definition kernel_ex :: kernel where
  "kernel_ex h c =
     (case c of
        LinkByName b \<Rightarrow> if b = ''br0'' \<and> (LinkAdd ''br0'', Done) \<notin> set h then Fails else Done
      | AddrReplace _ _ \<Rightarrow> Fails
      | TunSetIff _ \<Rightarrow> Named ''tap7''
      | _ \<Rightarrow> Done)"

definition tap_ex :: full_tap where
  "tap_ex = \<lparr>tap_Name = ''tap%d'', tap_Bridge = ''br0'', tap_BridgeMembers = [''eth1''], tap_IPv4CIDR = ''10.42.0.9/24'', tap_IPv6 = '''',
     tap_Routes = [], tap_DefaultRoute = False, tap_Gateway = '''', tap_SubnetRoute = '''', tap_ServerRealIP = ''''\<rparr>"

definition failed_ex :: trace where
  "failed_ex = snd (snd (StartClient kernel_ex (Some tap_ex) 1400 '''' (new_node, [])))"


text \<open>Nothing on the way up releases anything.\<close>

abbreviation only_adds :: "trace \<Rightarrow> trace \<Rightarrow> bool" where
  "only_adds \<equiv> adds (\<lambda>c. \<not> releasing c)"

lemma only_adds_netcfg [step_rules]:
  "keeps (only_adds h0) (SetUp k nm mtu)" "keeps (only_adds h0) (Netcfg.AddAddr k nm ad)"
  "keeps (only_adds h0) (Netcfg.AddRoute k nm dst)" "keeps (only_adds h0) (AddRouteVia k nm dst gw)"
  "keeps (only_adds h0) (Netcfg.AddDefaultRoute k nm gw)" "keeps (only_adds h0) (AddToBridge k nm br)"
  unfolding SetUp_def Netcfg.AddAddr_def Netcfg.AddRoute_def AddRouteVia_def Netcfg.AddDefaultRoute_def AddToBridge_def
  by (simp_all add: step_rules del: steps.simps)

definition closed_adds :: "trace \<Rightarrow> node_state \<Rightarrow> bool" where
  "closed_adds h0 = (\<lambda>(n, h). node_closed n \<and> only_adds h0 h)"

lemma closed_adds_on_trace [step_rules]: "keeps (only_adds h0) f \<Longrightarrow> keeps (closed_adds h0) (on_trace f)"
  by (auto simp: keeps_def closed_adds_def on_trace_def split: prod.splits)

lemma closed_adds_enslave [step_rules]: "keeps (closed_adds h0) (enslave k b m)"
proof (rule keepsI)
  fix s assume "closed_adds h0 s"
  then show "closed_adds h0 (snd (enslave k b m s))"
    using keepsD[OF only_adds_netcfg(6), of h0 "snd s" k m b]
    by (auto simp: closed_adds_def enslave_def split: prod.splits bool.splits)
qed

lemma closed_adds_ensure [step_rules]: "keeps (closed_adds h0) (ensure_bridge k b)"
proof (rule keepsI)
  fix s assume s: "closed_adds h0 s"
  let ?h1 = "snd s @ [(LinkByName b, k (snd s) (LinkByName b))]"
  have "only_adds h0 ?h1" using s by (auto simp: closed_adds_def intro: adds_snoc)
  moreover from this have "only_adds h0 (?h1 @ [(LinkAdd b, k ?h1 (LinkAdd b))])" by (rule adds_snoc) simp
  ultimately show "closed_adds h0 (snd (ensure_bridge k b s))"
    using s by (auto simp: closed_adds_def ensure_bridge_def EnsureBridge_def ask_def split: prod.splits bool.splits)
qed

lemma closed_adds_open: "keeps (closed_adds h0) (open_tap k nm)"
proof (rule keepsI)
  fix s assume s: "closed_adds h0 s"
  let ?h1 = "snd s @ [(OpenTun, k (snd s) OpenTun)]"
  let ?h2 = "?h1 @ [(NewIfreq nm, k ?h1 (NewIfreq nm))]"
  let ?h3 = "?h2 @ [(TunSetIff nm, k ?h2 (TunSetIff nm))]"
  have a1: "only_adds h0 ?h1" using s by (auto simp: closed_adds_def intro: adds_snoc)
  have a2: "only_adds h0 ?h2" using a1 by (rule adds_snoc) simp
  have a3: "only_adds h0 ?h3" using a2 by (rule adds_snoc) simp
  have a: "only_adds h0 (?h2 @ [(CloseFd, k ?h2 CloseFd)])" "only_adds h0 (?h3 @ [(CloseFd, k ?h3 CloseFd)])"
    using a2 a3 by (simp_all add: adds_snoc del: append_assoc)
  show "closed_adds h0 (snd (open_tap k nm s))"
    using s a1 a3 a by (auto simp: closed_adds_def open_tap_def Open_def ask_def split: prod.splits bool.splits)
qed

lemma closed_adds_startTAP: "keeps (closed_adds h0) (startTAP k t mtu)"
proof (rule keepsI)
  fix s assume s: "closed_adds h0 s"
  obtain ok s1 where o: "open_tap k (tap_Name t) s = (ok, s1)" by (metis surj_pair)
  have s1: "closed_adds h0 s1" using keepsD[OF closed_adds_open s, of k "tap_Name t"] o by simp
  have "list_all (keeps (closed_adds h0)) ([on_trace (SetUp k d mtu)] @ bridge_steps k t d mtu @ map on_trace (address_steps k t ip))" for d ip
    unfolding bridge_steps_def address_steps_def list_all_iff by (auto simp: step_rules)
  from keepsD[OF keeps_steps[OF this] s1] show "closed_adds h0 (snd (startTAP k t mtu s))"
    using s1 by (cases ok) (simp_all add: startTAP_def o Let_def del: steps.simps)
qed

text \<open>
  An uplink that fails during the start leaks the device: the reader of the uplink may close the node
  before the TAP device is opened. The start then goes on, and whether it succeeds or not, none of its calls
  releases anything and no later close does: closing is a one-time action that is used up.
\<close>

theorem early_close_leaks:
  assumes "node_Close k (new_node, h0) = (n1, h1)" "startTAP k t mtu (n1, h1) = (ok, (n, h))"
  shows "(\<exists>c. h = h1 @ c \<and> (\<forall>x \<in> set c. \<not> releasing (fst x))) \<and> node_Close k (n, h) = (n, h)"
proof -
  have "closed_adds h1 (n1, h1)" using assms(1) by (auto simp: closed_adds_def adds_def node_Close_def new_node_def)
  from keepsD[OF closed_adds_startTAP this, of k t mtu] have "closed_adds h1 (n, h)" using assms(2) by simp
  then show ?thesis by (simp add: closed_adds_def adds_def node_Close_def)
qed

definition good_kernel :: kernel where
  "good_kernel h c = (case c of TunSetIff _ \<Rightarrow> Named ''tap7'' | _ \<Rightarrow> Done)"

definition leaked_ex :: "bool \<times> node_state" where
  "leaked_ex = startTAP good_kernel tap_ex 1400 (node_Close good_kernel (new_node, []))"

theorem early_close_leaks_witness:
  "fst leaked_ex \<and> (TunSetIff ''tap%d'', Named ''tap7'') \<in> set (snd (snd leaked_ex)) \<and>
   node_Close good_kernel (snd leaked_ex) = snd leaked_ex"
proof -
  obtain n1 h1 where c: "node_Close good_kernel (new_node, []) = (n1, h1)" by fastforce
  have "startTAP good_kernel tap_ex 1400 (n1, h1) = (fst leaked_ex, (fst (snd leaked_ex), snd (snd leaked_ex)))"
    by (simp add: leaked_ex_def c)
  from early_close_leaks[OF c this] have "node_Close good_kernel (snd leaked_ex) = snd leaked_ex" by simp
  moreover have "fst leaked_ex" "(TunSetIff ''tap%d'', Named ''tap7'') \<in> set (snd (snd leaked_ex))" by code_simp+
  ultimately show ?thesis by blast
qed

end
