(* ===== verification/Hub.thy ===== *)
theory Hub
  imports Nodes DhcpServer
begin

text \<open>
  \<^verbatim>\<open>setupTunHub\<close> of \<^verbatim>\<open>internal/app/server.go\<close>: the server's end of the L2 tunnel, a TAP device
  on a switch with the embedded DHCP server, and its cleanup. The calls into the system are those of \<^verbatim>\<open>Netcfg\<close>;
  the reader of the device feeds \<^verbatim>\<open>L2Switch\<close>.
\<close>

record hub =
  hub_dev :: string
  hub_switch :: switch
  hub_tap :: port
  hub_dhcp :: server
  hub_nat :: "(string \<times> string) option"

datatype hub_error = PoolInvalid | TapOpen | TapSetUp | GatewayAddress | NatRule | GatewayInvalid string
  | DhcpConfig new_error | DhcpBind

definition nat_steps :: "kernel \<Rightarrow> server_tun \<Rightarrow> trace step" where
  "nat_steps k t =
     if_step (stun_EnableNAT t)
       (steps [ignore (EnableIPForward k), EnsureMasquerade k (stun_PoolV4 t) (stun_WANInterface t)])"

definition gateway_cidr :: "server_tun \<Rightarrow> ipnet \<Rightarrow> string" where
  "gateway_cidr t poolNet = stun_Gateway t @ ''/'' @ Itoa (mask_ones (net_mask poolNet))"

text \<open>The part after the device is open: the gateway address, address translation and the DHCP server.\<close>

definition equip_hub :: "kernel \<Rightarrow> server_tun \<Rightarrow> ipnet \<Rightarrow> string \<Rightarrow> trace \<Rightarrow> (hub_error + hub) \<times> trace" where
  "equip_hub k t poolNet dev h1 =
     (case SetUp k dev (stun_MTU t) h1 of
        (False, h2) \<Rightarrow> (Inl TapSetUp, h2)
      | (True, h2) \<Rightarrow>
          (case Netcfg.AddAddr k dev (gateway_cidr t poolNet) h2 of
             (False, h3) \<Rightarrow> (Inl GatewayAddress, h3)
           | (True, h3) \<Rightarrow>
               (case nat_steps k t h3 of
                  (False, h4) \<Rightarrow> (Inl NatRule, h4)
                | (True, h4) \<Rightarrow>
                    (case ParseIP (stun_Gateway t) of
                       None \<Rightarrow> (Inl (GatewayInvalid (stun_Gateway t)), h4)
                     | Some gwIP \<Rightarrow>
                         (case DhcpServer.New \<lparr>Iface = dev, Pool = Some poolNet, Gateway = gwIP, LeaseTime = 0,
                                 OfferDefaultRoute = stun_EnableNAT t\<rparr> of
                            Inl e \<Rightarrow> (Inl (DhcpConfig e), h4)
                          | Inr srv \<Rightarrow>
                              (case ask k (StartDHCP dev) h4 of
                                 (False, h5) \<Rightarrow> (Inl DhcpBind, h5)
                               | (True, h5) \<Rightarrow>
                                   let (tapPort, sw) = AddPort \<lparr>cfg_name = ''tap:'' @ dev, cfg_allowedV4 = [], cfg_allowedV6 = []\<rparr>
                                         (switch_New (stun_EnablePassthrough t))
                                   in (Inr \<lparr>hub_dev = dev, hub_switch = sw, hub_tap = tapPort, hub_dhcp = srv,
                                            hub_nat = (if stun_EnableNAT t then Some (stun_PoolV4 t, stun_WANInterface t) else None)\<rparr>, h5)))))))"

definition setupTunHub :: "kernel \<Rightarrow> server_tun \<Rightarrow> trace \<Rightarrow> (hub_error + hub option) \<times> trace" where
  "setupTunHub k t h =
     (if \<not> stun_Enable t then (Inr None, h)
      else case ParseCIDR (stun_PoolV4 t) of
             None \<Rightarrow> (Inl PoolInvalid, h)
           | Some (_, poolNet) \<Rightarrow>
               (case Open k (stun_TapName t) h of
                  (None, h1) \<Rightarrow> (Inl TapOpen, h1)
                | (Some dev, h1) \<Rightarrow>
                    (case equip_hub k t poolNet dev h1 of
                       (Inl e, h2) \<Rightarrow> (Inl e, snd (ask k (CloseTap dev) h2))
                     | (Inr hb, h2) \<Rightarrow> (Inr (Some hb), h2))))"

definition hub_cleanup :: "kernel \<Rightarrow> hub \<Rightarrow> trace step" where
  "hub_cleanup k hb =
     steps [ignore (ask k CloseDHCP),
            (case hub_nat hb of Some (pl, wan) \<Rightarrow> ignore (ask k (DeleteMasquerade pl wan)) | None \<Rightarrow> require True),
            ignore (ask k (CloseTap (hub_dev hb)))]"

subsection \<open>Lemmas\<close>

text \<open>Equipping the hub neither opens nor closes a device and removes no rule.\<close>

fun hub_neutral :: "call \<Rightarrow> bool" where
  "hub_neutral (TunSetIff _) = False"
| "hub_neutral (CloseTap _) = False"
| "hub_neutral (DeleteMasquerade _ _) = False"
| "hub_neutral _ = True"

lemma hub_neutral_steps [step_rules]:
  "keeps (adds hub_neutral h0) (SetUp k nm mtu)" "keeps (adds hub_neutral h0) (Netcfg.AddAddr k nm ad)"
  "keeps (adds hub_neutral h0) (EnableIPForward k)" "keeps (adds hub_neutral h0) (EnsureMasquerade k pl wan)"
  "keeps (adds hub_neutral h0) (nat_steps k t)"
  unfolding SetUp_def Netcfg.AddAddr_def EnableIPForward_def EnsureMasquerade_def nat_steps_def
  by (simp_all add: step_rules del: steps.simps)

lemma hub_step:
  assumes "adds hub_neutral h0 h" "keeps (adds hub_neutral h0) f" "f h = (ok, h1)"
  shows "adds hub_neutral h0 h1"
  using keepsD[OF assms(2,1)] assms(3) by simp

lemma equip_hub_adds:
  assumes "equip_hub k t poolNet dev h = (r, h')"
  shows "adds hub_neutral h h'"
proof -
  obtain ok2 h2 where 2: "SetUp k dev (stun_MTU t) h = (ok2, h2)" by fastforce
  obtain ok3 h3 where 3: "Netcfg.AddAddr k dev (gateway_cidr t poolNet) h2 = (ok3, h3)" by fastforce
  obtain ok4 h4 where 4: "nat_steps k t h3 = (ok4, h4)" by fastforce
  obtain ok5 h5 where 5: "ask k (StartDHCP dev) h4 = (ok5, h5)" by fastforce
  have a2: "adds hub_neutral h h2" using adds_refl hub_neutral_steps(1) 2 by (rule hub_step)
  have a3: "adds hub_neutral h h3" using a2 hub_neutral_steps(2) 3 by (rule hub_step)
  have a4: "adds hub_neutral h h4" using a3 hub_neutral_steps(5) 4 by (rule hub_step)
  have a5: "adds hub_neutral h h5" using adds_snoc[OF a4] 5 by (auto simp: ask_def)
  show ?thesis
    using assms a2 a3 a4 a5
    by (auto simp: equip_hub_def 2 3 4 5 Let_def split: bool.splits option.splits sum.splits prod.splits)
qed

lemma adds_hub_neutral:
  assumes "adds hub_neutral h h'"
  shows "made_taps h' = made_taps h" "(DeleteMasquerade pl wan, a) \<in> set h' \<longleftrightarrow> (DeleteMasquerade pl wan, a) \<in> set h"
proof -
  obtain t where t: "h' = h @ t" "\<And>x. x \<in> set t \<Longrightarrow> hub_neutral (fst x)" using assms by (auto simp: adds_def)
  have "made_taps t = {}" unfolding made_taps_def using t(2) by fastforce
  then show "made_taps h' = made_taps h" by (simp add: t(1))
  show "(DeleteMasquerade pl wan, a) \<in> set h' \<longleftrightarrow> (DeleteMasquerade pl wan, a) \<in> set h" using t by fastforce
qed

lemma Open_taps:
  assumes "Open k nm [] = (d, h1)"
  shows "made_taps h1 = set_option d" "(DeleteMasquerade pl wan, a) \<notin> set h1"
proof -
  have "open_tap k nm (new_node, []) = (d \<noteq> None, (case d of None \<Rightarrow> new_node | Some x \<Rightarrow> new_node\<lparr>node_dev := Some x\<rparr>, h1))"
    using assms by (auto simp: open_tap_def split: option.split)
  from open_tap_tracks(1)[OF this, of "''''"] show "made_taps h1 = set_option d"
    by (cases d) (simp_all add: tracks_def new_node_def)
  show "(DeleteMasquerade pl wan, a) \<notin> set h1"
    using assms by (auto simp: Open_def ask_def split: bool.splits)
qed

lemma ParseIP_nonempty: "ParseIP s = Some ip \<Longrightarrow> ip \<noteq> []"
  by (auto simp: ParseIP_def addr6_bytes_def v4in6_prefix_def split: option.splits addr.splits if_splits)

text \<open>A system in which every call succeeds.\<close>

lemma steps_succeed:
  assumes "\<And>h c. k h c \<noteq> Fails"
  shows "fst (SetUp k nm mtu h)" "fst (Netcfg.AddAddr k nm ad h)" "fst (nat_steps k t h)"
  using assms
  by (auto simp: SetUp_def Netcfg.AddAddr_def nat_steps_def EnableIPForward_def EnsureMasquerade_def andThen_def if_step_def ignore_def
      ask_def split: bool.split)

lemma Open_succeeds:
  assumes "\<And>h c. k h c \<noteq> Fails"
  shows "fst (Open k nm h) \<noteq> None"
  using assms by (auto simp: Open_def ask_def split: bool.split)

subsection \<open>Properties\<close>

text \<open>
  A failing hub closes its device: whatever call fails, when the hub does not come up, every TAP device it
  opened is closed again.
\<close>

theorem failed_hub_closes_tap:
  assumes "setupTunHub k t [] = (Inl e, h)"
  shows "\<forall>d \<in> made_taps h. \<exists>a. (CloseTap d, a) \<in> set h"
proof -
  obtain d h1 where o: "Open k (stun_TapName t) [] = (d, h1)" by fastforce
  note ot = Open_taps(1)[OF o]
  consider "h = []" | "d = None" "h = h1" | dev poolNet h2 where "d = Some dev" "equip_hub k t poolNet dev h1 = (Inl e, h2)"
      "h = snd (ask k (CloseTap dev) h2)"
    using assms o by (auto simp: setupTunHub_def split: if_splits option.splits sum.splits prod.splits)
  then show ?thesis
  proof cases
    case (3 dev poolNet h2)
    have "made_taps h2 = {dev}" using adds_hub_neutral(1)[OF equip_hub_adds[OF 3(2)]] ot 3(1) by simp
    then show ?thesis by (auto simp: 3(3))
  next
    case 1
    then show ?thesis by (simp add: made_taps_def)
  next
    case 2
    with ot have "made_taps h = {}" by simp
    then show ?thesis by simp
  qed
qed

lemma hub_starts:
  assumes "validateServerTun t0 = Inr t" "stun_Enable t" "\<And>h c. k h c \<noteq> Fails"
  shows "\<exists>hb h i net. setupTunHub k t [] = (Inr (Some hb), h) \<and> ParseCIDR (stun_PoolV4 t) = Some (i, net) \<and>
    pool (hub_dhcp hb) = net \<and> Some (gateway (hub_dhcp hb)) = ParseIP (stun_Gateway t) \<and>
    offerDefaultRoute (hub_dhcp hb) = stun_EnableNAT t \<and> byChid (hub_dhcp hb) = Map.empty \<and> ports (hub_switch hb) = [hub_tap hb] \<and>
    made_taps h = {hub_dev hb}"
proof -
  obtain i net where net: "ParseCIDR (stun_PoolV4 t) = Some (i, net)" and gw: "ParseIP (stun_Gateway t) \<noteq> None"
    using validateServerTun_Inr[OF assms(1)] by fastforce
  then obtain g where g: "ParseIP (stun_Gateway t) = Some g" by blast
  have gne: "g \<noteq> []" using ParseIP_nonempty[OF g] .
  obtain dev h1 where o: "Open k (stun_TapName t) [] = (Some dev, h1)"
    using Open_succeeds[where k = k and nm = "stun_TapName t" and h = "[]", OF assms(3)] by (cases "Open k (stun_TapName t) []") auto
  obtain h2 where h2: "SetUp k dev (stun_MTU t) h1 = (True, h2)"
    using steps_succeed(1)[where k = k and nm = dev and mtu = "stun_MTU t" and h = h1, OF assms(3)] by (cases "SetUp k dev (stun_MTU t) h1") auto
  let ?ad = "gateway_cidr t net"
  obtain h3 where h3: "Netcfg.AddAddr k dev ?ad h2 = (True, h3)"
    using steps_succeed(2)[where k = k and nm = dev and ad = ?ad and h = h2, OF assms(3)] by (cases "Netcfg.AddAddr k dev ?ad h2") auto
  obtain h4 where h4: "nat_steps k t h3 = (True, h4)"
    using steps_succeed(3)[where k = k and t = t and h = h3, OF assms(3)] by (cases "nat_steps k t h3") auto
  have d: "ask k (StartDHCP dev) h4 = (True, h4 @ [(StartDHCP dev, k h4 (StartDHCP dev))])" using assms(3) by (simp add: ask_def)
  obtain hb h where e: "equip_hub k t net dev h1 = (Inr hb, h)" and f: "pool (hub_dhcp hb) = net" "gateway (hub_dhcp hb) = g"
      "offerDefaultRoute (hub_dhcp hb) = stun_EnableNAT t" "byChid (hub_dhcp hb) = Map.empty" "ports (hub_switch hb) = [hub_tap hb]"
      "hub_dev hb = dev"
    using gne by (auto simp: equip_hub_def h2 h3 h4 g d DhcpServer.New_def AddPort_def switch_New_def Let_def)
  have "made_taps h = {dev}" using adds_hub_neutral(1)[OF equip_hub_adds[OF e]] Open_taps(1)[OF o] by simp
  then show ?thesis using e f g net o assms(2) by (auto simp: setupTunHub_def)
qed

text \<open>
  A validated hub comes up: when the tunnel section of the server configuration is accepted and enabled and the
  system refuses nothing, the hub starts, and its DHCP server has the configured pool and gateway, offers the default
  route exactly when address translation is on, and starts with an empty lease table; the TAP device is the only port of its switch.
\<close>

theorem validated_hub_starts:
  assumes "validateServerTun t0 = Inr t" "stun_Enable t" "\<And>h c. k h c \<noteq> Fails"
  shows "\<exists>hb h i net. setupTunHub k t [] = (Inr (Some hb), h) \<and> ParseCIDR (stun_PoolV4 t) = Some (i, net) \<and>
    pool (hub_dhcp hb) = net \<and> Some (gateway (hub_dhcp hb)) = ParseIP (stun_Gateway t) \<and>
    offerDefaultRoute (hub_dhcp hb) = stun_EnableNAT t \<and> byChid (hub_dhcp hb) = Map.empty \<and> ports (hub_switch hb) = [hub_tap hb] \<and>
    made_taps h = {hub_dev hb}"
  using assms by (rule hub_starts)

text \<open>
  A failed DHCP bind leaves the address translation on: when the masquerading rule was installed and the DHCP
  server then cannot bind its socket, the set-up fails, the device is closed, but the rule is not removed.
\<close>

theorem failed_bind_keeps_masquerade:
  assumes "setupTunHub k t [] = (Inl DhcpBind, h)" "stun_EnableNAT t"
  shows "(\<exists>a. (AppendMasquerade (stun_PoolV4 t) (stun_WANInterface t), a) \<in> set h \<and> a \<noteq> Fails) \<and>
    (\<forall>pl wan a. (DeleteMasquerade pl wan, a) \<notin> set h)"
proof -
  obtain d h1 where o: "Open k (stun_TapName t) [] = (d, h1)" by fastforce
  obtain dev net h2 where e: "d = Some dev" "equip_hub k t net dev h1 = (Inl DhcpBind, h2)" "h = snd (ask k (CloseTap dev) h2)"
    using assms(1) o by (auto simp: setupTunHub_def split: if_splits option.splits sum.splits prod.splits)
  have "(DeleteMasquerade pl wan, a) \<notin> set h2" for pl wan a
    using adds_hub_neutral(2)[OF equip_hub_adds[OF e(2)]] Open_taps(2)[OF o] by blast
  then have nd: "\<forall>pl wan a. (DeleteMasquerade pl wan, a) \<notin> set h" by (simp add: e(3))
  obtain h3 h4 where n: "nat_steps k t h3 = (True, h4)" "h2 = snd (ask k (StartDHCP dev) h4)"
    using e(2) by (auto simp: equip_hub_def ask_def split: bool.splits option.splits sum.splits prod.splits)
  have "\<exists>a. (AppendMasquerade (stun_PoolV4 t) (stun_WANInterface t), a) \<in> set h4 \<and> a \<noteq> Fails"
    using n(1) assms(2) by (auto simp: nat_steps_def EnsureMasquerade_def if_step_def andThen_def ignore_def ask_def split: bool.splits)
  then show ?thesis using nd by (auto simp: e(3) n(2))
qed

text \<open>
  Shutting the hub down undoes its start: the cleanup stops the DHCP server, removes the masquerading rule exactly when
  the start installed it, and closes the device the start opened, in this order and whatever fails.
\<close>

theorem hub_cleanup_undoes_start:
  assumes "setupTunHub k t [] = (Inr (Some hb), h)"
  shows "\<exists>c. snd (hub_cleanup k hb h) = h @ c \<and>
    map fst c = [CloseDHCP] @ (if stun_EnableNAT t then [DeleteMasquerade (stun_PoolV4 t) (stun_WANInterface t)] else []) @ [CloseTap (hub_dev hb)] \<and>
    made_taps h = {hub_dev hb}"
proof -
  obtain d h1 where o: "Open k (stun_TapName t) [] = (d, h1)" by fastforce
  obtain dev net where e: "d = Some dev" "equip_hub k t net dev h1 = (Inr hb, h)"
    using assms o by (auto simp: setupTunHub_def split: if_splits option.splits sum.splits prod.splits)
  have f: "hub_dev hb = dev" "hub_nat hb = (if stun_EnableNAT t then Some (stun_PoolV4 t, stun_WANInterface t) else None)"
    using e(2) by (auto simp: equip_hub_def Let_def split: bool.splits option.splits sum.splits prod.splits)
  have "made_taps h = {hub_dev hb}" using adds_hub_neutral(1)[OF equip_hub_adds[OF e(2)]] Open_taps(1)[OF o] e(1) f(1) by simp
  then show ?thesis
    by (auto simp: hub_cleanup_def f andThen_def ignore_def require_def ask_def)
qed

definition nat_tun_ex :: server_tun where
  "nat_tun_ex = (sc_Tun loaded_ex)\<lparr>stun_EnableNAT := True, stun_WANInterface := ''eth0''\<rparr>"

definition busy_kernel :: kernel where
  "busy_kernel h c = (case c of StartDHCP _ \<Rightarrow> Fails | TunSetIff _ \<Rightarrow> Named ''tap7'' | _ \<Rightarrow> Done)"

lemma nat_tun_ex: "validateServerTun nat_tun_ex = Inr nat_tun_ex"
  by code_simp

lemma busy_hub:
  obtains h where "setupTunHub busy_kernel nat_tun_ex [] = (Inl DhcpBind, h)" "(TunSetIff (stun_TapName nat_tun_ex), Named ''tap7'') \<in> set h"
proof -
  have "case setupTunHub busy_kernel nat_tun_ex [] of
      (Inl DhcpBind, h) \<Rightarrow> (TunSetIff (stun_TapName nat_tun_ex), Named ''tap7'') \<in> set h | _ \<Rightarrow> False" by code_simp
  then show ?thesis using that by (auto split: prod.splits sum.splits hub_error.splits)
qed

theorem failed_bind_keeps_masquerade_witness:
  "\<exists>a. (AppendMasquerade ''10.42.0.0/24'' ''eth0'', a) \<in> set (snd (setupTunHub busy_kernel nat_tun_ex [])) \<and> a \<noteq> Fails"
proof -
  obtain h where h: "setupTunHub busy_kernel nat_tun_ex [] = (Inl DhcpBind, h)" by (rule busy_hub)
  have "stun_EnableNAT nat_tun_ex" "stun_PoolV4 nat_tun_ex = ''10.42.0.0/24''" "stun_WANInterface nat_tun_ex = ''eth0''"
    by (simp_all add: nat_tun_ex_def loaded_ex_def server_config_ex_def)
  with failed_bind_keeps_masquerade[OF h] h show ?thesis by auto
qed

theorem failed_hub_closes_tap_witness: "\<exists>a. (CloseTap ''tap7'', a) \<in> set (snd (setupTunHub busy_kernel nat_tun_ex []))"
proof -
  obtain h where h: "setupTunHub busy_kernel nat_tun_ex [] = (Inl DhcpBind, h)" "(TunSetIff (stun_TapName nat_tun_ex), Named ''tap7'') \<in> set h"
    by (rule busy_hub)
  then have "''tap7'' \<in> made_taps h" unfolding made_taps_def by force
  with failed_hub_closes_tap[OF h(1)] h(1) show ?thesis by auto
qed

theorem validated_hub_starts_witness:
  "\<exists>hb h. setupTunHub good_kernel nat_tun_ex [] = (Inr (Some hb), h) \<and> offerDefaultRoute (hub_dhcp hb)"
proof -
  have "stun_Enable nat_tun_ex" "stun_EnableNAT nat_tun_ex" by (simp_all add: nat_tun_ex_def loaded_ex_def server_config_ex_def)
  moreover have "\<And>h c. good_kernel h c \<noteq> Fails" by (simp add: good_kernel_def split: call.split)
  ultimately show ?thesis using validated_hub_starts[where k = good_kernel, OF nat_tun_ex] by auto
qed

theorem hub_cleanup_undoes_start_witness:
  "\<exists>hb h c. setupTunHub good_kernel nat_tun_ex [] = (Inr (Some hb), h) \<and> snd (hub_cleanup good_kernel hb h) = h @ c \<and>
     length c = 3"
proof -
  have "case setupTunHub good_kernel nat_tun_ex [] of (Inr (Some _), _) \<Rightarrow> True | _ \<Rightarrow> False" by code_simp
  then obtain hb h where s: "setupTunHub good_kernel nat_tun_ex [] = (Inr (Some hb), h)" by (auto split: sum.splits option.splits)
  from hub_cleanup_undoes_start[OF s] obtain c where c: "snd (hub_cleanup good_kernel hb h) = h @ c"
    "map fst c = [CloseDHCP] @ (if stun_EnableNAT nat_tun_ex then [DeleteMasquerade (stun_PoolV4 nat_tun_ex) (stun_WANInterface nat_tun_ex)] else []) @
       [CloseTap (hub_dev hb)]" by blast
  have "stun_EnableNAT nat_tun_ex" by (simp add: nat_tun_ex_def)
  with c(2) have "length c = 3" using length_map[of fst c] by simp
  with s c(1) show ?thesis by blast
qed

end
