(* ===== verification/ClientSession.thy ===== *)
theory ClientSession
  imports ControlClient
begin

text \<open>
  \<^verbatim>\<open>session\<close> of \<^verbatim>\<open>internal/control/client.go\<close> from the dial to its return: the resources it takes and releases, the handshake,
  the tunnel node, and the loop of heartbeats. The outcomes of the library calls and the events of the loop are arguments.
\<close>

subsection \<open>The session\<close>

datatype session_event = Tick "ack option" | CarrierEnd | Cancelled

datatype resource = Conn | Mux | Node

datatype session_act = Take resource | Drop resource | StartAcceptLoop

definition heartbeat_message :: message where
  "heartbeat_message = \<lparr>Type = ''heartbeat'', UUID = '''', Certs = [], Services = [], msg_ServiceID = '''', msg_Allow = []\<rparr>"

text \<open>The loop at the end; \<open>None\<close> while it still waits.\<close>

fun heartbeat_loop :: "client \<Rightarrow> session_event list \<Rightarrow> session_end option" where
  "heartbeat_loop c [] = None"
| "heartbeat_loop c (Cancelled # evs) = Some CtxDone"
| "heartbeat_loop c (CarrierEnd # evs) = Some CarrierClosed"
| "heartbeat_loop c (Tick a # evs) =
     (case requestResp (\<lambda>_. a) heartbeat_message c of
        Some e \<Rightarrow> Some (HeartbeatFailure e)
      | None \<Rightarrow> heartbeat_loop c evs)"

record session_env =
  dialOK :: bool
  muxOK :: bool
  streamOK :: bool
  requests :: "message \<Rightarrow> ack option"
  nodeOK :: bool
  events :: "session_event list"

text \<open>
  After the handshake: the node is started when a tunnel is configured, a failure is only logged; the deferred calls run
  when the loop returns.
\<close>

definition serve_session :: "session_env \<Rightarrow> client \<Rightarrow> client \<times> session_end option \<times> session_act list" where
  "serve_session env c =
     (let node = (tun c \<noteq> None \<and> nodeOK env);
          up = StartAcceptLoop # (if node then [Take Node] else [])
      in case heartbeat_loop c (events env) of
           None \<Rightarrow> (c, None, up)
         | Some r \<Rightarrow> (c\<lparr>connected := False\<rparr>, Some r, up @ (if node then [Drop Node] else []) @ [Drop Mux]))"

text \<open>The client afterwards, how the session ended (\<open>None\<close> while it runs) and what it did.\<close>

definition client_session :: "session_env \<Rightarrow> client \<Rightarrow> client \<times> session_end option \<times> session_act list" where
  "client_session env c =
     (if \<not> dialOK env then (c, Some DialFailure, [])
      else if \<not> muxOK env then (c, Some MuxFailure, [Take Conn, Drop Conn])
      else if \<not> streamOK env then (c, Some StreamFailure, [Take Conn, Take Mux, Drop Mux])
      else case handshake_requests (requests env) c of
             (c1, Some e) \<Rightarrow> (c1, Some (HandshakeFailure e), [Take Conn, Take Mux, Drop Mux])
           | (c1, None) \<Rightarrow> (case serve_session env c1 of (c2, r, acts) \<Rightarrow> (c2, r, [Take Conn, Take Mux] @ acts)))"

text \<open>Closing the multiplexer closes the connection under it.\<close>

definition session_released :: "session_act list \<Rightarrow> resource \<Rightarrow> bool" where
  "session_released acts x \<longleftrightarrow> Drop x \<in> set acts \<or> x = Conn \<and> Drop Mux \<in> set acts"

subsection \<open>Lemmas\<close>

lemma handshake_connected: "handshake_requests io c = (c1, None) \<Longrightarrow> connected c1 \<and> enc_set c1 \<and> uuid c1 = uuid c"
  by (auto simp: handshake_requests_def open_session_def Let_def split: option.splits)

lemma handshake_failed: "handshake_requests io c = (c1, Some e) \<Longrightarrow> \<not> connected c1"
  by (auto simp: handshake_requests_def open_session_def Let_def split: option.splits)

lemma heartbeat_loop_ticks:
  "enc_set c \<Longrightarrow> (\<forall>ev \<in> set evs. ev = Tick (Some AckOK)) \<Longrightarrow> heartbeat_loop c evs = None"
  by (induction evs) (auto simp: requestResp_def)

lemma heartbeat_turn:
  "clientID ss \<noteq> '''' \<Longrightarrow> session_turn x509 allowed sid heartbeat_message ss reg = (AckOK, Some ss, reg)"
  by (simp add: session_turn_def heartbeat_message_def)

subsection \<open>Properties\<close>

text \<open>
  C36. A session leaves nothing behind: when it has ended, for whatever reason and after any events, every connection, multiplexer and
  tunnel node it took is released, the node before the multiplexer that carries it, and the client is not connected; it
  ends without an error only when it was cancelled, and while it runs it is connected and authenticated.
\<close>

theorem session_releases_all:
  assumes "client_session env c = (c1, r, acts)" "\<not> connected c"
  shows "(r \<noteq> None \<longrightarrow> \<not> connected c1 \<and> (\<forall>x. Take x \<in> set acts \<longrightarrow> session_released acts x)) \<and>
    (Drop Node \<in> set acts \<longrightarrow> (\<exists>us. acts = us @ [Drop Node, Drop Mux])) \<and>
    (r = None \<longrightarrow> connected c1 \<and> enc_set c1 \<and> Drop Mux \<notin> set acts) \<and>
    (r = Some CtxDone \<longrightarrow> Cancelled \<in> set (events env))"
proof -
  have "heartbeat_loop c1 evs = Some CtxDone \<Longrightarrow> Cancelled \<in> set evs" for c1 evs
    by (induction c1 evs rule: heartbeat_loop.induct) (auto split: option.splits)
  then show ?thesis
    using assms handshake_connected[of "requests env" c] handshake_failed[of "requests env" c]
    by (auto simp: client_session_def serve_session_def session_released_def Let_def split: if_splits option.splits prod.splits)
qed

text \<open>
  Heartbeats keep a session up: against a server session that has authenticated the client, every heartbeat is
  acknowledged and changes neither the session nor the registry, so the loop of the client goes on for any number of them.
\<close>

theorem heartbeats_keep_session:
  assumes "clientID ss \<noteq> ''''" "enc_set c"
  shows "session_loop x509 allowed sid (replicate n heartbeat_message) ss reg = (replicate n AckOK, reg) \<and>
    heartbeat_loop c (map (\<lambda>a. Tick (Some a)) (fst (session_loop x509 allowed sid (replicate n heartbeat_message) ss reg))) = None"
proof -
  have "session_loop x509 allowed sid (replicate n heartbeat_message) ss reg = (replicate n AckOK, reg)"
    by (induction n) (simp_all add: heartbeat_turn[OF assms(1)])
  then show ?thesis using heartbeat_loop_ticks[OF assms(2), of "map (\<lambda>a. Tick (Some a)) (replicate n AckOK)"] by auto
qed

text \<open>
  A whitelist change can end a session: the client counts as connected before it has authenticated, so an update
  that reaches the stream first is refused by the server, which then closes the session without reading the authentication.
\<close>

theorem early_update_ends_session:
  "connected (open_session c) \<and>
   session_loop x509 allowed sid [update_message i al, auth_message c, register_message c] new_session reg = ([AckAuthRequired], reg)"
  by (simp add: open_session_def update_message_def new_session_def session_turn_def)

theorem heartbeats_keep_session_witness:
  "fst (session_loop x509_ex allowed_ex 3 (replicate 2 heartbeat_message) \<lparr>clientID = ''alice'', authed = Some ''alice''\<rparr> NewRegistry) =
     replicate 2 AckOK"
proof -
  have "enc_set (open_session (NewClient ''alice'' [] [] None []))" by (simp add: open_session_def)
  from conjunct1[OF heartbeats_keep_session[of "\<lparr>clientID = ''alice'', authed = Some ''alice''\<rparr>", OF _ this, of x509_ex allowed_ex 3 2 NewRegistry]]
  show ?thesis by (simp only: fst_conv control_session.simps) simp
qed

theorem session_releases_all_witness:
  "let env = \<lparr>dialOK = True, muxOK = True, streamOK = True, requests = (\<lambda>_. Some AckOK), nodeOK = True, events = [Tick (Some AckOK), CarrierEnd]\<rparr>
   in \<not> connected (fst (client_session env (NewClient ''alice'' [] [] None '''')))"
proof -
  let ?env = "\<lparr>dialOK = True, muxOK = True, streamOK = True, requests = (\<lambda>_. Some AckOK), nodeOK = True, events = [Tick (Some AckOK), CarrierEnd]\<rparr>"
  let ?c = "NewClient ''alice'' [] [] None ''''"
  let ?S = "client_session ?env ?c"
  have "?S = (fst ?S, fst (snd ?S), snd (snd ?S))" by simp
  moreover have "\<not> connected ?c" "fst (snd ?S) \<noteq> None" by code_simp+
  ultimately show ?thesis using session_releases_all[of ?env ?c] unfolding Let_def by blast
qed

end
