(* ===== verification/Lifecycle.thy ===== *)
theory Lifecycle
  imports Hub ClientSession
begin

text \<open>
  \<^verbatim>\<open>RunServer\<close> and \<^verbatim>\<open>RunClient\<close> of \<^verbatim>\<open>internal/app\<close>: the order in which the parts of a role are brought up, what is undone when
  one of them fails, and what is undone when the process ends. The carrier, the sockets and the system answer as they like;
  a run is its error and the log of what it did, in which a deferred call stands where the function returns.
\<close>

subsection \<open>The server\<close>

datatype run_end = Signalled | RouterStopped

datatype run_event = CarrierNew sb_config bool | CarrierStart bool | CarrierClose
  | HubSetup trace | HubCleanup trace
  | Listen string bool | CloseListener string
  | Serving registry "string \<rightharpoonup> string" "hub option" "banner option"

datatype run_error = BuildCarrier start_error | NewCarrier | StartCarrier | ServerRegistry start_error | TunHubError hub_error
  | ListenFailed string | BanConfig start_error | RouterError

type_synonym run = "run_error option \<times> run_event list"

definition doing :: "run_event list \<Rightarrow> run \<Rightarrow> run" where
  "doing es r = (fst r, es @ snd r)"

definition deferring :: "run_event list \<Rightarrow> run \<Rightarrow> run" where
  "deferring es r = (fst r, snd r @ es)"

definition failing :: "run_error \<Rightarrow> run" where
  "failing e = (Some e, [])"

record server_env =
  carrierNew :: "sb_config \<Rightarrow> bool"
  carrierStart :: bool
  listenOK :: "string \<Rightarrow> bool"
  system :: kernel
  ending :: run_end

definition run_router :: "server_env \<Rightarrow> run_event \<Rightarrow> run" where
  "run_router env serving = (case ending env of Signalled \<Rightarrow> None | RouterStopped \<Rightarrow> Some RouterError, [serving])"

text \<open>From the control listener on.\<close>

definition run_control :: "server_env \<Rightarrow> (string \<Rightarrow> time option) \<Rightarrow> server_config \<Rightarrow> registry \<Rightarrow> hub option \<Rightarrow> run" where
  "run_control env dur conf reg hb =
     (if \<not> listenOK env (sc_ControlAddr conf) then doing [Listen (sc_ControlAddr conf) False] (failing (ListenFailed (sc_ControlAddr conf)))
      else doing [Listen (sc_ControlAddr conf) True] (deferring [CloseListener (sc_ControlAddr conf)]
        (case setupBanner dur conf of
           Inl e \<Rightarrow> failing (BanConfig e)
         | Inr bn \<Rightarrow> run_router env (Serving reg (clientMap conf) hb bn))))"

definition run_hub :: "server_env \<Rightarrow> (string \<Rightarrow> time option) \<Rightarrow> server_config \<Rightarrow> registry \<Rightarrow> run" where
  "run_hub env dur conf reg =
     (case setupTunHub (system env) (sc_Tun conf) [] of
        (Inl e, h) \<Rightarrow> doing [HubSetup h] (failing (TunHubError e))
      | (Inr None, h) \<Rightarrow> doing [HubSetup h] (run_control env dur conf reg None)
      | (Inr (Some hb), h) \<Rightarrow>
          doing [HubSetup h] (deferring [HubCleanup (snd (hub_cleanup (system env) hb h))] (run_control env dur conf reg (Some hb))))"

definition RunServer ::
    "server_env \<Rightarrow> (string \<Rightarrow> string \<Rightarrow> string + leaf) \<Rightarrow> (string \<Rightarrow> string option) \<Rightarrow> (string \<Rightarrow> string list option) \<Rightarrow>
     (string \<Rightarrow> time option) \<Rightarrow> server_config \<Rightarrow> run" where
  "RunServer env x509 readFile certDNSNames dur conf =
     (case server_carrier certDNSNames conf of
        Inl e \<Rightarrow> failing (BuildCarrier e)
      | Inr sb \<Rightarrow>
          if \<not> carrierNew env sb then doing [CarrierNew sb False] (failing NewCarrier)
          else if \<not> carrierStart env then doing [CarrierNew sb True, CarrierStart False] (failing StartCarrier)
          else doing [CarrierNew sb True, CarrierStart True] (deferring [CarrierClose]
            (case server_registry x509 readFile conf of
               Inl e \<Rightarrow> failing (ServerRegistry e)
             | Inr reg \<Rightarrow> run_hub env dur conf reg)))"

subsection \<open>The client\<close>

datatype client_run_error = ClientBuild run_client_error | ClientCarrierNew | ClientCarrierStart | ClientCerts nat
  | ClientServices config_error | ControlDialer | AdminListen string

datatype client_run_event = CCarrierNew sb_config bool | CCarrierStart bool | CCarrierClose
  | CAdminListen string bool | CAdminClose string | CRun client "nat list"

record client_env =
  c_carrierNew :: "sb_config \<Rightarrow> bool"
  c_carrierStart :: bool
  c_dialer :: bool
  c_listenOK :: "string \<Rightarrow> bool"
  c_sessions :: "(session_end \<times> bool) list"

type_synonym client_run = "client_run_error option \<times> client_run_event list"

definition run_sessions :: "client_env \<Rightarrow> client_config \<Rightarrow> client \<Rightarrow> client_run" where
  "run_sessions env conf cc =
     (if cc_AdminListen conf = '''' then (None, [CRun cc (Run (c_sessions env))])
      else if \<not> c_listenOK env (cc_AdminListen conf) then
        (Some (AdminListen (cc_AdminListen conf)), [CAdminListen (cc_AdminListen conf) False])
      else (None, [CAdminListen (cc_AdminListen conf) True, CRun cc (Run (c_sessions env)), CAdminClose (cc_AdminListen conf)]))"

definition RunClient :: "client_env \<Rightarrow> (string \<Rightarrow> string option) \<Rightarrow> client_config \<Rightarrow> client_run" where
  "RunClient env readFile conf =
     (case client_carrier conf of
        Inl e \<Rightarrow> (Some (ClientBuild e), [])
      | Inr (tok, sb) \<Rightarrow>
          if \<not> c_carrierNew env sb then (Some ClientCarrierNew, [CCarrierNew sb False])
          else if \<not> c_carrierStart env then (Some ClientCarrierStart, [CCarrierNew sb True, CCarrierStart False])
          else
            let (e, es) =
              (case buildCerts readFile 0 (cc_Certs conf) of
                 Inl i \<Rightarrow> (Some (ClientCerts i), [])
               | Inr crts \<Rightarrow>
                   (case buildServices (cc_Publish conf) of
                      Inl pe \<Rightarrow> (Some (ClientServices pe), [])
                    | Inr srvs \<Rightarrow>
                        if \<not> c_dialer env then (Some ControlDialer, [])
                        else run_sessions env conf
                               (NewClient (tok_UUID tok) crts srvs (buildTunParams (cc_Tun conf)) (tok_ServerAddr tok))))
            in (e, [CCarrierNew sb True, CCarrierStart True] @ es @ [CCarrierClose]))"

subsection \<open>Lemmas\<close>

lemma run_parts [simp]:
  "fst (doing es r) = fst r" "snd (doing es r) = es @ snd r" "fst (deferring es r) = fst r" "snd (deferring es r) = snd r @ es"
  "fst (failing e) = Some e" "snd (failing e) = []" "snd (run_router env sv) = [sv]"
  by (simp_all add: doing_def deferring_def failing_def run_router_def)

text \<open>A part is balanced when what it leaves behind is undone in reverse order: listeners by closing, the hub by its cleanup.\<close>

lemma run_control_shape:
  obtains (refused) "snd (run_control env dur conf reg hb) = [Listen (sc_ControlAddr conf) False]"
    "fst (run_control env dur conf reg hb) = Some (ListenFailed (sc_ControlAddr conf))"
  | (banless) e where "snd (run_control env dur conf reg hb) = [Listen (sc_ControlAddr conf) True, CloseListener (sc_ControlAddr conf)]"
    "fst (run_control env dur conf reg hb) = Some (BanConfig e)" "setupBanner dur conf = Inl e"
  | (served) bn where "snd (run_control env dur conf reg hb) =
      [Listen (sc_ControlAddr conf) True, Serving reg (clientMap conf) hb bn, CloseListener (sc_ControlAddr conf)]"
    "setupBanner dur conf = Inr bn"
  by (cases "listenOK env (sc_ControlAddr conf)"; cases "setupBanner dur conf") (auto simp: run_control_def)

lemma run_hub_shape:
  obtains (failed) e h where "run_hub env dur conf reg = (Some (TunHubError e), [HubSetup h])" "setupTunHub (system env) (sc_Tun conf) [] = (Inl e, h)"
  | (off) h where "setupTunHub (system env) (sc_Tun conf) [] = (Inr None, h)"
      "run_hub env dur conf reg = doing [HubSetup h] (run_control env dur conf reg None)"
  | (on) hb h where "setupTunHub (system env) (sc_Tun conf) [] = (Inr (Some hb), h)"
      "run_hub env dur conf reg =
         doing [HubSetup h] (deferring [HubCleanup (snd (hub_cleanup (system env) hb h))] (run_control env dur conf reg (Some hb)))"
  by (cases "setupTunHub (system env) (sc_Tun conf) []" rule: prod.exhaust; cases "fst (setupTunHub (system env) (sc_Tun conf) [])")
    (auto simp: run_hub_def failing_def doing_def split: sum.splits option.splits)

subsection \<open>Properties\<close>



lemma loaded_banner:
  assumes "LoadServer dur cn c0 = Inr conf"
  shows "\<exists>bn. setupBanner dur conf = Inr bn"
  using LoadServer_ban[OF assms] traverse_exempt[of "ban_Exempt (sc_Ban conf)"]
  by (cases "ban_Enable (sc_Ban conf)") (auto simp: setupBanner_def Let_def)

lemma loaded_hub:
  assumes "LoadServer dur cn c0 = Inr conf" "\<And>h c. k h c \<noteq> Fails"
  shows "\<exists>hb h. setupTunHub k (sc_Tun conf) [] = (Inr hb, h) \<and> (hb \<noteq> None \<longleftrightarrow> stun_Enable (sc_Tun conf))"
  using assms(1)
proof (rule LoadServer_Inr)
  fix tn bn tc
  assume c: "conf = (server_defaults c0)\<lparr>sc_Tun := tn, sc_Ban := bn, sc_Tuic := tc\<rparr>"
    and t: "if stun_Enable (sc_Tun c0) then validateServerTun (sc_Tun c0) = Inr tn else tn = sc_Tun c0"
  show ?thesis
  proof (cases "stun_Enable tn")
    case True
    with t have "validateServerTun (sc_Tun c0) = Inr tn" by (auto split: if_splits)
    from hub_starts[where k = k, OF this True assms(2)] show ?thesis using c True by fastforce
  next
    case False
    then show ?thesis using c by (simp add: setupTunHub_def)
  qed
qed

text \<open>
  C35. A configuration that loads is one the server runs: when the carrier document can be built from it, its certificates and services
  can be registered, and the system refuses nothing, the server reaches its router, with the throttle it configures and a tunnel hub exactly
  when the tunnel section is enabled. Neither the tunnel nor the throttle section can fail at that point: loading has validated them.
\<close>

theorem loaded_server_serves:
  assumes "LoadServer dur cn c0 = Inr conf" "server_carrier cn conf = Inr sb" "server_registry x509 rf conf = Inr reg"
    and "\<And>s. carrierNew env s" "carrierStart env" "\<And>a. listenOK env a" "\<And>h c. system env h c \<noteq> Fails"
  shows "\<exists>hb bn. Serving reg (clientMap conf) hb bn \<in> set (snd (RunServer env x509 rf cn dur conf)) \<and>
    (hb \<noteq> None \<longleftrightarrow> stun_Enable (sc_Tun conf)) \<and> setupBanner dur conf = Inr bn \<and>
    fst (RunServer env x509 rf cn dur conf) = (case ending env of Signalled \<Rightarrow> None | RouterStopped \<Rightarrow> Some RouterError)"
proof -
  obtain bn where bn: "setupBanner dur conf = Inr bn" using loaded_banner[OF assms(1)] by blast
  obtain hb h where hb: "setupTunHub (system env) (sc_Tun conf) [] = (Inr hb, h)" "hb \<noteq> None \<longleftrightarrow> stun_Enable (sc_Tun conf)"
    using loaded_hub[where k = "system env", OF assms(1,7)] by blast
  have c: "snd (run_control env dur conf reg b) =
      [Listen (sc_ControlAddr conf) True, Serving reg (clientMap conf) b bn, CloseListener (sc_ControlAddr conf)]"
    "fst (run_control env dur conf reg b) = (case ending env of Signalled \<Rightarrow> None | RouterStopped \<Rightarrow> Some RouterError)" for b
    using assms(6) bn by (simp_all add: run_control_def run_router_def doing_def deferring_def)
  have "Serving reg (clientMap conf) hb bn \<in> set (snd (run_hub env dur conf reg))"
    "fst (run_hub env dur conf reg) = (case ending env of Signalled \<Rightarrow> None | RouterStopped \<Rightarrow> Some RouterError)"
    using hb(1) c by (simp_all add: run_hub_def split: option.split)
  then show ?thesis using assms(2-5) hb(2) bn by (auto simp: RunServer_def)
qed

definition good_env :: server_env where
  "good_env = \<lparr>carrierNew = \<lambda>_. True, carrierStart = True, listenOK = \<lambda>_. True, system = good_kernel, ending = Signalled\<rparr>"

text \<open>
  A client leaves nothing behind: once the carrier has started it is closed, last, whatever fails after it, and an
  admin listener that was opened is closed. The client that runs has the identifier of the token it was given, the certificates and the services of its
  configuration, and it reaches the server at the token's address.
\<close>

theorem client_run_releases:
  assumes "RunClient env rf conf = (e, log)"
  shows "(CCarrierStart True \<in> set log \<longrightarrow> last log = CCarrierClose) \<and>
    (\<forall>a. CAdminListen a True \<in> set log \<longrightarrow> CAdminClose a \<in> set log) \<and>
    (\<forall>cc ws. CRun cc ws \<in> set log \<longrightarrow> e = None \<and> (\<exists>tok sb crts srvs. client_carrier conf = Inr (tok, sb) \<and>
       buildCerts rf 0 (cc_Certs conf) = Inr crts \<and> buildServices (cc_Publish conf) = Inr srvs \<and>
       cc = NewClient (tok_UUID tok) crts srvs (buildTunParams (cc_Tun conf)) (tok_ServerAddr tok) \<and> ws = Run (c_sessions env)))"
  using assms unfolding RunClient_def run_sessions_def Let_def
  by (auto split: sum.splits if_splits prod.splits)


lemma good_env [simp]:
  "carrierNew good_env s" "carrierStart good_env" "listenOK good_env a" "system good_env h c \<noteq> Fails" "ending good_env = Signalled"
  by (simp_all add: good_env_def good_kernel_def split: call.split)

lemma loaded_ex_carrier: "\<exists>sb. server_carrier names_ex loaded_ex = Inr sb"
  by (rule exI, rule projr_Inr) code_simp

lemma loaded_ex_registry: "server_registry x509_ex readFile_ex loaded_ex = Inr registry_ex"
proof -
  have c: "sc_Certs loaded_ex = sc_Certs server_config_ex" "sc_Publish loaded_ex = sc_Publish server_config_ex" by (simp_all add: loaded_ex_def)
  show ?thesis using registry_ex unfolding server_registry_def c .
qed

theorem loaded_server_serves_witness:
  "\<exists>hb bn. Serving registry_ex (clientMap loaded_ex) (Some hb) (Some bn) \<in> set (snd (RunServer good_env x509_ex readFile_ex names_ex dur_ex loaded_ex))"
proof -
  obtain sb where sb: "server_carrier names_ex loaded_ex = Inr sb" using loaded_ex_carrier by blast
  have "stun_Enable (sc_Tun loaded_ex)" "setupBanner dur_ex loaded_ex \<noteq> Inr None"
    by (simp_all add: loaded_ex_def server_config_ex_def setupBanner_def split: sum.split)
  then show ?thesis using loaded_server_serves[where env = good_env, OF LoadServer_ex sb loaded_ex_registry] by fastforce
qed


theorem client_run_releases_witness:
  "let env = \<lparr>c_carrierNew = \<lambda>_. True, c_carrierStart = True, c_dialer = False, c_listenOK = \<lambda>_. True, c_sessions = []\<rparr>
   in CCarrierStart True \<in> set (snd (RunClient env readFile_ex token_client_ex)) \<and>
      last (snd (RunClient env readFile_ex token_client_ex)) = CCarrierClose"
proof -
  let ?env = "\<lparr>c_carrierNew = \<lambda>_. True, c_carrierStart = True, c_dialer = False, c_listenOK = \<lambda>_. True, c_sessions = []\<rparr>"
  have "CCarrierStart True \<in> set (snd (RunClient ?env readFile_ex token_client_ex))"
    by (simp add: RunClient_def carrier_ex split: prod.split)
  then show ?thesis using client_run_releases[OF prod.collapse[symmetric], of ?env readFile_ex token_client_ex] by simp
qed

end
