(* ===== verification/Cli.thy ===== *)
theory Cli
  imports App
begin

text \<open>
  \<^verbatim>\<open>cmd/tbox/main.go\<close> and the admin API of \<^verbatim>\<open>internal/app/admin.go\<close>: the command line. The files on disk are
  a map from paths to decoded configurations (the YAML codec is library code); what a command prints is its printed list.
  The long-running roles end in a value that says which role is started with which configuration.
\<close>

subsection \<open>Arguments\<close>

datatype cli_error = UnexpectedArgument string | Usage string | MissingValue string | ConfigRequired | BadCarrier string
  | MissingSubcommand | UnknownSubcommand string | FileError | LoadError config_error
  | InitError init_error | AddError add_client_error | TokenError token_for_error | AdminFailed admin_error

text \<open>The value after a flag and the arguments after it: a flag at the end has the empty value.\<close>

fun nextArg :: "string list \<Rightarrow> string \<times> string list" where
  "nextArg [] = ('''', [])"
| "nextArg (x # xs) = (x, xs)"

lemma nextArg_length [termination_simp]: "length (snd (nextArg xs)) \<le> length xs"
  by (cases xs) simp_all

definition is_config_flag :: "string \<Rightarrow> bool" where
  "is_config_flag a \<longleftrightarrow> a = ''-c'' \<or> a = ''--config''"

fun flagConfig :: "string list \<Rightarrow> cli_error + string" where
  "flagConfig [] = Inl ConfigRequired"
| "flagConfig (a # as) =
     (if is_config_flag a then (case as of [] \<Rightarrow> Inl (MissingValue a) | x # _ \<Rightarrow> Inr x) else flagConfig as)"

record init_opts =
  io_path :: string
  io_addr :: string
  io_mimic :: string
  io_listen :: string
  io_client :: string
  io_force :: bool

definition init_defaults :: init_opts where
  "init_defaults = \<lparr>io_path = '''', io_addr = '''', io_mimic = ''www.microsoft.com:443'', io_listen = '':443'', io_client = ''default'',
     io_force = False\<rparr>"

fun init_args :: "string list \<Rightarrow> init_opts \<Rightarrow> cli_error + init_opts" where
  "init_args [] opts = Inr opts"
| "init_args (a # as) opts =
     (if is_config_flag a then init_args (snd (nextArg as)) (opts\<lparr>io_path := fst (nextArg as)\<rparr>)
      else if a = ''--addr'' then init_args (snd (nextArg as)) (opts\<lparr>io_addr := fst (nextArg as)\<rparr>)
      else if a = ''--mimic'' then init_args (snd (nextArg as)) (opts\<lparr>io_mimic := fst (nextArg as)\<rparr>)
      else if a = ''--listen'' then init_args (snd (nextArg as)) (opts\<lparr>io_listen := fst (nextArg as)\<rparr>)
      else if a = ''--client'' then init_args (snd (nextArg as)) (opts\<lparr>io_client := fst (nextArg as)\<rparr>)
      else if a = ''--force'' then init_args as (opts\<lparr>io_force := True\<rparr>)
      else Inl (UnexpectedArgument a))"

fun add_args :: "string list \<Rightarrow> string \<times> string \<Rightarrow> cli_error + (string \<times> string)" where
  "add_args [] (path, nm) = Inr (path, nm)"
| "add_args (a # as) (path, nm) =
     (if is_config_flag a then add_args (snd (nextArg as)) (fst (nextArg as), nm)
      else if nm = '''' then add_args as (path, a)
      else Inl (UnexpectedArgument a))"

record gen_opts =
  go_path :: string
  go_client :: string
  go_carrier :: string

text \<open>Other arguments are skipped.\<close>

fun gen_args :: "string list \<Rightarrow> gen_opts \<Rightarrow> gen_opts" where
  "gen_args [] opts = opts"
| "gen_args (a # as) opts =
     (if is_config_flag a then gen_args (snd (nextArg as)) (opts\<lparr>go_path := fst (nextArg as)\<rparr>)
      else if a = ''--client'' then gen_args (snd (nextArg as)) (opts\<lparr>go_client := fst (nextArg as)\<rparr>)
      else if a = ''--carrier'' then gen_args (snd (nextArg as)) (opts\<lparr>go_carrier := fst (nextArg as)\<rparr>)
      else gen_args as opts)"

text \<open>The configuration path and the remaining words of \<^verbatim>\<open>whitelist\<close>.\<close>

fun whitelist_args :: "string list \<Rightarrow> string \<times> string list \<Rightarrow> cli_error + (string \<times> string list)" where
  "whitelist_args [] (path, rest) = Inr (path, rest)"
| "whitelist_args (a # as) (path, rest) =
     (if is_config_flag a
      then (case as of [] \<Rightarrow> Inl (MissingValue a) | p # as' \<Rightarrow> whitelist_args as' (p, rest))
      else whitelist_args as (path, rest @ [a]))"

subsection \<open>Commands\<close>

type_synonym server_files = "string \<rightharpoonup> server_config"

datatype printed = Wrote string string string | TokenOf string token

text \<open>The random bytes, the key pair and the key derivation are arguments.\<close>

definition cmdInitServer ::
    "(bytes \<Rightarrow> bytes option) \<Rightarrow> string \<times> string \<Rightarrow> bytes \<Rightarrow> bytes \<Rightarrow> string list \<Rightarrow> server_files \<Rightarrow>
     server_files \<times> (cli_error + printed list)" where
  "cmdInitServer derive kp sid uid args fs =
     (case init_args args init_defaults of
        Inl e \<Rightarrow> (fs, Inl e)
      | Inr opts \<Rightarrow>
          if io_path opts = '''' \<or> io_addr opts = '''' then (fs, Inl (Usage ''init-server''))
          else case InitServer derive kp sid uid (fs (io_path opts) \<noteq> None) (io_addr opts) (io_mimic opts) (io_listen opts)
                      (io_client opts) (io_force opts) of
                 (written, r) \<Rightarrow>
                   (case written of None \<Rightarrow> fs | Some c \<Rightarrow> fs(io_path opts \<mapsto> c),
                    case r of
                      Inl e \<Rightarrow> Inl (InitError e)
                    | Inr tok \<Rightarrow> Inr [Wrote (io_path opts) (io_mimic opts) (io_client opts), TokenOf (io_client opts) tok]))"

definition cmdAddClient ::
    "(string \<Rightarrow> time option) \<Rightarrow> (string \<Rightarrow> string list option) \<Rightarrow> (bytes \<Rightarrow> bytes option) \<Rightarrow> bytes \<Rightarrow> string list \<Rightarrow> server_files \<Rightarrow>
     server_files \<times> (cli_error + printed list)" where
  "cmdAddClient dur certDNSNames derive random args fs =
     (case add_args args ('''', '''') of
        Inl e \<Rightarrow> (fs, Inl e)
      | Inr (path, nm) \<Rightarrow>
          if path = '''' \<or> nm = '''' then (fs, Inl (Usage ''add-client''))
          else case fs path of
                 None \<Rightarrow> (fs, Inl FileError)
               | Some c0 \<Rightarrow>
                   (case AddClient dur certDNSNames derive random c0 nm of
                      (written, r) \<Rightarrow>
                        (case written of None \<Rightarrow> fs | Some c \<Rightarrow> fs(path \<mapsto> c),
                         case r of Inl e \<Rightarrow> Inl (AddError e) | Inr tok \<Rightarrow> Inr [TokenOf nm tok])))"

text \<open>The tokens printed before the first error, and that error.\<close>

fun print_tokens :: "(string \<Rightarrow> token_for_error + token) \<Rightarrow> string list \<Rightarrow> printed list \<times> cli_error option" where
  "print_tokens tokenFor [] = ([], None)"
| "print_tokens tokenFor (n # ns) =
     (case tokenFor n of
        Inl e \<Rightarrow> ([], Some (TokenError e))
      | Inr tok \<Rightarrow> (case print_tokens tokenFor ns of (out, e) \<Rightarrow> (TokenOf n tok # out, e)))"

definition cmdGenToken ::
    "(string \<Rightarrow> time option) \<Rightarrow> (string \<Rightarrow> string list option) \<Rightarrow> (bytes \<Rightarrow> bytes option) \<Rightarrow> string list \<Rightarrow> server_files \<Rightarrow>
     printed list \<times> cli_error option" where
  "cmdGenToken dur certDNSNames derive args fs =
     (let opts = gen_args args \<lparr>go_path = '''', go_client = '''', go_carrier = ''''\<rparr>;
          carrier = (if go_carrier opts = '''' then ''reality'' else go_carrier opts)
      in if go_path opts = '''' then ([], Some ConfigRequired)
         else if carrier \<noteq> ''reality'' \<and> carrier \<noteq> ''tuic'' then ([], Some (BadCarrier carrier))
         else case fs (go_path opts) of
                None \<Rightarrow> ([], Some FileError)
              | Some c0 \<Rightarrow>
                  (case LoadServer dur certDNSNames c0 of
                     Inl e \<Rightarrow> ([], Some (LoadError e))
                   | Inr conf \<Rightarrow>
                       print_tokens (\<lambda>n. token_value derive conf n carrier)
                         (if go_client opts = '''' then map cred_Name (sc_Clients conf) else [go_client opts])))"

text \<open>The configuration a long-running role is started with.\<close>

definition cmdServer ::
    "(string \<Rightarrow> time option) \<Rightarrow> (string \<Rightarrow> string list option) \<Rightarrow> string list \<Rightarrow> server_files \<Rightarrow> cli_error + server_config" where
  "cmdServer dur certDNSNames args fs =
     (case flagConfig args of
        Inl e \<Rightarrow> Inl e
      | Inr path \<Rightarrow>
          (case fs path of
             None \<Rightarrow> Inl FileError
           | Some c0 \<Rightarrow> map_sum LoadError id (LoadServer dur certDNSNames c0)))"

definition cmdClient :: "string list \<Rightarrow> (string \<rightharpoonup> client_config) \<Rightarrow> cli_error + client_config" where
  "cmdClient args fs =
     (case flagConfig args of
        Inl e \<Rightarrow> Inl e
      | Inr path \<Rightarrow> (case fs path of None \<Rightarrow> Inl FileError | Some c0 \<Rightarrow> map_sum LoadError id (LoadClient c0)))"

subsection \<open>The admin API and the whitelist command\<close>

datatype admin_body = Unreadable | SetRequest string "string list"

datatype admin_response = Entries "(string \<times> string list) list" | OKResponse | BadRequest "client_error option" | MethodNotAllowed

definition admin_entries :: "client \<Rightarrow> (string \<times> string list) list" where
  "admin_entries c = map (\<lambda>i. (i, case Whitelist c i of Some al \<Rightarrow> al | None \<Rightarrow> [])) (ServiceIDs c)"

definition admin_handler ::
    "(message \<Rightarrow> ack option) \<Rightarrow> string \<Rightarrow> admin_body \<Rightarrow> client \<Rightarrow> client \<times> admin_response" where
  "admin_handler io method body c =
     (if method = ''GET'' then (c, Entries (admin_entries c))
      else if method = ''POST'' then
        (case body of
           Unreadable \<Rightarrow> (c, BadRequest None)
         | SetRequest service al \<Rightarrow>
             (case ClientUpdateWhitelist io service al c of
                (c1, None) \<Rightarrow> (c1, OKResponse)
              | (c1, Some e) \<Rightarrow> (c1, BadRequest (Some e))))
      else (c, MethodNotAllowed))"

datatype show_line = NoServices | AllowAll string | AllowOnly string "string list"

definition WhitelistShow :: "client \<Rightarrow> show_line list" where
  "WhitelistShow c =
     (let entries = admin_entries c in
      if entries = [] then [NoServices]
      else map (\<lambda>(i, al). if al = [] then AllowAll i else AllowOnly i al) entries)"

definition cmdWhitelist ::
    "(message \<Rightarrow> ack option) \<Rightarrow> string list \<Rightarrow> (string \<rightharpoonup> client_config) \<Rightarrow> client \<Rightarrow> client \<times> (cli_error + show_line list)" where
  "cmdWhitelist io args fs c =
     (case whitelist_args args ('''', []) of
        Inl e \<Rightarrow> (c, Inl e)
      | Inr (path, rest) \<Rightarrow>
          if path = '''' then (c, Inl ConfigRequired)
          else case fs path of
                 None \<Rightarrow> (c, Inl FileError)
               | Some c0 \<Rightarrow>
                   (case LoadClient c0 of
                      Inl e \<Rightarrow> (c, Inl (LoadError e))
                    | Inr _ \<Rightarrow>
                        let done = (\<lambda>(c1, e). (c1, case e of None \<Rightarrow> Inr [] | Some e \<Rightarrow> Inl (AdminFailed e))) in
                        (case rest of
                           [] \<Rightarrow> (c, Inl MissingSubcommand)
                         | sub # ws \<Rightarrow>
                             if sub = ''show'' then (c, Inr (WhitelistShow c))
                             else if sub = ''set'' \<or> sub = ''add'' \<or> sub = ''remove'' then
                               (case ws of
                                  [] \<Rightarrow> (c, Inl (Usage sub))
                                | service # ips \<Rightarrow>
                                    if sub = ''set'' then done (postWhitelist io service ips c)
                                    else if sub = ''add'' then done (WhitelistAdd io service ips c)
                                    else done (WhitelistRemove io service ips c))
                             else (c, Inl (UnknownSubcommand sub)))))"

text \<open>The exit code: \<open>run\<close> says whether a command's error is nil.\<close>

definition tbox_main :: "(string \<Rightarrow> string list \<Rightarrow> bool) \<Rightarrow> string list \<Rightarrow> nat" where
  "tbox_main run args =
     (case args of
        [] \<Rightarrow> 2
      | cmd # rest \<Rightarrow>
          if cmd \<in> set [''server'', ''client'', ''init-server'', ''add-client'', ''gen-keypair'', ''gen-token'', ''whitelist'']
          then (if run cmd rest then 0 else 1)
          else if cmd \<in> set [''version'', ''-v'', ''--version'', ''-h'', ''--help'', ''help''] then 0
          else 2)"

subsection \<open>Lemmas\<close>

lemma find_map_fst: "find (\<lambda>(i, _). i = s) (map (\<lambda>i. (i, f i)) is) = map_option (\<lambda>i. (i, f i)) (find (\<lambda>i. i = s) is)"
  by (induction "is") auto

text \<open>What the commands read and write over the admin API is what the handler does.\<close>

lemma fetchAllow_admin:
  "fetchAllow c s = (case find (\<lambda>(i, _). i = s) (admin_entries c) of
     None \<Rightarrow> Inl (ServiceNotFound s) | Some (_, al) \<Rightarrow> Inr al)"
  by (simp add: fetchAllow_def admin_entries_def find_map_fst split: option.split)

lemma postWhitelist_admin:
  "postWhitelist io s al c = (case admin_handler io ''POST'' (SetRequest s al) c of
     (c1, BadRequest (Some e)) \<Rightarrow> (c1, Some (AdminError e)) | (c1, _) \<Rightarrow> (c1, None))"
  by (simp add: postWhitelist_def admin_handler_def split: prod.split option.split)

lemma print_tokens_all:
  "print_tokens f ns = (out, e) \<Longrightarrow>
     \<exists>k \<le> length ns. list_all2 (\<lambda>n x. \<exists>tok. f n = Inr tok \<and> x = TokenOf n tok) (take k ns) out \<and>
       (case e of None \<Rightarrow> k = length ns | Some er \<Rightarrow> k < length ns \<and> (\<exists>te. f (ns ! k) = Inl te \<and> er = TokenError te))"
proof (induction ns arbitrary: out e)
  case (Cons n ns)
  show ?case
  proof (cases "f n")
    case (Inl te)
    with Cons.prems show ?thesis by (intro exI[of _ 0]) auto
  next
    case (Inr tok)
    obtain out1 e1 where p: "print_tokens f ns = (out1, e1)" by fastforce
    with Cons.prems Inr have o: "out = TokenOf n tok # out1" "e = e1" by simp_all
    from Cons.IH[OF p] obtain k where "k \<le> length ns"
      "list_all2 (\<lambda>n x. \<exists>tok. f n = Inr tok \<and> x = TokenOf n tok) (take k ns) out1"
      "case e1 of None \<Rightarrow> k = length ns | Some er \<Rightarrow> k < length ns \<and> (\<exists>te. f (ns ! k) = Inl te \<and> er = TokenError te)" by blast
    then show ?thesis using Inr o by (intro exI[of _ "Suc k"]) (auto split: option.splits)
  qed
qed simp

subsection \<open>Properties\<close>

definition render_init :: "init_opts \<Rightarrow> string list" where
  "render_init opts =
     [''-c'', io_path opts, ''--addr'', io_addr opts, ''--mimic'', io_mimic opts, ''--listen'', io_listen opts, ''--client'', io_client opts] @
     (if io_force opts then [''--force''] else [])"

text \<open>
  The options of \<^verbatim>\<open>init-server\<close> are read back as written, whatever the values are: also a value
  that looks like a flag is taken as the value.
\<close>

theorem init_options_roundtrip: "init_args (render_init opts) init_defaults = Inr opts"
  by (simp add: render_init_def init_defaults_def is_config_flag_def)



text \<open>
  A flag without a value breaks the server: \<^verbatim>\<open>init-server\<close> with \<open>--mimic\<close> as its last argument takes the empty
  value without a word and writes a configuration that the server then refuses to load.
\<close>

theorem dangling_mimic_writes_unusable_config:
  assumes "fs p = None" "p \<noteq> ''''" "a \<noteq> ''''" "snd kp \<noteq> ''''"
  shows "\<exists>fs1 out. cmdInitServer derive kp sid uid [''-c'', p, ''--addr'', a, ''--mimic''] fs = (fs1, Inr out) \<and>
    cmdServer dur cn [''-c'', p] fs1 = Inl (LoadError MimicRequired)"
proof -
  let ?c = "initial_config kp sid uid a '''' '':443'' ''default''"
  let ?o = "\<lparr>io_path = p, io_addr = a, io_mimic = '''', io_listen = '':443'', io_client = ''default'', io_force = False\<rparr>"
  have args: "init_args [''-c'', p, ''--addr'', a, ''--mimic''] init_defaults = Inr ?o" by (simp add: init_defaults_def is_config_flag_def)
  obtain tok where "token_value derive ?c ''default'' ''reality'' = Inr tok"
    using initial_config_token[where derive = derive, OF assms(4,3) refl] by blast
  then have "\<exists>out. cmdInitServer derive kp sid uid [''-c'', p, ''--addr'', a, ''--mimic''] fs = (fs(p \<mapsto> ?c), Inr out)"
    using assms(1-3) by (simp add: cmdInitServer_def args InitServer_def Let_def del: init_args.simps)
  moreover have "cmdServer dur cn [''-c'', p] (fs(p \<mapsto> ?c)) = Inl (LoadError MimicRequired)"
    by (simp add: cmdServer_def is_config_flag_def LoadServer_def server_defaults_def initial_config_def)
  ultimately show ?thesis by blast
qed

theorem dangling_mimic_writes_unusable_config_witness:
  "\<exists>fs1 out. cmdInitServer (\<lambda>_. None) (''k'', ''q'') [] [] [''-c'', ''s.yaml'', ''--addr'', ''vps.example'', ''--mimic''] Map.empty = (fs1, Inr out)"
  using dangling_mimic_writes_unusable_config[of Map.empty "''s.yaml''" "''vps.example''" "(''k'', ''q'')" "\<lambda>_. None" "[]" "[]" dur_ex names_ex] by auto

lemma find_client_hit:
  "(\<exists>c \<in> set cs. cred_Name c = nm) \<Longrightarrow>
   \<exists>c \<in> set cs. fold (\<lambda>c acc. if cred_Name c = nm then (cred_UUID c, cred_TuicPassword c) else acc) cs acc = (cred_UUID c, cred_TuicPassword c)"
proof (induction cs arbitrary: acc)
  case (Cons x cs)
  show ?case
  proof (cases "\<exists>c \<in> set cs. cred_Name c = nm")
    case True
    from Cons.IH[OF True] show ?thesis by fastforce
  next
    case False
    then have "fold (\<lambda>c acc. if cred_Name c = nm then (cred_UUID c, cred_TuicPassword c) else acc) cs a = a" for a
      by (induction cs arbitrary: a) auto
    with False Cons.prems show ?thesis by auto
  qed
qed simp

lemma token_value_known:
  assumes "c \<in> set (sc_Clients conf)" "\<forall>c \<in> set (sc_Clients conf). cred_UUID c \<noteq> ''''" "sc_ServerAddr conf \<noteq> ''''" "sc_RealityPublicKey conf \<noteq> ''''"
  shows "\<exists>tok. token_value derive conf (cred_Name c) ''reality'' = Inr tok \<and> check_token tok = None \<and> clientMap conf (tok_UUID tok) \<noteq> None"
proof -
  obtain k where k: "k \<in> set (sc_Clients conf)" "find_client conf (cred_Name c) = (cred_UUID k, cred_TuicPassword k)"
    using find_client_hit[of "sc_Clients conf" "cred_Name c" "('''', '''')"] assms(1) by (auto simp: find_client_def)
  have u: "cred_UUID k \<noteq> ''''" using k(1) assms(2) by blast
  moreover have "clientMap conf (cred_UUID k) \<noteq> None" unfolding clientMap_iff using k(1) by blast
  ultimately show ?thesis using k(2) assms(3,4)
    by (simp add: token_value_def Let_def check_token_def Carrier_def base_token_def)
qed

text \<open>
  \<^verbatim>\<open>gen-token\<close> prints a token for every client: for an accepted configuration with an address, a public key and client identifiers,
  it prints, in the order of the configuration, one token per client, each of which a client decodes and the server's control plane knows.
\<close>

theorem gen_token_prints_every_client:
  assumes "fs p = Some c0" "p \<noteq> ''''" "LoadServer dur cn c0 = Inr conf" "sc_ServerAddr conf \<noteq> ''''" "sc_RealityPublicKey conf \<noteq> ''''"
    and "\<forall>c \<in> set (sc_Clients conf). cred_UUID c \<noteq> ''''"
  shows "\<exists>out. cmdGenToken dur cn derive [''-c'', p] fs = (out, None) \<and>
    list_all2 (\<lambda>c x. \<exists>tok. x = TokenOf (cred_Name c) tok \<and> check_token tok = None \<and> clientMap conf (tok_UUID tok) \<noteq> None)
      (sc_Clients conf) out"
proof -
  let ?f = "\<lambda>n. token_value derive conf n ''reality''"
  let ?ns = "map cred_Name (sc_Clients conf)"
  note known = token_value_known[where derive = derive, OF _ assms(6,4,5)]
  obtain out e where p: "print_tokens ?f ?ns = (out, e)" by fastforce
  from print_tokens_all[OF p] obtain k where k: "k \<le> length ?ns"
    "list_all2 (\<lambda>n x. \<exists>tok. ?f n = Inr tok \<and> x = TokenOf n tok) (take k ?ns) out"
    "case e of None \<Rightarrow> k = length ?ns | Some er \<Rightarrow> k < length ?ns \<and> (\<exists>te. ?f (?ns ! k) = Inl te \<and> er = TokenError te)" by blast
  have e: "e = None"
  proof (rule ccontr)
    assume "e \<noteq> None"
    with k(3) obtain te where l: "k < length (sc_Clients conf)" "?f (cred_Name (sc_Clients conf ! k)) = Inl te" by auto
    from known[OF nth_mem[OF l(1)]] l(2) show False by simp
  qed
  with k have "list_all2 (\<lambda>n x. \<exists>tok. ?f n = Inr tok \<and> x = TokenOf n tok) ?ns out" by simp
  then have "list_all2 (\<lambda>c x. \<exists>tok. x = TokenOf (cred_Name c) tok \<and> check_token tok = None \<and> clientMap conf (tok_UUID tok) \<noteq> None)
      (sc_Clients conf) out"
    unfolding list_all2_map1 using known by (fastforce intro: list.rel_mono_strong)
  moreover have "cmdGenToken dur cn derive [''-c'', p] fs = (out, None)"
    using assms(1-3) p e by (simp add: cmdGenToken_def is_config_flag_def)
  ultimately show ?thesis by blast
qed

theorem gen_token_prints_every_client_witness:
  "\<exists>out. cmdGenToken dur_ex names_ex (\<lambda>_. None) [''-c'', ''s.yaml''] [''s.yaml'' \<mapsto> server_config_ex] = (out, None) \<and> length out = 1"
proof -
  let ?c = "loaded_ex"
  have c: "sc_ServerAddr ?c \<noteq> ''''" "sc_RealityPublicKey ?c \<noteq> ''''" "list_all (\<lambda>c. cred_UUID c \<noteq> '''') (sc_Clients ?c)" "length (sc_Clients ?c) = 1"
    by code_simp+
  then have "\<forall>c \<in> set (sc_Clients ?c). cred_UUID c \<noteq> ''''" by (simp add: list_all_iff)
  from gen_token_prints_every_client[of "[''s.yaml'' \<mapsto> server_config_ex]" "''s.yaml''", OF _ _ LoadServer_ex c(1,2) this, of "\<lambda>_. None"] c(4)
  show ?thesis by (auto dest: list_all2_lengthD)
qed

text \<open>
  The whitelist commands act on the running client's lists: \<^verbatim>\<open>show\<close> lists every published service with the list
  it currently holds, and after a \<^verbatim>\<open>set\<close> that succeeds it shows the new list for that service and the old ones for the others.
\<close>

theorem set_then_show:
  assumes "fs p = Some cc" "p \<noteq> ''''" "LoadClient cc = Inr cc'"
    and "cmdWhitelist io ([''-c'', p, ''set'', s] @ ips) fs c = (c1, Inr out)"
    and "\<forall>a \<in> set ips. \<not> is_config_flag a" "\<not> is_config_flag s"
  shows "out = [] \<and> s \<in> set (ServiceIDs c) \<and>
    admin_entries c1 = map (\<lambda>(i, al). (i, if i = s then ips else al)) (admin_entries c)"
proof -
  have w: "whitelist_args as (q, r) = Inr (q, r @ as)" if "\<forall>a \<in> set as. \<not> is_config_flag a" for as q r
    using that by (induction as arbitrary: r) auto
  have "whitelist_args ([''-c'', p, ''set'', s] @ ips) ('''', []) = Inr (p, ''set'' # s # ips)"
    using w[of ips p "[''set'', s]"] assms(5,6) by (simp add: is_config_flag_def)
  then have "cmdWhitelist io ([''-c'', p, ''set'', s] @ ips) fs c =
      (fst (postWhitelist io s ips c), case snd (postWhitelist io s ips c) of None \<Rightarrow> Inr [] | Some e \<Rightarrow> Inl (AdminFailed e))"
    using assms(1-3) by (simp add: cmdWhitelist_def case_prod_unfold del: whitelist_args.simps)
  with assms(4) have pw: "postWhitelist io s ips c = (c1, None)" and o: "out = []"
    by (cases "postWhitelist io s ips c", auto split: option.splits)+
  then have u: "map_of (whitelists c) s \<noteq> None" "c1 = c\<lparr>whitelists := AList.update s ips (whitelists c)\<rparr>"
    by (auto simp: postWhitelist_def ClientUpdateWhitelist_def Let_def split: prod.splits option.splits if_splits)
  have s: "s \<in> set (ServiceIDs c)" using u(1) by (auto simp: ServiceIDs_def map_of_eq_None_iff)
  then have "map fst (AList.update s ips (whitelists c)) = map fst (whitelists c)"
    by (simp add: ServiceIDs_def AList.update_keys)
  then have "admin_entries c1 = map (\<lambda>(i, al). (i, if i = s then ips else al)) (admin_entries c)"
    by (auto simp: admin_entries_def ServiceIDs_def Whitelist_def u(2) update_conv')
  with o s show ?thesis by blast
qed

theorem set_then_show_witness:
  "let c1 = fst (cmdWhitelist (\<lambda>_. None) [''-c'', ''c.yaml'', ''set'', ''https://app.example/x'', ''192.0.2.1'']
         [''c.yaml'' \<mapsto> client_config_ex\<lparr>cc_Token := ''t''\<rparr>] web_client_ex)
   in admin_entries c1 = [(''https://app.example/x'', [''192.0.2.1''])]"
proof -
  let ?fs = "[''c.yaml'' \<mapsto> client_config_ex\<lparr>cc_Token := ''t''\<rparr>]"
  let ?r = "cmdWhitelist (\<lambda>_. None) ([''-c'', ''c.yaml'', ''set'', ''https://app.example/x''] @ [''192.0.2.1'']) ?fs web_client_ex"
  have "case LoadClient (client_config_ex\<lparr>cc_Token := ''t''\<rparr>) of Inl _ \<Rightarrow> False | Inr _ \<Rightarrow> True" by code_simp
  then obtain cc' where l: "LoadClient (client_config_ex\<lparr>cc_Token := ''t''\<rparr>) = Inr cc'" by (auto split: sum.splits)
  have "case snd ?r of Inl _ \<Rightarrow> False | Inr _ \<Rightarrow> True" by code_simp
  then obtain out where "?r = (fst ?r, Inr out)" by (cases ?r) (auto split: sum.splits)
  then have r: "cmdWhitelist (\<lambda>_. None) ([''-c'', ''c.yaml'', ''set'', ''https://app.example/x''] @ [''192.0.2.1'']) ?fs web_client_ex = (fst ?r, Inr out)" .
  have f: "\<forall>a \<in> set [''192.0.2.1'']. \<not> is_config_flag a" "\<not> is_config_flag ''https://app.example/x''" by (simp_all add: is_config_flag_def)
  have "admin_entries (fst ?r) = map (\<lambda>(i, al). (i, if i = ''https://app.example/x'' then [''192.0.2.1''] else al)) (admin_entries web_client_ex)"
    using set_then_show[of ?fs "''c.yaml''", OF _ _ l r f] by simp
  moreover have "admin_entries web_client_ex = [(''https://app.example/x'', [''10.0.0.0/8''])]" by code_simp
  ultimately show ?thesis by simp
qed

end
