(* ===== verification/Spec2Isabelle.thy ===== *)
theory Spec2Isabelle
  imports DhcpClient Streams DataPlane Ingress Lifecycle Cli
begin

text \<open>
  \<^bold>\<open>tbox: a verification development.\<close>

  The program (\<^verbatim>\<open>src/\<close>) publishes services of machines behind a NAT on a public server. A \<^emph>\<open>server\<close>
  listens on one public port. A \<^emph>\<open>client\<close> reaches it over an embedded carrier (sing-box, VLESS-REALITY or TUIC), opens a control
  session, authenticates with its identifier and registers services and certificates. A public connection is routed by the
  server name of its TLS ClientHello: to a raw service of a client, to the HTTP publish server, or, for an unknown name, to the carrier
  itself, so that the server looks like the site it mimics. Beside that there is an L2 tunnel: a learning switch on the server and on each client, TAP devices,
  and an embedded DHCP server.

  \<^bold>\<open>Theories, in the order they build on each other.\<close>

  \<^item> \<^verbatim>\<open>Tbox_Prelude\<close>: bytes, words, strings, results (\<open>error + 'a\<close>), the shared lemma collections and the interface
  locales that several components use.
  \<^item> \<^verbatim>\<open>Go_Netip\<close>, \<^verbatim>\<open>Go_Url\<close>: what the sources use of the Go library: \<^verbatim>\<open>net/netip\<close>, \<^verbatim>\<open>net.ParseIP\<close>, \<^verbatim>\<open>net.ParseCIDR\<close>,
  \<^verbatim>\<open>net.SplitHostPort\<close>, \<^verbatim>\<open>strconv.ParseUint\<close>, \<^verbatim>\<open>url.Parse\<close>. \<^verbatim>\<open>Go_Json\<close>: \<^verbatim>\<open>encoding/json\<close> as far as tokens and stream headers use it: UTF-8, quoting, the parser with its
  nesting limit, and the decoding of a struct by its field names; the parser reads back what the encoder writes.
  \<^item> \<^verbatim>\<open>IpAllow\<close> (\<^verbatim>\<open>internal/ipallow\<close>), \<^verbatim>\<open>DestAllow\<close> (\<^verbatim>\<open>internal/destallow\<close>), \<^verbatim>\<open>Ban\<close> (\<^verbatim>\<open>internal/ban\<close>): the three
  admission decisions: who may connect, where a SOCKS client may go, and the throttle that bans sources after repeated failures. The throttle is
  shown to refine a specification that keeps the whole history of failures.
  \<^item> \<^verbatim>\<open>Registry\<close> (\<^verbatim>\<open>internal/control/registry.go\<close>, \<^verbatim>\<open>proto.go\<close>): services, certificates, registration with its conflict
  check, look-ups, teardown. Invariants over every reachable registry: clients do not overlap, nobody's registration changes another's services.
  \<^item> \<^verbatim>\<open>ControlServer\<close> (\<^verbatim>\<open>internal/control/server.go\<close>): a session's message turns, and the interleaving of all sessions as the step relation
  \<open>srv_step\<close>, with its invariant by rule induction.
  \<^item> \<^verbatim>\<open>Socks5\<close> (\<^verbatim>\<open>internal/socks5\<close>), \<^verbatim>\<open>ControlClient\<close> (\<^verbatim>\<open>internal/control/client.go\<close>, \<^verbatim>\<open>client_dhcp_linux.go\<close>,
  \<^verbatim>\<open>internal/dhcpclient\<close>, \<^verbatim>\<open>internal/app/whitelistcmd.go\<close>): the client's side: handshake, whitelist updates, reverse streams, reconnection, the
  tunnel's start and the use of a DHCP lease. Composed with the server: a handshake publishes exactly the services with the lists the client holds.
  \<^item> \<^verbatim>\<open>Publish\<close> (\<^verbatim>\<open>internal/publish\<close>), \<^verbatim>\<open>Sni\<close> and \<^verbatim>\<open>L4Router\<close> (\<^verbatim>\<open>internal/l4router\<close>): the public side: parsing the ClientHello, routing a
  connection, serving a request, accounting its status.
  \<^item> \<^verbatim>\<open>Framing\<close> (\<^verbatim>\<open>internal/l2/frame.go\<close>, \<^verbatim>\<open>internal/tunnel/frame.go\<close>, \<^verbatim>\<open>json.go\<close>), \<^verbatim>\<open>L2Switch\<close> (\<^verbatim>\<open>internal/l2/switch.go\<close>, \<^verbatim>\<open>udpendpoint.go\<close>,
  \<^verbatim>\<open>internal/control/tunhub.go\<close>), \<^verbatim>\<open>DhcpServer\<close> and \<^verbatim>\<open>DhcpLeases\<close> (\<^verbatim>\<open>internal/dhcpserver\<close>): the L2 tunnel's data path and address allocation.
  \<^verbatim>\<open>DhcpClient\<close> (\<^verbatim>\<open>internal/dhcpclient/lease.go\<close>) joins the server's lease table with what the client installs on its device.
  \<^item> \<^verbatim>\<open>DataPlane\<close>: the hub, the client nodes and the streams between them as one step relation \<open>plane_step\<close>, in which all pumps interleave and
  clients come and go: no frame is forged or looped, and a unicast frame crosses the tunnel.
  \<^item> \<^verbatim>\<open>Streams\<close> (\<^verbatim>\<open>Pipe\<close> of \<^verbatim>\<open>internal/tunnel/session.go\<close>, \<^verbatim>\<open>connListener\<close> of \<^verbatim>\<open>internal/l4router/router.go\<close>): the two concurrent constructions
  through which all public bytes go, as step relations of their goroutines: order, completeness, closing once, and no leaked goroutine or connection.
  \<^item> \<^verbatim>\<open>Ingress\<close> (\<^verbatim>\<open>Dial\<close> and \<^verbatim>\<open>OpenStream\<close> of the registry, \<^verbatim>\<open>internal/publish/httpproxy.go\<close>, \<^verbatim>\<open>wsbridge.go\<close>, \<^verbatim>\<open>handle\<close> of the router): the way of a public connection
  or request through router, registry, stream header and client to the upstream of its service.
  \<^item> \<^verbatim>\<open>Config\<close> (\<^verbatim>\<open>internal/config\<close>), \<^verbatim>\<open>Token\<close> (\<^verbatim>\<open>internal/token\<close>), \<^verbatim>\<open>Singbox\<close> (\<^verbatim>\<open>internal/singbox\<close>): configuration of both roles with defaults and
  validation, connection tokens with their JSON and base64 text form, the documents for the embedded carrier.
  \<^item> \<^verbatim>\<open>App\<close> (\<^verbatim>\<open>internal/app/server.go\<close>, \<^verbatim>\<open>client.go\<close>, \<^verbatim>\<open>setup.go\<close>, \<^verbatim>\<open>mobile/tbox.go\<close>): what the roles build from a configuration, and the properties
  that span these components: an issued token fits the server's carrier, only configured clients publish, what validation accepts can be built.
  \<^item> \<^verbatim>\<open>Netcfg\<close> (\<^verbatim>\<open>internal/l2/netcfg_linux.go\<close>, \<^verbatim>\<open>device_linux.go\<close>, \<^verbatim>\<open>sysconfig_linux.go\<close>, \<^verbatim>\<open>passthrough_linux.go\<close>), \<^verbatim>\<open>Nodes\<close>
  (\<^verbatim>\<open>internal/l2/clientnode.go\<close>), \<^verbatim>\<open>Hub\<close> (\<^verbatim>\<open>setupTunHub\<close>): the calls into the operating system that bring the tunnel up and take it down, with every
  point of failure; what is taken is released.
  \<^item> \<^verbatim>\<open>ClientSession\<close> (\<^verbatim>\<open>session\<close> of \<^verbatim>\<open>internal/control/client.go\<close>) and \<^verbatim>\<open>Lifecycle\<close> (\<^verbatim>\<open>RunServer\<close>, \<^verbatim>\<open>RunClient\<close>): a control session and a
  run of each role from start to return, with every failure on the way; what was started is stopped, and a server whose configuration loads reaches its router.
  \<^item> \<^verbatim>\<open>Cli\<close> (\<^verbatim>\<open>cmd/tbox/main.go\<close>, \<^verbatim>\<open>internal/app/admin.go\<close>): arguments and commands, and the admin API.

  \<^bold>\<open>How the model corresponds to the code.\<close> A struct is a record with the source's fields, an operation is a function of the source's name that takes and
  returns the state, an error return is the left value of a sum. Operations under a mutex are atomic; sessions interleave as steps. Maps whose iteration order
  matters are association lists. 8, 16, 32 and 128 bit values are words.

  \<^bold>\<open>Parameters.\<close> Code outside the repository is an argument of the definitions that use it: the X.509 parser (\<open>x509\<close>, \<open>certDNSNames\<close>), the parser of
  durations (\<open>dur\<close>), the YAML codec (configurations are the decoded values), key derivation (\<open>derive\<close>), random bytes, the clock (\<open>now\<close>), file
  contents (\<open>readFile\<close>), the results of dials, handshakes and stream openings, the answer of an upstream, and the operating system (\<open>kernel\<close>, whose answer to a call may depend on all calls before). No law is assumed of
  them except where a theorem states it as a hypothesis (that a system refuses nothing; that the packet library delivers the fields of an acknowledgement).

  \<^bold>\<open>Bounds and fuel.\<close> Loops are structural recursions or have a termination proof. The allocator's scan over the pool takes fuel, the number of addresses
  of that width; the scan is shown to end within it for every pool, lease table and clock. Reading loops consume their input stream.

  \<^bold>\<open>What the lemmas show.\<close> Each component has its well-formedness invariant with the preservation lemmas of its operations, its behaviour on every branch, and
  the round trips it promises; the properties are stated after a text block each. Where the code does not do what it means to, the
  theorem states what it does.

  \<^bold>\<open>Not modelled.\<close> The multiplexer library and its settings (\<^verbatim>\<open>Server\<close> and \<^verbatim>\<open>Client\<close> of \<^verbatim>\<open>internal/tunnel/session.go\<close>) and the embedded carrier: their outcomes are arguments. The
  JSON of control messages and of the admin API: a message is the value it carries, since its lists and maps are only decoded by the library. The packets of the DHCP
  exchange; accept loops, which only start the modelled handlers; the UDP endpoint inside \<open>plane_step\<close> (it is modelled on its own in \<^verbatim>\<open>L2Switch\<close>); rendering
  a whitelist for display; reading and writing configuration files; logging; printing usage and keys; the stubs for other systems; the Android
  application. These only move bytes, print or call libraries. Timeouts and the pacing of heartbeats appear only as events.
\<close>

end
